(* ===== verification/Prelude.thy ===== *)
theory Prelude
  imports Main "HOL-Library.Word" "HOL-Library.Monad_Syntax"
begin

text \<open>
  Shared vocabulary of the development: the machine types of the code, memory-checked
  reads and writes of byte buffers, and the big-endian byte codecs with their laws.

  Convention used everywhere: where the C++ dereferences a pointer or an iterator, the
  model returns an \<^verbatim>\<open>option\<close>, and \<^verbatim>\<open>None\<close> is an access outside the object (undefined
  behaviour in C++). A theorem that such a function is never \<^verbatim>\<open>None\<close> is a memory-safety
  theorem. Failures the code itself reports are ordinary values inside the \<^verbatim>\<open>Some\<close>.
\<close>

unbundle bit_operations_syntax

section \<open>Machine types\<close>

type_synonym byte = "8 word"
type_synonym u16 = "16 word"
type_synonym u32 = "32 word"
type_synonym u64 = "64 word"

named_theorems codec_simps \<open>laws of the byte codecs\<close>
named_theorems bounds_simps \<open>sizes and bounds of encoded data\<close>

section \<open>Memory-checked access\<close>

definition rd8 :: "byte list \<Rightarrow> nat \<Rightarrow> byte option" where
  "rd8 b p = (if p < length b then Some (b ! p) else None)"

definition bslice :: "nat \<Rightarrow> nat \<Rightarrow> 'a list \<Rightarrow> 'a list option" where
  "bslice p n b = (if p + n \<le> length b then Some (take n (drop p b)) else None)"

definition wr :: "'a list \<Rightarrow> nat \<Rightarrow> 'a list \<Rightarrow> 'a list option" where
  "wr b p xs = (if p + length xs \<le> length b
                then Some (take p b @ xs @ drop (p + length xs) b) else None)"

lemma rd8_append_left [simp]: "p < length xs \<Longrightarrow> rd8 (xs @ ys) p = Some (xs ! p)"
  by (simp add: rd8_def nth_append)

lemma rd8_Some: "rd8 b p = Some x \<longleftrightarrow> p < length b \<and> b ! p = x"
  by (auto simp: rd8_def)

lemma rd8_None: "rd8 b p = None \<longleftrightarrow> length b \<le> p"
  by (auto simp: rd8_def)

lemma rd8_drop: "rd8 (drop k b) p = rd8 b (k + p)"
  by (auto simp: rd8_def)

lemma bslice_Some: "bslice p n b = Some xs \<longleftrightarrow> p + n \<le> length b \<and> take n (drop p b) = xs"
  by (auto simp: bslice_def)

lemma bslice_middle [simp]:
  "length xs = p \<Longrightarrow> length ys = n \<Longrightarrow> bslice p n (xs @ ys @ zs) = Some ys"
  by (simp add: bslice_def)

lemma bslice_join:
  "bslice p n b = Some xs \<Longrightarrow> bslice (p + n) m b = Some ys \<Longrightarrow> bslice p (n + m) b = Some (xs @ ys)"
  by (auto simp: bslice_def take_add add.assoc add.commute [of p n] split: if_splits)

lemma bslice_prefix: "bslice 0 n b = Some xs \<Longrightarrow> b = xs @ drop n b"
  by (auto simp: bslice_def split: if_splits)

lemma rd8_bslice: "rd8 b p = Some x \<longleftrightarrow> bslice p 1 b = Some [x]"
  by (auto simp: rd8_def bslice_def take_Suc_conv_app_nth take_Suc hd_drop_conv_nth)

lemma bslice_length: "bslice p n b = Some xs \<Longrightarrow> length xs = n"
  by (auto simp: bslice_def split: if_splits)

lemma bslice_Suc:
  "bslice p (Suc n) b = do { x \<leftarrow> rd8 b p; xs \<leftarrow> bslice (p + 1) n b; Some (x # xs) }"
  by (auto simp: bslice_def rd8_def Cons_nth_drop_Suc [symmetric])

lemma bslice_1: "bslice p (Suc 0) b = do { x \<leftarrow> rd8 b p; Some [x] }"
  by (simp add: bslice_Suc) (auto simp: bslice_def rd8_def)

lemma bslice_numeral:
  "bslice p (numeral k) b =
     do { x \<leftarrow> rd8 b p; xs \<leftarrow> bslice (p + 1) (pred_numeral k) b; Some (x # xs) }"
  by (simp add: numeral_eq_Suc bslice_Suc)

lemma bslice_append:
  "bslice p (length (xs @ ys)) b = Some (xs @ ys) \<longleftrightarrow>
     bslice p (length xs) b = Some xs \<and> bslice (p + length xs) (length ys) b = Some ys"
proof (cases "p + (length xs + length ys) \<le> length b")
  case True
  then have "length (take (length xs) (drop p b)) = length xs" by simp
  then have "take (length xs + length ys) (drop p b) = xs @ ys \<longleftrightarrow>
      take (length xs) (drop p b) = xs \<and> take (length ys) (drop (p + length xs) b) = ys"
    by (simp only: take_add append_eq_append_conv drop_drop) (simp add: add.commute)
  then show ?thesis using True by (simp add: bslice_Some)
qed (auto simp: bslice_Some)

lemma bslice_append_iff:
  "bslice p k b = Some (xs @ ys) \<longleftrightarrow>
     k = length xs + length ys \<and> bslice p (length xs) b = Some xs \<and>
     bslice (p + length xs) (length ys) b = Some ys"
proof (cases "k = length xs + length ys")
  case True
  then show ?thesis using bslice_append [of p xs ys b] by simp
next
  case False
  then show ?thesis using bslice_length [of p k b "xs @ ys"] by auto
qed

lemma bslice_Cons_iff:
  "bslice p k b = Some (x # ys) \<longleftrightarrow>
     k = Suc (length ys) \<and> rd8 b p = Some x \<and> (ys = [] \<or> bslice (p + 1) (length ys) b = Some ys)"
  using bslice_append_iff [of p k b "[x]" ys]
  by (cases ys) (auto simp: bslice_1 bind_eq_Some_conv)

lemma wr_Some: "p + length xs \<le> length b \<Longrightarrow> wr b p xs = Some (take p b @ xs @ drop (p + length xs) b)"
  by (simp add: wr_def)

lemma wr_extend:
  "length xs = p \<Longrightarrow> length ys \<le> length zs \<Longrightarrow>
   wr (xs @ zs) p ys = Some (xs @ ys @ drop (length ys) zs)"
  by (simp add: wr_def)

text \<open>Two adjacent writes are one write.\<close>

lemma wr_wr [codec_simps]:
  "q = p + length xs \<Longrightarrow> Option.bind (wr b p xs) (\<lambda>b'. wr b' q ys) = wr b p (xs @ ys)"
  by (auto simp: wr_def ac_simps)

lemma wr_wr_bind [codec_simps]:
  "q = p + length xs \<Longrightarrow>
   Option.bind (wr b p xs) (\<lambda>b'. Option.bind (wr b' q ys) f) = Option.bind (wr b p (xs @ ys)) f"
  by (simp add: wr_wr flip: bind_assoc)

section \<open>Big-endian byte codecs\<close>

text \<open>
  The value of a byte string read most significant byte first, and the bytes of a value.
  The readers and writers of the code are shown equal to instances of these two.
\<close>

definition be_word :: "byte list \<Rightarrow> 'a::len word" where
  "be_word bs = foldl (\<lambda>v x. push_bit 8 v OR ucast x) 0 bs"

definition be_bytes :: "nat \<Rightarrow> 'a::len word \<Rightarrow> byte list" where
  "be_bytes n v = map (\<lambda>i. ucast (drop_bit (8 * i) v)) (rev [0..<n])"

lemma be_word_Nil [simp]: "be_word [] = 0"
  by (simp add: be_word_def)

lemma be_bytes_Nil_iff [simp]: "be_bytes n v = [] \<longleftrightarrow> n = 0"
  by (simp add: be_bytes_def)

lemma be_word_snoc: "be_word (bs @ [x]) = push_bit 8 (be_word bs) OR ucast x"
  by (simp add: be_word_def)

lemma length_be_bytes [simp, bounds_simps]: "length (be_bytes n v) = n"
  by (simp add: be_bytes_def)

lemma be_bytes_Suc: "be_bytes (Suc n) v = ucast (drop_bit (8 * n) v) # be_bytes n v"
  by (simp add: be_bytes_def)

lemma be_bytes_0 [simp]: "be_bytes 0 v = []"
  by (simp add: be_bytes_def)

lemma bit_be_word:
  "bit (be_word bs :: 'a::len word) k \<longleftrightarrow>
   k < LENGTH('a) \<and> k < 8 * length bs \<and> bit (rev bs ! (k div 8)) (k mod 8)"
proof (induction bs arbitrary: k rule: rev_induct)
  case Nil
  then show ?case by simp
next
  case (snoc x bs)
  show ?case
  proof (cases "k < 8")
    case True
    then show ?thesis
      by (auto simp: be_word_snoc bit_simps dest: bit_imp_le_length)
  next
    case False
    then obtain j where j: "k = j + 8" using le_Suc_ex [of 8 k] by (auto simp: add.commute)
    have "\<not> bit x k" using False by (auto dest: bit_imp_le_length)
    then show ?thesis
      by (auto simp: be_word_snoc bit_simps snoc.IH j div_add_self2)
  qed
qed

lemma nth_rev_be_bytes: "i < n \<Longrightarrow> rev (be_bytes n v) ! i = ucast (drop_bit (8 * i) v)"
  by (simp add: be_bytes_def rev_map)

lemma be_word_be_bytes: "be_word (be_bytes n v) = take_bit (8 * n) v"
proof (rule bit_word_eqI)
  fix k assume "k < LENGTH('a)"
  then show "bit (be_word (be_bytes n v) :: 'a word) k \<longleftrightarrow> bit (take_bit (8 * n) v) k"
    by (auto simp: bit_be_word nth_rev_be_bytes bit_simps less_mult_imp_div_less mult.commute)
qed

lemma be_word_inj:
  assumes "length xs = length ys" "8 * length xs \<le> LENGTH('a)"
    and eq: "(be_word xs :: 'a::len word) = be_word ys"
  shows "xs = ys"
proof -
  have "rev xs ! i = rev ys ! i" if i: "i < length xs" for i
  proof (rule bit_word_eqI)
    fix j :: nat assume j: "j < LENGTH(8)"
    let ?k = "8 * i + j"
    have "?k < 8 * length xs" using i j by simp
    moreover from this have "?k < LENGTH('a)" using assms(2) by linarith
    ultimately show "bit (rev xs ! i) j \<longleftrightarrow> bit (rev ys ! i) j"
      using arg_cong [OF eq, of "\<lambda>w. bit w ?k"] assms(1) i j by (simp add: bit_be_word)
  qed
  then have "rev xs = rev ys" using assms(1) by (intro nth_equalityI) auto
  then show ?thesis by simp
qed

lemma be_bytes_be_word:
  assumes "length bs = n" "8 * n \<le> LENGTH('a)"
  shows "be_bytes n (be_word bs :: 'a::len word) = bs"
proof (rule be_word_inj [where 'a = 'a])
  have "take_bit (8 * n) (be_word bs :: 'a word) = be_word bs"
    by (rule bit_word_eqI) (auto simp: bit_simps bit_be_word assms(1))
  then show "(be_word (be_bytes n (be_word bs :: 'a word)) :: 'a word) = be_word bs"
    by (simp add: be_word_be_bytes)
qed (use assms in auto)

lemma be_word_bytes_full: "8 * n = LENGTH('a) \<Longrightarrow> be_word (be_bytes n (v :: 'a::len word)) = v"
  by (simp add: be_word_be_bytes)

text \<open>
  The shift-and-or expressions the code writes out, and the fixed sizes it uses.
\<close>

lemma be_word_expand:
  "be_word [a, b] = push_bit 8 (ucast a) OR ucast b"
  "be_word [a, b, c, d] =
     ((push_bit 24 (ucast a) OR push_bit 16 (ucast b)) OR push_bit 8 (ucast c)) OR ucast d"
  by (simp_all add: be_word_def push_bit_or)

lemma be_word_expand6:
  "be_word [a, b, c, d, e, f] =
     ((((push_bit 40 (ucast a) OR push_bit 32 (ucast b)) OR push_bit 24 (ucast c))
       OR push_bit 16 (ucast d)) OR push_bit 8 (ucast e)) OR ucast f"
  by (simp add: be_word_def push_bit_or)

lemma be_bytes_expand:
  "be_bytes 2 v = [ucast (drop_bit 8 v), ucast v]"
  "be_bytes 4 v = [ucast (drop_bit 24 v), ucast (drop_bit 16 v), ucast (drop_bit 8 v), ucast v]"
  "be_bytes 6 v = [ucast (drop_bit 40 v), ucast (drop_bit 32 v), ucast (drop_bit 24 v),
                   ucast (drop_bit 16 v), ucast (drop_bit 8 v), ucast v]"
  "be_bytes 8 v = [ucast (drop_bit 56 v), ucast (drop_bit 48 v), ucast (drop_bit 40 v),
                   ucast (drop_bit 32 v), ucast (drop_bit 24 v), ucast (drop_bit 16 v),
                   ucast (drop_bit 8 v), ucast v]"
  by (simp_all add: be_bytes_def numeral_eq_Suc upt_rec)

lemma be_word_be_bytes_std [simp, codec_simps]:
  "be_word (be_bytes 2 v) = (v :: u16)"
  "be_word (be_bytes 4 w) = (w :: u32)"
  "be_word (be_bytes 8 x) = (x :: u64)"
  "be_word (be_bytes 6 x) = take_bit 48 (x :: u64)"
  by (simp_all add: be_word_be_bytes take_bit_word_eq_self)

lemma be_bytes_be_word_std [simp, codec_simps]:
  "length bs = 2 \<Longrightarrow> be_bytes 2 (be_word bs :: u16) = bs"
  "length bs = 4 \<Longrightarrow> be_bytes 4 (be_word bs :: u32) = bs"
  "length bs = 6 \<Longrightarrow> be_bytes 6 (be_word bs :: u64) = bs"
  "length bs = 8 \<Longrightarrow> be_bytes 8 (be_word bs :: u64) = bs"
  by (simp_all add: be_bytes_be_word)

section \<open>Words and naturals\<close>

lemma unat_of_nat_small [bounds_simps]:
  "n < 2 ^ 16 \<Longrightarrow> unat (of_nat n :: u16) = n"
  "n < 2 ^ 32 \<Longrightarrow> unat (of_nat n :: u32) = n"
  "n < 2 ^ 64 \<Longrightarrow> unat (of_nat n :: u64) = n"
  by (simp_all add: unsigned_of_nat take_bit_nat_eq_self)


section \<open>Simulation\<close>

text \<open>
  The interface between a component that processes a stream and what it promises: every step
  taken in a good state on an admissible input succeeds, keeps the state good and follows the
  abstract step, as long as the abstract state stays within the component's bounds.
\<close>

fun run_steps :: "('s \<Rightarrow> 'm \<Rightarrow> 's option) \<Rightarrow> 's \<Rightarrow> 'm list \<Rightarrow> 's option" where
  "run_steps step s [] = Some s"
| "run_steps step s (m # ms) = (case step s m of None \<Rightarrow> None | Some s' \<Rightarrow> run_steps step s' ms)"

fun admissible :: "('g \<Rightarrow> 'm \<Rightarrow> 'g) \<Rightarrow> ('g \<Rightarrow> 'm \<Rightarrow> bool) \<Rightarrow> ('g \<Rightarrow> bool) \<Rightarrow> 'g \<Rightarrow> 'm list \<Rightarrow> bool" where
  "admissible spec ok bound g [] \<longleftrightarrow> True"
| "admissible spec ok bound g (m # ms) \<longleftrightarrow>
     ok g m \<and> bound (spec g m) \<and> admissible spec ok bound (spec g m) ms"

lemma run_steps_append:
  "run_steps step s (xs @ ys) = Option.bind (run_steps step s xs) (\<lambda>s'. run_steps step s' ys)"
  by (induction xs arbitrary: s) (auto split: option.split)

locale simulation =
  fixes inv :: "'s \<Rightarrow> bool" and view :: "'s \<Rightarrow> 'g" and step :: "'s \<Rightarrow> 'm \<Rightarrow> 's option"
    and spec :: "'g \<Rightarrow> 'm \<Rightarrow> 'g" and ok :: "'g \<Rightarrow> 'm \<Rightarrow> bool" and bound :: "'g \<Rightarrow> bool"
  assumes step_sim: "inv s \<Longrightarrow> ok (view s) m \<Longrightarrow> bound (spec (view s) m) \<Longrightarrow>
    \<exists>s'. step s m = Some s' \<and> inv s' \<and> view s' = spec (view s) m"
begin

lemma run_sim:
  "inv s \<Longrightarrow> admissible spec ok bound (view s) ms \<Longrightarrow>
   \<exists>s'. run_steps step s ms = Some s' \<and> inv s' \<and> view s' = foldl spec (view s) ms"
proof (induction ms arbitrary: s)
  case (Cons m ms)
  then obtain s' where s': "step s m = Some s'" "inv s'" "view s' = spec (view s) m"
    using step_sim [of s m] by auto
  then show ?case using Cons.IH [OF s'(2)] Cons.prems by simp
qed simp

lemma run_total:
  "inv s \<Longrightarrow> admissible spec ok bound (view s) ms \<Longrightarrow> run_steps step s ms \<noteq> None"
  using run_sim by blast

end

end
