(* ===== verification/Types.thy ===== *)
theory Types
  imports Prelude
begin

text \<open>
  The primitive types of \<^verbatim>\<open>src/core/types.h\<close> and the symbol key of
  \<^verbatim>\<open>src/core/depth_book.h\<close>. \<^verbatim>\<open>Side\<close> is a C++ enum with a fixed underlying type of one byte
  and is always produced by a cast from a wire byte, so all 256 values occur; it is modelled
  as the byte, with the two named enumerators. \<^verbatim>\<open>char\<close> is modelled as the byte it stores.
\<close>

type_synonym OrderId = u64
type_synonym Price = u32
type_synonym Quantity = u32
type_synonym Timestamp = u64
type_synonym StockLocate = u16
type_synonym TrackingNumber = u16
type_synonym SequenceNumber = u64
type_synonym SymbolKey = u64
type_synonym Side = byte

abbreviation Buy :: Side where "Buy \<equiv> 0x42"
abbreviation Sell :: Side where "Sell \<equiv> 0x53"

definition kSymbolLen :: nat where
  "kSymbolLen = 8"

section \<open>Fixed-length character arrays\<close>

datatype Symbol = Symbol byte byte byte byte byte byte byte byte

fun sym_bytes :: "Symbol \<Rightarrow> byte list" where
  "sym_bytes (Symbol a b c d e f g h) = [a, b, c, d, e, f, g, h]"

definition symbol_at :: "(nat \<Rightarrow> byte) \<Rightarrow> Symbol" where
  "symbol_at f = Symbol (f 0) (f 1) (f 2) (f 3) (f 4) (f 5) (f 6) (f 7)"

definition sym_of_bytes :: "byte list \<Rightarrow> Symbol" where
  "sym_of_bytes bs = symbol_at (\<lambda>i. bs ! i)"

definition make_symbol :: "byte list \<Rightarrow> Symbol" where
  "make_symbol s = symbol_at (\<lambda>i. if i < length s \<and> i < kSymbolLen then s ! i else 0x20)"

fun find_last_not_of :: "byte list \<Rightarrow> byte \<Rightarrow> nat option" where
  "find_last_not_of [] c = None"
| "find_last_not_of (x # xs) c =
     (case find_last_not_of xs c of
        Some i \<Rightarrow> Some (Suc i)
      | None \<Rightarrow> if x = c then None else Some 0)"

definition symbol_to_string :: "Symbol \<Rightarrow> byte list" where
  "symbol_to_string s =
     (let out = sym_bytes s in
      case find_last_not_of out 0x20 of
        None \<Rightarrow> []
      | Some e \<Rightarrow> take (e + 1) out)"

definition symbol_key :: "Symbol \<Rightarrow> SymbolKey" where
  "symbol_key s = foldl (\<lambda>k c. push_bit 8 k OR ucast c) 0 (sym_bytes s)"

section \<open>Laws\<close>

lemma length_sym_bytes [simp, bounds_simps]: "length (sym_bytes s) = 8"
  by (cases s) simp

lemma sym_bytes_not_Nil [simp]: "sym_bytes s \<noteq> []"
  by (cases s) simp

lemma sym_of_bytes_sym_bytes [simp, codec_simps]: "sym_of_bytes (sym_bytes s) = s"
  by (cases s) (simp add: sym_of_bytes_def symbol_at_def)

lemma sym_bytes_sym_of_bytes [simp, codec_simps]:
  assumes "length bs = 8"
  shows "sym_bytes (sym_of_bytes bs) = bs"
proof -
  from assms obtain a b c d e f g h where "bs = [a, b, c, d, e, f, g, h]"
    by (auto simp: numeral_eq_Suc length_Suc_conv)
  then show ?thesis by (simp add: sym_of_bytes_def symbol_at_def)
qed

lemma symbol_key_be_word: "symbol_key s = be_word (sym_bytes s)"
  by (simp add: symbol_key_def be_word_def)

lemma sym_bytes_inject [simp]: "sym_bytes s = sym_bytes t \<longleftrightarrow> s = t"
  by (metis sym_of_bytes_sym_bytes)

lemma symbol_key_inject [simp]: "symbol_key s = symbol_key t \<longleftrightarrow> s = t"
  using be_word_inj [of "sym_bytes s" "sym_bytes t", where 'a = 64]
  by (auto simp: symbol_key_be_word)

definition symbol_of_key :: "SymbolKey \<Rightarrow> Symbol" where
  "symbol_of_key k = sym_of_bytes (be_bytes 8 k)"

lemma symbol_of_key_key [simp]: "symbol_of_key (symbol_key s) = s"
  by (simp add: symbol_of_key_def symbol_key_be_word)

lemma symbol_key_of_key [simp]: "symbol_key (symbol_of_key k) = k"
  by (simp add: symbol_of_key_def symbol_key_be_word)

lemma sym_bytes_at: "sym_bytes (symbol_at f) = map f [0..<8]"
  by (simp add: symbol_at_def upt_rec numeral_eq_Suc)

lemma find_last_not_of_replicate:
  "find_last_not_of (replicate n c) c = None"
  by (induction n) auto

lemma find_last_not_of_pad:
  "find_last_not_of (xs @ replicate n c) c = find_last_not_of xs c"
  by (induction xs) (auto simp: find_last_not_of_replicate)

lemma find_last_not_of_last:
  "xs \<noteq> [] \<Longrightarrow> last xs \<noteq> c \<Longrightarrow> find_last_not_of xs c = Some (length xs - 1)"
  by (induction xs) (auto split: if_splits)

lemma find_last_not_of_None:
  "find_last_not_of xs c = None \<Longrightarrow> xs = replicate (length xs) c"
  by (induction xs) (auto split: option.splits if_splits)

lemma find_last_not_of_Some:
  "find_last_not_of xs c = Some e \<Longrightarrow>
     e < length xs \<and> xs = take (Suc e) xs @ replicate (length xs - Suc e) c"
proof (induction xs arbitrary: e)
  case Nil
  then show ?case by simp
next
  case (Cons x xs)
  show ?case
  proof (cases "find_last_not_of xs c")
    case None
    then show ?thesis using Cons.prems find_last_not_of_None [OF None] by (simp split: if_splits)
  next
    case (Some i)
    then show ?thesis using Cons.IH [OF Some] Cons.prems by simp
  qed
qed

lemma make_symbol_bytes:
  "sym_bytes (make_symbol s) = take 8 s @ replicate (8 - length s) 0x20"
  by (rule nth_equalityI)
     (auto simp: make_symbol_def sym_bytes_at nth_append kSymbolLen_def)

text \<open>Symbols are ordered by their key, so that sets of symbols have a canonical listing.\<close>

instantiation Symbol :: linorder
begin

definition less_eq_Symbol :: "Symbol \<Rightarrow> Symbol \<Rightarrow> bool" where
  "less_eq_Symbol s t \<longleftrightarrow> symbol_key s \<le> symbol_key t"

definition less_Symbol :: "Symbol \<Rightarrow> Symbol \<Rightarrow> bool" where
  "less_Symbol s t \<longleftrightarrow> symbol_key s < symbol_key t"

instance
  proof
  fix s t u :: Symbol
  show "s < t \<longleftrightarrow> s \<le> t \<and> \<not> t \<le> s" by (auto simp only: less_eq_Symbol_def less_Symbol_def less_le_not_le)
  show "s \<le> s" by (simp add: less_eq_Symbol_def)
  show "s \<le> t \<Longrightarrow> t \<le> u \<Longrightarrow> s \<le> u" by (simp add: less_eq_Symbol_def)
  show "s \<le> t \<Longrightarrow> t \<le> s \<Longrightarrow> s = t" by (simp add: less_eq_Symbol_def flip: symbol_key_inject)
  show "s \<le> t \<or> t \<le> s" by (auto simp: less_eq_Symbol_def)
qed

end

end
