(* ===== verification/Itch_Messages.thy ===== *)
theory Itch_Messages
  imports Types
begin

text \<open>
  The decoded ITCH messages of \<^verbatim>\<open>src/core/itch_messages.h\<close>. Every message struct that starts
  with \<^verbatim>\<open>stock_locate\<close>, \<^verbatim>\<open>tracking_number\<close> and \<^verbatim>\<open>ts\<close> extends the record \<^verbatim>\<open>MsgHeader\<close> of these
  three fields; the remaining fields carry a prefix where two structs share a field name.
  \<^verbatim>\<open>AnyMessage\<close> is the \<^verbatim>\<open>std::variant\<close> over them, one constructor per alternative.
\<close>

datatype MessageType =
    SystemEvent | StockDirectory | AddOrder | AddOrderMPID | OrderExecuted
  | OrderExecutedWithPrice | OrderCancel | OrderDelete | OrderReplace | Trade

fun type_code :: "MessageType \<Rightarrow> byte" where
  "type_code SystemEvent = 0x53"            \<comment> \<open>S\<close>
| "type_code StockDirectory = 0x52"         \<comment> \<open>R\<close>
| "type_code AddOrder = 0x41"               \<comment> \<open>A\<close>
| "type_code AddOrderMPID = 0x46"           \<comment> \<open>F\<close>
| "type_code OrderExecuted = 0x45"          \<comment> \<open>E\<close>
| "type_code OrderExecutedWithPrice = 0x43" \<comment> \<open>C\<close>
| "type_code OrderCancel = 0x58"            \<comment> \<open>X\<close>
| "type_code OrderDelete = 0x44"            \<comment> \<open>D\<close>
| "type_code OrderReplace = 0x55"           \<comment> \<open>U\<close>
| "type_code Trade = 0x50"                  \<comment> \<open>P\<close>

text \<open>Wire sizes including the type byte.\<close>

fun kWireSize :: "MessageType \<Rightarrow> nat" where
  "kWireSize SystemEvent = 12"
| "kWireSize StockDirectory = 39"
| "kWireSize AddOrder = 36"
| "kWireSize AddOrderMPID = 40"
| "kWireSize OrderExecuted = 31"
| "kWireSize OrderExecutedWithPrice = 36"
| "kWireSize OrderCancel = 23"
| "kWireSize OrderDelete = 19"
| "kWireSize OrderReplace = 35"
| "kWireSize Trade = 44"

datatype Char4 = Char4 byte byte byte byte

fun char4_bytes :: "Char4 \<Rightarrow> byte list" where
  "char4_bytes (Char4 a b c d) = [a, b, c, d]"

definition char4_of_bytes :: "byte list \<Rightarrow> Char4" where
  "char4_of_bytes bs = Char4 (bs ! 0) (bs ! 1) (bs ! 2) (bs ! 3)"

record MsgHeader =
  stock_locate :: StockLocate
  tracking_number :: TrackingNumber
  ts :: Timestamp

record SystemEventMsg = MsgHeader +
  event_code :: byte

record StockDirectoryMsg = MsgHeader +
  dir_symbol :: Symbol
  market_category :: byte
  financial_status :: byte
  round_lot_size :: u32

record AddOrderMsg = MsgHeader +
  add_order_id :: OrderId
  add_side :: Side
  add_shares :: Quantity
  add_symbol :: Symbol
  add_price :: Price

record AddOrderMPIDMsg =
  mpid_base :: AddOrderMsg
  attribution :: Char4

record OrderExecutedMsg = MsgHeader +
  exec_order_id :: OrderId
  executed_shares :: Quantity
  exec_match_number :: u64

record OrderExecutedWithPriceMsg =
  exec_base :: OrderExecutedMsg
  printable :: byte
  execution_price :: Price

record OrderCancelMsg = MsgHeader +
  cancel_order_id :: OrderId
  canceled_shares :: Quantity

record OrderDeleteMsg = MsgHeader +
  delete_order_id :: OrderId

record OrderReplaceMsg = MsgHeader +
  original_order_id :: OrderId
  new_order_id :: OrderId
  replace_shares :: Quantity
  replace_price :: Price

record TradeMsg = MsgHeader +
  trade_order_id :: OrderId
  trade_side :: Side
  trade_shares :: Quantity
  trade_symbol :: Symbol
  trade_price :: Price
  trade_match_number :: u64

datatype AnyMessage =
    MSystemEvent SystemEventMsg
  | MStockDirectory StockDirectoryMsg
  | MAddOrder AddOrderMsg
  | MAddOrderMPID AddOrderMPIDMsg
  | MOrderExecuted OrderExecutedMsg
  | MOrderExecutedWithPrice OrderExecutedWithPriceMsg
  | MOrderCancel OrderCancelMsg
  | MOrderDelete OrderDeleteMsg
  | MOrderReplace OrderReplaceMsg
  | MTrade TradeMsg

text \<open>
  The Stock Directory frame is declared 39 bytes long, but its fields take 25: the last 14
  bytes of the frame carry no field. Every other type is exactly as long as its fields.
\<close>

fun pad_size :: "MessageType \<Rightarrow> nat" where
  "pad_size t = (if t = StockDirectory then 14 else 0)"

fun type_of :: "AnyMessage \<Rightarrow> MessageType" where
  "type_of (MSystemEvent m) = SystemEvent"
| "type_of (MStockDirectory m) = StockDirectory"
| "type_of (MAddOrder m) = AddOrder"
| "type_of (MAddOrderMPID m) = AddOrderMPID"
| "type_of (MOrderExecuted m) = OrderExecuted"
| "type_of (MOrderExecutedWithPrice m) = OrderExecutedWithPrice"
| "type_of (MOrderCancel m) = OrderCancel"
| "type_of (MOrderDelete m) = OrderDelete"
| "type_of (MOrderReplace m) = OrderReplace"
| "type_of (MTrade m) = Trade"

section \<open>Laws\<close>

lemma length_char4_bytes [simp, bounds_simps]: "length (char4_bytes c) = 4"
  by (cases c) simp

lemma char4_bytes_not_Nil [simp]: "char4_bytes c \<noteq> []"
  by (cases c) simp

lemma char4_of_bytes_char4_bytes [simp, codec_simps]: "char4_of_bytes (char4_bytes c) = c"
  by (cases c) (simp add: char4_of_bytes_def)

lemma char4_bytes_char4_of_bytes [simp, codec_simps]:
  assumes "length bs = 4"
  shows "char4_bytes (char4_of_bytes bs) = bs"
proof -
  from assms obtain a b c d where "bs = [a, b, c, d]"
    by (auto simp: numeral_eq_Suc length_Suc_conv)
  then show ?thesis by (simp add: char4_of_bytes_def)
qed

lemma type_code_inject [simp]: "type_code s = type_code t \<longleftrightarrow> s = t"
  by (cases s; cases t) simp_all

lemma kWireSize_bounds [bounds_simps]: "0 < kWireSize t" "kWireSize t < 2 ^ 16" "12 \<le> kWireSize t"
  by (cases t; simp)+

text \<open>
  The part of a message that the wire can carry: timestamps are 48 bits wide there.
\<close>

definition trunc_ts :: "'a MsgHeader_scheme \<Rightarrow> 'a MsgHeader_scheme" where
  "trunc_ts m = m\<lparr>ts := take_bit 48 (ts m)\<rparr>"

fun on_wire :: "AnyMessage \<Rightarrow> AnyMessage" where
  "on_wire (MSystemEvent m) = MSystemEvent (trunc_ts m)"
| "on_wire (MStockDirectory m) = MStockDirectory (trunc_ts m)"
| "on_wire (MAddOrder m) = MAddOrder (trunc_ts m)"
| "on_wire (MAddOrderMPID m) = MAddOrderMPID (m\<lparr>mpid_base := trunc_ts (mpid_base m)\<rparr>)"
| "on_wire (MOrderExecuted m) = MOrderExecuted (trunc_ts m)"
| "on_wire (MOrderExecutedWithPrice m) =
     MOrderExecutedWithPrice (m\<lparr>exec_base := trunc_ts (exec_base m)\<rparr>)"
| "on_wire (MOrderCancel m) = MOrderCancel (trunc_ts m)"
| "on_wire (MOrderDelete m) = MOrderDelete (trunc_ts m)"
| "on_wire (MOrderReplace m) = MOrderReplace (trunc_ts m)"
| "on_wire (MTrade m) = MTrade (trunc_ts m)"

fun msg_ts :: "AnyMessage \<Rightarrow> Timestamp" where
  "msg_ts (MSystemEvent m) = ts m"
| "msg_ts (MStockDirectory m) = ts m"
| "msg_ts (MAddOrder m) = ts m"
| "msg_ts (MAddOrderMPID m) = ts (mpid_base m)"
| "msg_ts (MOrderExecuted m) = ts m"
| "msg_ts (MOrderExecutedWithPrice m) = ts (exec_base m)"
| "msg_ts (MOrderCancel m) = ts m"
| "msg_ts (MOrderDelete m) = ts m"
| "msg_ts (MOrderReplace m) = ts m"
| "msg_ts (MTrade m) = ts m"

lemma trunc_ts_id: "take_bit 48 (ts m) = ts m \<Longrightarrow> trunc_ts m = m"
  by (simp add: trunc_ts_def)

lemma take_bit_48_id: "(v :: u64) < 2 ^ 48 \<Longrightarrow> take_bit 48 v = v"
  by (simp add: take_bit_eq_mod mod_word_less)

lemma on_wire_id: "msg_ts m < 2 ^ 48 \<Longrightarrow> on_wire m = m"
  by (cases m) (simp_all add: trunc_ts_id take_bit_48_id)

lemma msg_ts_on_wire [simp]: "msg_ts (on_wire m) = take_bit 48 (msg_ts m)"
  by (cases m) (simp_all add: trunc_ts_def)

lemma type_of_on_wire [simp]: "type_of (on_wire m) = type_of m"
  by (cases m) simp_all

end
