(* ===== verification/Itch_Parser.thy ===== *)
theory Itch_Parser
  imports Itch_Messages
begin

text \<open>
  \<^verbatim>\<open>src/core/parser.cpp\<close>: decoding and encoding of one length-prefixed ITCH frame. The reader
  works on the whole byte span with absolute offsets (the code's pointer \<^verbatim>\<open>p\<close> minus
  \<^verbatim>\<open>bytes.data()\<close>), the writer on the whole output span. Every access is checked: an
  access outside the span makes the result \<^verbatim>\<open>None\<close>.
\<close>

section \<open>Byte order\<close>

definition read_u16 :: "byte list \<Rightarrow> nat \<Rightarrow> u16 option" where
  "read_u16 b p = do {
     b0 \<leftarrow> rd8 b p; b1 \<leftarrow> rd8 b (p + 1);
     Some (push_bit 8 (ucast b0) OR ucast b1) }"

definition read_u32 :: "byte list \<Rightarrow> nat \<Rightarrow> u32 option" where
  "read_u32 b p = do {
     b0 \<leftarrow> rd8 b p; b1 \<leftarrow> rd8 b (p + 1); b2 \<leftarrow> rd8 b (p + 2); b3 \<leftarrow> rd8 b (p + 3);
     Some (((push_bit 24 (ucast b0) OR push_bit 16 (ucast b1)) OR push_bit 8 (ucast b2)) OR ucast b3) }"

definition read_u48 :: "byte list \<Rightarrow> nat \<Rightarrow> u64 option" where
  "read_u48 b p = do {
     b0 \<leftarrow> rd8 b p; b1 \<leftarrow> rd8 b (p + 1); b2 \<leftarrow> rd8 b (p + 2);
     b3 \<leftarrow> rd8 b (p + 3); b4 \<leftarrow> rd8 b (p + 4); b5 \<leftarrow> rd8 b (p + 5);
     Some (((((push_bit 40 (ucast b0) OR push_bit 32 (ucast b1)) OR push_bit 24 (ucast b2))
            OR push_bit 16 (ucast b3)) OR push_bit 8 (ucast b4)) OR ucast b5) }"

text \<open>The loop \<^verbatim>\<open>for (i = 0; i < n; ++i) v = (v << 8) | p[i]\<close>.\<close>

fun read_be_loop :: "byte list \<Rightarrow> nat \<Rightarrow> nat \<Rightarrow> u64 \<Rightarrow> u64 option" where
  "read_be_loop b p 0 v = Some v"
| "read_be_loop b p (Suc n) v = do {
     x \<leftarrow> rd8 b p;
     read_be_loop b (p + 1) n (push_bit 8 v OR ucast x) }"

definition read_u64 :: "byte list \<Rightarrow> nat \<Rightarrow> u64 option" where
  "read_u64 b p = read_be_loop b p 8 0"

definition read_symbol :: "byte list \<Rightarrow> nat \<Rightarrow> Symbol option" where
  "read_symbol b p = map_option sym_of_bytes (bslice p kSymbolLen b)"

definition write_u16 :: "byte list \<Rightarrow> nat \<Rightarrow> u16 \<Rightarrow> byte list option" where
  "write_u16 b p v = do {
     b \<leftarrow> wr b p [ucast (drop_bit 8 v)];
     wr b (p + 1) [ucast v] }"

definition write_u32 :: "byte list \<Rightarrow> nat \<Rightarrow> u32 \<Rightarrow> byte list option" where
  "write_u32 b p v = do {
     b \<leftarrow> wr b p [ucast (drop_bit 24 v)];
     b \<leftarrow> wr b (p + 1) [ucast (drop_bit 16 v)];
     b \<leftarrow> wr b (p + 2) [ucast (drop_bit 8 v)];
     wr b (p + 3) [ucast v] }"

definition write_u48 :: "byte list \<Rightarrow> nat \<Rightarrow> u64 \<Rightarrow> byte list option" where
  "write_u48 b p v = do {
     b \<leftarrow> wr b p [ucast (drop_bit 40 v)];
     b \<leftarrow> wr b (p + 1) [ucast (drop_bit 32 v)];
     b \<leftarrow> wr b (p + 2) [ucast (drop_bit 24 v)];
     b \<leftarrow> wr b (p + 3) [ucast (drop_bit 16 v)];
     b \<leftarrow> wr b (p + 4) [ucast (drop_bit 8 v)];
     wr b (p + 5) [ucast v] }"

text \<open>The loop \<^verbatim>\<open>for (i = 0; i < 8; ++i) p[i] = v >> (56 - i * 8)\<close>, from index \<^verbatim>\<open>i\<close> on.\<close>

fun write_u64_loop :: "nat \<Rightarrow> nat \<Rightarrow> byte list \<Rightarrow> nat \<Rightarrow> u64 \<Rightarrow> byte list option" where
  "write_u64_loop 0 i b p v = Some b"
| "write_u64_loop (Suc n) i b p v = do {
     b \<leftarrow> wr b (p + i) [ucast (drop_bit (56 - i * 8) v)];
     write_u64_loop n (Suc i) b p v }"

definition write_u64 :: "byte list \<Rightarrow> nat \<Rightarrow> u64 \<Rightarrow> byte list option" where
  "write_u64 b p v = write_u64_loop 8 0 b p v"

definition write_symbol :: "byte list \<Rightarrow> nat \<Rightarrow> Symbol \<Rightarrow> byte list option" where
  "write_symbol b p s = wr b p (sym_bytes s)"

section \<open>Decoding\<close>

datatype ParseStatus = Ok | ShortBuffer | UnknownType | LengthMismatch

record ParseResult =
  status :: ParseStatus
  consumed :: nat
  message :: "AnyMessage option"

fun message_type :: "byte \<Rightarrow> MessageType option" where
  "message_type c =
     (if c = 0x53 then Some SystemEvent
      else if c = 0x52 then Some StockDirectory
      else if c = 0x41 then Some AddOrder
      else if c = 0x46 then Some AddOrderMPID
      else if c = 0x45 then Some OrderExecuted
      else if c = 0x43 then Some OrderExecutedWithPrice
      else if c = 0x58 then Some OrderCancel
      else if c = 0x44 then Some OrderDelete
      else if c = 0x55 then Some OrderReplace
      else if c = 0x50 then Some Trade
      else None)"

definition decode_system_event :: "byte list \<Rightarrow> nat \<Rightarrow> SystemEventMsg option" where
  "decode_system_event b p = do {
     loc \<leftarrow> read_u16 b p;
     trk \<leftarrow> read_u16 b (p + 2);
     t \<leftarrow> read_u48 b (p + 4);
     ec \<leftarrow> rd8 b (p + 10);
     Some \<lparr>stock_locate = loc, tracking_number = trk, ts = t, event_code = ec\<rparr> }"

definition decode_stock_directory :: "byte list \<Rightarrow> nat \<Rightarrow> StockDirectoryMsg option" where
  "decode_stock_directory b p = do {
     loc \<leftarrow> read_u16 b p;
     trk \<leftarrow> read_u16 b (p + 2);
     t \<leftarrow> read_u48 b (p + 4);
     sym \<leftarrow> read_symbol b (p + 10);
     mc \<leftarrow> rd8 b (p + 18);
     fs \<leftarrow> rd8 b (p + 19);
     rl \<leftarrow> read_u32 b (p + 20);
     Some \<lparr>stock_locate = loc, tracking_number = trk, ts = t, dir_symbol = sym,
       market_category = mc, financial_status = fs, round_lot_size = rl\<rparr> }"

definition decode_add_order :: "byte list \<Rightarrow> nat \<Rightarrow> AddOrderMsg option" where
  "decode_add_order b p = do {
     loc \<leftarrow> read_u16 b p;
     trk \<leftarrow> read_u16 b (p + 2);
     t \<leftarrow> read_u48 b (p + 4);
     oid \<leftarrow> read_u64 b (p + 10);
     sd \<leftarrow> rd8 b (p + 18);
     sh \<leftarrow> read_u32 b (p + 19);
     sym \<leftarrow> read_symbol b (p + 23);
     pr \<leftarrow> read_u32 b (p + 31);
     Some \<lparr>stock_locate = loc, tracking_number = trk, ts = t, add_order_id = oid,
       add_side = sd, add_shares = sh, add_symbol = sym, add_price = pr\<rparr> }"

definition decode_add_order_mpid :: "byte list \<Rightarrow> nat \<Rightarrow> AddOrderMPIDMsg option" where
  "decode_add_order_mpid b p = do {
     base \<leftarrow> decode_add_order b p;
     att \<leftarrow> bslice (p + 35) 4 b;
     Some \<lparr>mpid_base = base, attribution = char4_of_bytes att\<rparr> }"

definition decode_order_executed :: "byte list \<Rightarrow> nat \<Rightarrow> OrderExecutedMsg option" where
  "decode_order_executed b p = do {
     loc \<leftarrow> read_u16 b p;
     trk \<leftarrow> read_u16 b (p + 2);
     t \<leftarrow> read_u48 b (p + 4);
     oid \<leftarrow> read_u64 b (p + 10);
     sh \<leftarrow> read_u32 b (p + 18);
     mn \<leftarrow> read_u64 b (p + 22);
     Some \<lparr>stock_locate = loc, tracking_number = trk, ts = t, exec_order_id = oid,
       executed_shares = sh, exec_match_number = mn\<rparr> }"

definition decode_executed_with_price :: "byte list \<Rightarrow> nat \<Rightarrow> OrderExecutedWithPriceMsg option" where
  "decode_executed_with_price b p = do {
     base \<leftarrow> decode_order_executed b p;
     pt \<leftarrow> rd8 b (p + 30);
     pr \<leftarrow> read_u32 b (p + 31);
     Some \<lparr>exec_base = base, printable = pt, execution_price = pr\<rparr> }"

definition decode_order_cancel :: "byte list \<Rightarrow> nat \<Rightarrow> OrderCancelMsg option" where
  "decode_order_cancel b p = do {
     loc \<leftarrow> read_u16 b p;
     trk \<leftarrow> read_u16 b (p + 2);
     t \<leftarrow> read_u48 b (p + 4);
     oid \<leftarrow> read_u64 b (p + 10);
     sh \<leftarrow> read_u32 b (p + 18);
     Some \<lparr>stock_locate = loc, tracking_number = trk, ts = t,
       cancel_order_id = oid, canceled_shares = sh\<rparr> }"

definition decode_order_delete :: "byte list \<Rightarrow> nat \<Rightarrow> OrderDeleteMsg option" where
  "decode_order_delete b p = do {
     loc \<leftarrow> read_u16 b p;
     trk \<leftarrow> read_u16 b (p + 2);
     t \<leftarrow> read_u48 b (p + 4);
     oid \<leftarrow> read_u64 b (p + 10);
     Some \<lparr>stock_locate = loc, tracking_number = trk, ts = t, delete_order_id = oid\<rparr> }"

definition decode_order_replace :: "byte list \<Rightarrow> nat \<Rightarrow> OrderReplaceMsg option" where
  "decode_order_replace b p = do {
     loc \<leftarrow> read_u16 b p;
     trk \<leftarrow> read_u16 b (p + 2);
     t \<leftarrow> read_u48 b (p + 4);
     oid \<leftarrow> read_u64 b (p + 10);
     nid \<leftarrow> read_u64 b (p + 18);
     sh \<leftarrow> read_u32 b (p + 26);
     pr \<leftarrow> read_u32 b (p + 30);
     Some \<lparr>stock_locate = loc, tracking_number = trk, ts = t,
       original_order_id = oid, new_order_id = nid, replace_shares = sh, replace_price = pr\<rparr> }"

definition decode_trade :: "byte list \<Rightarrow> nat \<Rightarrow> TradeMsg option" where
  "decode_trade b p = do {
     loc \<leftarrow> read_u16 b p;
     trk \<leftarrow> read_u16 b (p + 2);
     t \<leftarrow> read_u48 b (p + 4);
     oid \<leftarrow> read_u64 b (p + 10);
     sd \<leftarrow> rd8 b (p + 18);
     sh \<leftarrow> read_u32 b (p + 19);
     sym \<leftarrow> read_symbol b (p + 23);
     pr \<leftarrow> read_u32 b (p + 31);
     mn \<leftarrow> read_u64 b (p + 35);
     Some \<lparr>stock_locate = loc, tracking_number = trk, ts = t, trade_order_id = oid,
       trade_side = sd, trade_shares = sh, trade_symbol = sym, trade_price = pr,
       trade_match_number = mn\<rparr> }"

fun decode_body :: "MessageType \<Rightarrow> byte list \<Rightarrow> nat \<Rightarrow> AnyMessage option" where
  "decode_body SystemEvent b p = map_option MSystemEvent (decode_system_event b p)"
| "decode_body StockDirectory b p = map_option MStockDirectory (decode_stock_directory b p)"
| "decode_body AddOrder b p = map_option MAddOrder (decode_add_order b p)"
| "decode_body AddOrderMPID b p = map_option MAddOrderMPID (decode_add_order_mpid b p)"
| "decode_body OrderExecuted b p = map_option MOrderExecuted (decode_order_executed b p)"
| "decode_body OrderExecutedWithPrice b p = map_option MOrderExecutedWithPrice (decode_executed_with_price b p)"
| "decode_body OrderCancel b p = map_option MOrderCancel (decode_order_cancel b p)"
| "decode_body OrderDelete b p = map_option MOrderDelete (decode_order_delete b p)"
| "decode_body OrderReplace b p = map_option MOrderReplace (decode_order_replace b p)"
| "decode_body Trade b p = map_option MTrade (decode_trade b p)"

definition decode_frame :: "byte list \<Rightarrow> ParseResult option" where
  "decode_frame b =
     (if length b < 2 then Some \<lparr>status = ShortBuffer, consumed = 0, message = None\<rparr>
      else do {
        len \<leftarrow> read_u16 b 0;
        let total = 2 + unat len;
        if length b < total then Some \<lparr>status = ShortBuffer, consumed = 0, message = None\<rparr>
        else if len < 1 then Some \<lparr>status = LengthMismatch, consumed = total, message = None\<rparr>
        else do {
          c \<leftarrow> rd8 b 2;
          case message_type c of
            None \<Rightarrow> Some \<lparr>status = UnknownType, consumed = total, message = None\<rparr>
          | Some ty \<Rightarrow>
              if unat len \<noteq> kWireSize ty
              then Some \<lparr>status = LengthMismatch, consumed = total, message = None\<rparr>
              else do {
                m \<leftarrow> decode_body ty b 3;
                Some \<lparr>status = Ok, consumed = total, message = Some m\<rparr> } } })"

section \<open>Encoding\<close>

definition framed_size :: "AnyMessage \<Rightarrow> nat" where
  "framed_size m = 2 + kWireSize (type_of m)"

definition write_header ::
  "byte list \<Rightarrow> nat \<Rightarrow> byte \<Rightarrow> 'a MsgHeader_scheme \<Rightarrow> (nat \<times> byte list) option" where
  "write_header out wsize c m =
     (if length out < 2 + wsize then Some (0, out)
      else do {
        out \<leftarrow> write_u16 out 0 (of_nat wsize);
        out \<leftarrow> wr out 2 [c];
        out \<leftarrow> write_u16 out 3 (stock_locate m);
        out \<leftarrow> write_u16 out 5 (tracking_number m);
        out \<leftarrow> write_u48 out 7 (ts m);
        Some (2 + wsize, out) })"

text \<open>
  The common shape of the alternatives: write the header, return 0 when it did not fit,
  else write the fields and return the frame's size.
\<close>

definition after_header ::
  "(nat \<times> byte list) option \<Rightarrow> nat \<Rightarrow> (byte list \<Rightarrow> byte list option) \<Rightarrow> (nat \<times> byte list) option" where
  "after_header hdr wsize put = do {
     (n, out) \<leftarrow> hdr;
     if n = 0 then Some (0, out)
     else do { out \<leftarrow> put out; Some (2 + wsize, out) } }"

definition encode_system_event :: "SystemEventMsg \<Rightarrow> byte list \<Rightarrow> (nat \<times> byte list) option" where
  "encode_system_event m out =
     after_header (write_header out 12 0x53 m) 12 (\<lambda>out. wr out 13 [event_code m])"

definition encode_stock_directory :: "StockDirectoryMsg \<Rightarrow> byte list \<Rightarrow> (nat \<times> byte list) option" where
  "encode_stock_directory m out =
     after_header (write_header out 39 0x52 m) 39 (\<lambda>out. do {
       out \<leftarrow> write_symbol out 13 (dir_symbol m);
       out \<leftarrow> wr out 21 [market_category m];
       out \<leftarrow> wr out 22 [financial_status m];
       write_u32 out 23 (round_lot_size m) })"

definition encode_add_order :: "AddOrderMsg \<Rightarrow> byte list \<Rightarrow> (nat \<times> byte list) option" where
  "encode_add_order m out =
     after_header (write_header out 36 0x41 m) 36 (\<lambda>out. do {
       out \<leftarrow> write_u64 out 13 (add_order_id m);
       out \<leftarrow> wr out 21 [add_side m];
       out \<leftarrow> write_u32 out 22 (add_shares m);
       out \<leftarrow> write_symbol out 26 (add_symbol m);
       write_u32 out 34 (add_price m) })"

definition encode_add_order_mpid :: "AddOrderMPIDMsg \<Rightarrow> byte list \<Rightarrow> (nat \<times> byte list) option" where
  "encode_add_order_mpid m out =
     (let base = mpid_base m in
      after_header (write_header out 40 0x46 base) 40 (\<lambda>out. do {
       out \<leftarrow> write_u64 out 13 (add_order_id base);
       out \<leftarrow> wr out 21 [add_side base];
       out \<leftarrow> write_u32 out 22 (add_shares base);
       out \<leftarrow> write_symbol out 26 (add_symbol base);
       out \<leftarrow> write_u32 out 34 (add_price base);
       wr out 38 (char4_bytes (attribution m)) }))"

definition encode_order_executed :: "OrderExecutedMsg \<Rightarrow> byte list \<Rightarrow> (nat \<times> byte list) option" where
  "encode_order_executed m out =
     after_header (write_header out 31 0x45 m) 31 (\<lambda>out. do {
       out \<leftarrow> write_u64 out 13 (exec_order_id m);
       out \<leftarrow> write_u32 out 21 (executed_shares m);
       write_u64 out 25 (exec_match_number m) })"

definition encode_executed_with_price ::
  "OrderExecutedWithPriceMsg \<Rightarrow> byte list \<Rightarrow> (nat \<times> byte list) option" where
  "encode_executed_with_price m out =
     (let base = exec_base m in
      after_header (write_header out 36 0x43 base) 36 (\<lambda>out. do {
       out \<leftarrow> write_u64 out 13 (exec_order_id base);
       out \<leftarrow> write_u32 out 21 (executed_shares base);
       out \<leftarrow> write_u64 out 25 (exec_match_number base);
       out \<leftarrow> wr out 33 [printable m];
       write_u32 out 34 (execution_price m) }))"

definition encode_order_cancel :: "OrderCancelMsg \<Rightarrow> byte list \<Rightarrow> (nat \<times> byte list) option" where
  "encode_order_cancel m out =
     after_header (write_header out 23 0x58 m) 23 (\<lambda>out. do {
       out \<leftarrow> write_u64 out 13 (cancel_order_id m);
       write_u32 out 21 (canceled_shares m) })"

definition encode_order_delete :: "OrderDeleteMsg \<Rightarrow> byte list \<Rightarrow> (nat \<times> byte list) option" where
  "encode_order_delete m out =
     after_header (write_header out 19 0x44 m) 19 (\<lambda>out. write_u64 out 13 (delete_order_id m))"

definition encode_order_replace :: "OrderReplaceMsg \<Rightarrow> byte list \<Rightarrow> (nat \<times> byte list) option" where
  "encode_order_replace m out =
     after_header (write_header out 35 0x55 m) 35 (\<lambda>out. do {
       out \<leftarrow> write_u64 out 13 (original_order_id m);
       out \<leftarrow> write_u64 out 21 (new_order_id m);
       out \<leftarrow> write_u32 out 29 (replace_shares m);
       write_u32 out 33 (replace_price m) })"

definition encode_trade :: "TradeMsg \<Rightarrow> byte list \<Rightarrow> (nat \<times> byte list) option" where
  "encode_trade m out =
     after_header (write_header out 44 0x50 m) 44 (\<lambda>out. do {
       out \<leftarrow> write_u64 out 13 (trade_order_id m);
       out \<leftarrow> wr out 21 [trade_side m];
       out \<leftarrow> write_u32 out 22 (trade_shares m);
       out \<leftarrow> write_symbol out 26 (trade_symbol m);
       out \<leftarrow> write_u32 out 34 (trade_price m);
       write_u64 out 38 (trade_match_number m) })"

fun encode_frame :: "AnyMessage \<Rightarrow> byte list \<Rightarrow> (nat \<times> byte list) option" where
  "encode_frame (MSystemEvent m) out = encode_system_event m out"
| "encode_frame (MStockDirectory m) out = encode_stock_directory m out"
| "encode_frame (MAddOrder m) out = encode_add_order m out"
| "encode_frame (MAddOrderMPID m) out = encode_add_order_mpid m out"
| "encode_frame (MOrderExecuted m) out = encode_order_executed m out"
| "encode_frame (MOrderExecutedWithPrice m) out = encode_executed_with_price m out"
| "encode_frame (MOrderCancel m) out = encode_order_cancel m out"
| "encode_frame (MOrderDelete m) out = encode_order_delete m out"
| "encode_frame (MOrderReplace m) out = encode_order_replace m out"
| "encode_frame (MTrade m) out = encode_trade m out"

section \<open>The wire layout as a specification\<close>

text \<open>
  The byte layout of \<^verbatim>\<open>docs/itch-wire.md\<close>, stated as the concatenation of the encoded
  fields: two length bytes, the type byte, the shared header, the fields of the type.
\<close>

definition header_bytes :: "'a MsgHeader_scheme \<Rightarrow> byte list" where
  "header_bytes m = be_bytes 2 (stock_locate m) @ be_bytes 2 (tracking_number m) @ be_bytes 6 (ts m)"

definition add_bytes :: "AddOrderMsg \<Rightarrow> byte list" where
  "add_bytes m = header_bytes m @ be_bytes 8 (add_order_id m) @ [add_side m] @
     be_bytes 4 (add_shares m) @ sym_bytes (add_symbol m) @ be_bytes 4 (add_price m)"

definition executed_bytes :: "OrderExecutedMsg \<Rightarrow> byte list" where
  "executed_bytes m = header_bytes m @ be_bytes 8 (exec_order_id m) @
     be_bytes 4 (executed_shares m) @ be_bytes 8 (exec_match_number m)"

fun body_bytes :: "AnyMessage \<Rightarrow> byte list" where
  "body_bytes (MSystemEvent m) = header_bytes m @ [event_code m]"
| "body_bytes (MStockDirectory m) = header_bytes m @ sym_bytes (dir_symbol m) @
     [market_category m] @ [financial_status m] @ be_bytes 4 (round_lot_size m)"
| "body_bytes (MAddOrder m) = add_bytes m"
| "body_bytes (MAddOrderMPID m) = add_bytes (mpid_base m) @ char4_bytes (attribution m)"
| "body_bytes (MOrderExecuted m) = executed_bytes m"
| "body_bytes (MOrderExecutedWithPrice m) =
     executed_bytes (exec_base m) @ [printable m] @ be_bytes 4 (execution_price m)"
| "body_bytes (MOrderCancel m) = header_bytes m @ be_bytes 8 (cancel_order_id m) @
     be_bytes 4 (canceled_shares m)"
| "body_bytes (MOrderDelete m) = header_bytes m @ be_bytes 8 (delete_order_id m)"
| "body_bytes (MOrderReplace m) = header_bytes m @ be_bytes 8 (original_order_id m) @
     be_bytes 8 (new_order_id m) @ be_bytes 4 (replace_shares m) @ be_bytes 4 (replace_price m)"
| "body_bytes (MTrade m) = header_bytes m @ be_bytes 8 (trade_order_id m) @ [trade_side m] @
     be_bytes 4 (trade_shares m) @ sym_bytes (trade_symbol m) @ be_bytes 4 (trade_price m) @
     be_bytes 8 (trade_match_number m)"

definition wire_bytes :: "AnyMessage \<Rightarrow> byte list" where
  "wire_bytes m = be_bytes 2 (of_nat (kWireSize (type_of m)) :: u16) @
     [type_code (type_of m)] @ body_bytes m"

end
