(* ===== verification/Itch_Codec.thy ===== *)
theory Itch_Codec
  imports Itch_Parser
begin

text \<open>
  Correctness of \<^verbatim>\<open>src/core/parser.cpp\<close>: the encoder and the decoder of \<^verbatim>\<open>Itch_Parser\<close> against
  the byte layout \<^verbatim>\<open>wire_bytes\<close>.
\<close>

section \<open>Readers and writers as slices\<close>

lemma write_u16_alt [codec_simps]: "write_u16 b p v = wr b p (be_bytes 2 v)"
  by (simp add: write_u16_def be_bytes_expand codec_simps)

lemma write_u32_alt [codec_simps]: "write_u32 b p v = wr b p (be_bytes 4 v)"
  by (simp add: write_u32_def be_bytes_expand codec_simps)

lemma write_u48_alt [codec_simps]: "write_u48 b p v = wr b p (be_bytes 6 v)"
  by (simp add: write_u48_def be_bytes_expand codec_simps)

lemma write_u64_loop_numeral:
  "write_u64_loop (numeral k) i b p v =
     Option.bind (wr b (p + i) [ucast (drop_bit (56 - i * 8) v)])
       (\<lambda>b. write_u64_loop (pred_numeral k) (Suc i) b p v)"
  by (simp add: numeral_eq_Suc)

lemma write_u64_alt [codec_simps]: "write_u64 b p v = wr b p (be_bytes 8 v)"
  by (simp add: write_u64_def be_bytes_expand codec_simps write_u64_loop_numeral)

lemma read_be_loop_numeral:
  "read_be_loop b p (numeral k) v =
     Option.bind (rd8 b p) (\<lambda>x. read_be_loop b (p + 1) (pred_numeral k) (push_bit 8 v OR ucast x))"
  by (simp add: numeral_eq_Suc)

text \<open>
  Each reader returns \<^verbatim>\<open>v\<close> exactly when the bytes it reads are the encoding of \<^verbatim>\<open>v\<close>.
\<close>

lemmas reader_simps = map_conv_bind_option o_def bind_assoc bslice_numeral bslice_1

lemma read_u16_bslice: "read_u16 b p = map_option be_word (bslice p 2 b)"
  by (simp add: read_u16_def reader_simps be_word_expand)

lemma plus_small:
  "p + 3 = Suc (Suc (Suc p))" "p + 4 = Suc (Suc (Suc (Suc p)))"
  "p + 5 = Suc (Suc (Suc (Suc (Suc p))))"
  by simp_all

lemma read_u32_bslice: "read_u32 b p = map_option be_word (bslice p 4 b)"
  by (simp add: read_u32_def reader_simps plus_small be_word_expand)

lemma read_u48_bslice: "read_u48 b p = map_option be_word (bslice p 6 b)"
  by (simp add: read_u48_def reader_simps plus_small be_word_expand6)

lemma read_u64_bslice: "read_u64 b p = map_option be_word (bslice p 8 b)"
  by (simp add: read_u64_def reader_simps read_be_loop_numeral be_word_def)


lemma read_u16_Some: "read_u16 b p = Some v \<longleftrightarrow> bslice p 2 b = Some (be_bytes 2 v)"
  by (auto simp: read_u16_bslice bslice_def)

lemma read_u32_Some: "read_u32 b p = Some v \<longleftrightarrow> bslice p 4 b = Some (be_bytes 4 v)"
  by (auto simp: read_u32_bslice bslice_def)

lemma read_u64_Some: "read_u64 b p = Some v \<longleftrightarrow> bslice p 8 b = Some (be_bytes 8 v)"
  by (auto simp: read_u64_bslice bslice_def)

lemma read_u48_Some:
  "read_u48 b p = Some v \<longleftrightarrow> take_bit 48 v = v \<and> bslice p 6 b = Some (be_bytes 6 v)"
proof -
  have "take_bit 48 (be_word bs :: u64) = be_word bs" if "length bs = 6" for bs
    using that by (metis be_word_be_bytes_std(4) be_bytes_be_word_std(3))
  then show ?thesis
    by (auto simp: read_u48_bslice bslice_def)
qed

lemma read_symbol_Some: "read_symbol b p = Some s \<longleftrightarrow> bslice p 8 b = Some (sym_bytes s)"
  by (auto simp: read_symbol_def kSymbolLen_def bslice_def)

lemmas read_Some = read_u16_Some read_u32_Some read_u64_Some read_u48_Some read_symbol_Some

section \<open>Message bodies\<close>

lemma length_header_bytes [simp, bounds_simps]: "length (header_bytes m) = 10"
  by (simp add: header_bytes_def)

lemma length_add_bytes [simp, bounds_simps]: "length (add_bytes m) = 35"
  by (simp add: add_bytes_def)

lemma length_executed_bytes [simp, bounds_simps]: "length (executed_bytes m) = 30"
  by (simp add: executed_bytes_def)

lemma length_body_bytes [bounds_simps]:
  "length (body_bytes m) = kWireSize (type_of m) - 1 - pad_size (type_of m)"
  by (cases m) simp_all

lemma length_wire_bytes [bounds_simps]:
  "length (wire_bytes m) = framed_size m - pad_size (type_of m)"
  by (cases m) (simp_all add: wire_bytes_def framed_size_def length_body_bytes)

lemmas body_Some = read_Some bslice_append_iff bslice_Cons_iff bind_eq_Some_conv
  header_bytes_def add_bytes_def executed_bytes_def trunc_ts_def add.assoc

lemma bslice_char4: "bslice p 4 b = Some xs \<Longrightarrow> char4_bytes (char4_of_bytes xs) = xs"
  by (auto dest: bslice_length)

lemma decode_system_event_Some [codec_simps]:
  "decode_system_event b p = Some m \<longleftrightarrow>
     on_wire (MSystemEvent m) = MSystemEvent m \<and> bslice p (length (body_bytes (MSystemEvent m))) b = Some (body_bytes (MSystemEvent m))"
  by (cases m) (auto simp: decode_system_event_def body_Some add.commute [of _ p] simp del: add_2_eq_Suc')

lemma decode_stock_directory_Some [codec_simps]:
  "decode_stock_directory b p = Some m \<longleftrightarrow>
     on_wire (MStockDirectory m) = MStockDirectory m \<and> bslice p (length (body_bytes (MStockDirectory m))) b = Some (body_bytes (MStockDirectory m))"
  by (cases m) (auto simp: decode_stock_directory_def body_Some add.commute [of _ p] simp del: add_2_eq_Suc')

lemma decode_add_order_Some [codec_simps]:
  "decode_add_order b p = Some m \<longleftrightarrow>
     on_wire (MAddOrder m) = MAddOrder m \<and> bslice p (length (body_bytes (MAddOrder m))) b = Some (body_bytes (MAddOrder m))"
  by (cases m) (auto simp: decode_add_order_def body_Some add.commute [of _ p] simp del: add_2_eq_Suc')

lemma decode_add_order_mpid_Some [codec_simps]:
  "decode_add_order_mpid b p = Some m \<longleftrightarrow>
     on_wire (MAddOrderMPID m) = MAddOrderMPID m \<and> bslice p (length (body_bytes (MAddOrderMPID m))) b = Some (body_bytes (MAddOrderMPID m))"
  by (cases m) (auto simp: decode_add_order_mpid_def body_Some decode_add_order_Some bslice_char4 add.commute [of _ p]
      simp del: add_2_eq_Suc')

lemma decode_order_executed_Some [codec_simps]:
  "decode_order_executed b p = Some m \<longleftrightarrow>
     on_wire (MOrderExecuted m) = MOrderExecuted m \<and> bslice p (length (body_bytes (MOrderExecuted m))) b = Some (body_bytes (MOrderExecuted m))"
  by (cases m) (auto simp: decode_order_executed_def body_Some add.commute [of _ p] simp del: add_2_eq_Suc')

lemma decode_executed_with_price_Some [codec_simps]:
  "decode_executed_with_price b p = Some m \<longleftrightarrow>
     on_wire (MOrderExecutedWithPrice m) = MOrderExecutedWithPrice m \<and> bslice p (length (body_bytes (MOrderExecutedWithPrice m))) b = Some (body_bytes (MOrderExecutedWithPrice m))"
  by (cases m) (auto simp: decode_executed_with_price_def body_Some decode_order_executed_Some add.commute [of _ p] simp del: add_2_eq_Suc')

lemma decode_order_cancel_Some [codec_simps]:
  "decode_order_cancel b p = Some m \<longleftrightarrow>
     on_wire (MOrderCancel m) = MOrderCancel m \<and> bslice p (length (body_bytes (MOrderCancel m))) b = Some (body_bytes (MOrderCancel m))"
  by (cases m) (auto simp: decode_order_cancel_def body_Some add.commute [of _ p] simp del: add_2_eq_Suc')

lemma decode_order_delete_Some [codec_simps]:
  "decode_order_delete b p = Some m \<longleftrightarrow>
     on_wire (MOrderDelete m) = MOrderDelete m \<and> bslice p (length (body_bytes (MOrderDelete m))) b = Some (body_bytes (MOrderDelete m))"
  by (cases m) (auto simp: decode_order_delete_def body_Some add.commute [of _ p] simp del: add_2_eq_Suc')

lemma decode_order_replace_Some [codec_simps]:
  "decode_order_replace b p = Some m \<longleftrightarrow>
     on_wire (MOrderReplace m) = MOrderReplace m \<and> bslice p (length (body_bytes (MOrderReplace m))) b = Some (body_bytes (MOrderReplace m))"
  by (cases m) (auto simp: decode_order_replace_def body_Some add.commute [of _ p] simp del: add_2_eq_Suc')

lemma decode_trade_Some [codec_simps]:
  "decode_trade b p = Some m \<longleftrightarrow>
     on_wire (MTrade m) = MTrade m \<and> bslice p (length (body_bytes (MTrade m))) b = Some (body_bytes (MTrade m))"
  by (cases m) (auto simp: decode_trade_def body_Some add.commute [of _ p] simp del: add_2_eq_Suc')

lemma decode_body_Some:
  "decode_body ty b p = Some m \<longleftrightarrow>
     type_of m = ty \<and> on_wire m = m \<and> bslice p (length (body_bytes m)) b = Some (body_bytes m)"
  by (cases ty; cases m) (simp_all add: codec_simps)


text \<open>The wire carries 48 bits of the time stamp, and nothing else is lost.\<close>

lemma be_bytes_6_trunc [simp]: "be_bytes 6 (take_bit 48 v :: u64) = be_bytes 6 v"
  using be_bytes_be_word_std(3) [of "be_bytes 6 v"] by simp

lemma header_bytes_trunc [simp]: "header_bytes (trunc_ts m) = header_bytes m"
  by (simp add: header_bytes_def trunc_ts_def)

lemma wire_bytes_on_wire: "wire_bytes (on_wire m) = wire_bytes m"
  by (cases m) (simp_all add: wire_bytes_def add_bytes_def executed_bytes_def header_bytes_def trunc_ts_def)

lemma on_wire_idem: "on_wire (on_wire m) = on_wire m"
  by (cases m) (simp_all add: trunc_ts_def)

section \<open>Memory safety of the body decoders\<close>

lemmas reads_in_bounds = read_u16_bslice read_u32_bslice read_u48_bslice read_u64_bslice
  read_symbol_def kSymbolLen_def bslice_def rd8_def

lemma decode_body_safe:
  assumes "p + (kWireSize ty - 1) \<le> length b"
  shows "decode_body ty b p \<noteq> None"
  using assms
  by (cases ty) (simp_all add: reads_in_bounds decode_system_event_def decode_stock_directory_def
      decode_add_order_def decode_add_order_mpid_def decode_order_executed_def
      decode_executed_with_price_def decode_order_cancel_def decode_order_delete_def
      decode_order_replace_def decode_trade_def)

section \<open>Encoding writes exactly the layout\<close>

lemma write_header_alt:
  "write_header out wsize c m =
     (if length out < 2 + wsize then Some (0, out)
      else map_option (Pair (2 + wsize))
        (wr out 0 (be_bytes 2 (of_nat wsize :: u16) @ [c] @ header_bytes m)))"
  by (simp add: write_header_def codec_simps header_bytes_def map_conv_bind_option o_def)

lemma after_header_alt:
  "after_header (Some (0, out)) wsize put = Some (0, out)"
  "n \<noteq> 0 \<Longrightarrow> after_header (map_option (Pair n) w) wsize put =
     map_option (Pair (2 + wsize)) (Option.bind w put)"
  by (simp_all add: after_header_def map_conv_bind_option o_def)

lemma encode_frame_alt:
  "encode_frame m out =
     (if length out < framed_size m then Some (0, out)
      else map_option (Pair (framed_size m)) (wr out 0 (wire_bytes m)))"
  by (cases m)
     (simp_all add: encode_system_event_def encode_stock_directory_def encode_add_order_def
        encode_add_order_mpid_def encode_order_executed_def encode_executed_with_price_def
        encode_order_cancel_def encode_order_delete_def encode_order_replace_def encode_trade_def
        write_header_alt after_header_alt codec_simps write_symbol_def Let_def
        wire_bytes_def framed_size_def add_bytes_def executed_bytes_def)

section \<open>Frames\<close>

lemma message_type_Some: "message_type c = Some t \<longleftrightarrow> c = type_code t"
  by (cases t) auto

declare message_type.simps [simp del]

lemma message_type_code [simp]: "message_type (type_code t) = Some t"
  by (simp add: message_type_Some)

lemma unat_of_nat_wsize [simp]: "unat (of_nat (kWireSize t) :: u16) = kWireSize t"
  by (cases t) simp_all

text \<open>The result on every branch, with the length field read as the first two bytes.\<close>

lemma decode_frame_cases:
  assumes "2 \<le> length b"
  defines "n \<equiv> unat (be_word (take 2 b) :: u16)"
  shows "decode_frame b =
    (if length b < 2 + n then Some \<lparr>status = ShortBuffer, consumed = 0, message = None\<rparr>
     else if n = 0 then Some \<lparr>status = LengthMismatch, consumed = 2, message = None\<rparr>
     else case message_type (b ! 2) of
       None \<Rightarrow> Some \<lparr>status = UnknownType, consumed = 2 + n, message = None\<rparr>
     | Some ty \<Rightarrow>
         if n \<noteq> kWireSize ty
         then Some \<lparr>status = LengthMismatch, consumed = 2 + n, message = None\<rparr>
         else map_option (\<lambda>m. \<lparr>status = Ok, consumed = 2 + n, message = Some m\<rparr>) (decode_body ty b 3))"
proof -
  have "read_u16 b 0 = Some (be_word (take 2 b))"
    using assms(1) by (simp add: read_u16_bslice bslice_def)
  moreover have "(be_word (take 2 b) :: u16) < 1 \<longleftrightarrow> n = 0"
    by (simp add: n_def word_less_nat_alt)
  ultimately show ?thesis
    using assms(1)
    by (simp add: decode_frame_def rd8_def map_conv_bind_option o_def Let_def
        flip: n_def split: option.split)
qed

lemma bslice_wire_bytes:
  "bslice 0 (length (wire_bytes m)) b = Some (wire_bytes m) \<longleftrightarrow>
     bslice 0 2 b = Some (be_bytes 2 (of_nat (kWireSize (type_of m)) :: u16)) \<and>
     rd8 b 2 = Some (type_code (type_of m)) \<and>
     bslice 3 (length (body_bytes m)) b = Some (body_bytes m)"
  unfolding wire_bytes_def bslice_append append_assoc
  by (auto simp: bslice_Cons_iff numeral_3_eq_3 numeral_2_eq_2)

lemma decode_frame_short: "length b < 2 \<Longrightarrow> decode_frame b =
    Some \<lparr>status = ShortBuffer, consumed = 0, message = None\<rparr>"
  by (simp add: decode_frame_def)

lemma decode_frame_Ok:
  "decode_frame b = Some \<lparr>status = Ok, consumed = k, message = Some m\<rparr> \<longleftrightarrow>
     on_wire m = m \<and> k = framed_size m \<and> k \<le> length b \<and>
     bslice 0 (length (wire_bytes m)) b = Some (wire_bytes m)"
proof (cases "length b < 2")
  case True
  then show ?thesis by (auto simp: decode_frame_short framed_size_def)
next
  case False
  then have b2: "2 \<le> length b" by simp
  define n where "n = unat (be_word (take 2 b) :: u16)"
  have len: "bslice 0 2 b = Some (be_bytes 2 (of_nat w :: u16)) \<longleftrightarrow> n = w" if "w < 2 ^ 16" for w
  proof -
    have "bslice 0 2 b = Some (be_bytes 2 (of_nat w :: u16)) \<longleftrightarrow> be_word (take 2 b) = (of_nat w :: u16)"
      using b2 by (simp only: read_u16_Some [symmetric] read_u16_bslice) (simp add: bslice_def)
    also have "\<dots> \<longleftrightarrow> n = w"
      using that unat_of_nat_small(1) [OF that] by (auto simp: n_def word_unat_eq_iff)
    finally show ?thesis .
  qed
  have lay: "bslice 0 (length (wire_bytes m)) b = Some (wire_bytes m) \<longleftrightarrow>
      n = kWireSize (type_of m) \<and> 2 < length b \<and> b ! 2 = type_code (type_of m) \<and>
      bslice 3 (length (body_bytes m)) b = Some (body_bytes m)"
    unfolding bslice_wire_bytes len [OF kWireSize_bounds(2)] rd8_Some by blast
  have "decode_frame b = Some \<lparr>status = Ok, consumed = k, message = Some m\<rparr> \<longleftrightarrow>
      2 + n \<le> length b \<and> n \<noteq> 0 \<and> k = 2 + n \<and> n = kWireSize (type_of m) \<and>
      b ! 2 = type_code (type_of m) \<and> decode_body (type_of m) b 3 = Some m"
    unfolding decode_frame_cases [OF b2, folded n_def]
    by (auto simp: message_type_Some decode_body_Some split: option.split)
  then show ?thesis
    using kWireSize_bounds(1) [of "type_of m"]
    unfolding lay decode_body_Some framed_size_def by auto
qed

lemma decode_frame_safe: "decode_frame b \<noteq> None"
proof (cases "length b < 2")
  case True
  then show ?thesis by (simp add: decode_frame_short)
next
  case False
  then show ?thesis
    using decode_body_safe [where b = b and p = 3]
    by (auto simp: decode_frame_cases split: option.split)
qed

text \<open>The three error results, and the invariants of every result.\<close>

lemma decode_frame_result:
  assumes "decode_frame b = Some r"
  shows "(status r = ShortBuffer \<longleftrightarrow> consumed r = 0) \<and> consumed r \<le> length b \<and>
         (status r = Ok \<longleftrightarrow> message r \<noteq> None) \<and>
         (consumed r \<noteq> 0 \<longrightarrow> consumed r = 2 + unat (be_word (take 2 b) :: u16))"
proof (cases "length b < 2")
  case True
  then show ?thesis using assms by (auto simp: decode_frame_short)
next
  case False
  then have b2: "2 \<le> length b" by simp
  show ?thesis
    using assms by (auto simp: decode_frame_cases [OF b2] split: if_splits option.splits)
qed

text \<open>Only the bytes of the frame matter.\<close>

lemma decode_frame_local:
  assumes r: "decode_frame b = Some r" and s: "status r \<noteq> ShortBuffer"
  shows "decode_frame (take (consumed r) b @ rest) = Some r"
proof -
  let ?b = "take (consumed r) b @ rest"
  have b2: "2 \<le> length b"
    using r s by (auto simp: decode_frame_def split: if_splits)
  have c: "consumed r \<le> length b" "consumed r = 2 + unat (be_word (take 2 b) :: u16)"
    using decode_frame_result [OF r] s by auto
  then have pre: "2 \<le> length ?b" "take 2 ?b = take 2 b" by (auto simp: numeral_2_eq_2)
  have body: "decode_body ty ?b 3 = decode_body ty b 3" if "kWireSize ty = unat (be_word (take 2 b) :: u16)" for ty
  proof -
    have "bslice 3 (length (body_bytes m)) ?b = bslice 3 (length (body_bytes m)) b"
      if "type_of m = ty" for m
      using c that \<open>kWireSize ty = _\<close> by (cases m) (auto simp: bslice_def drop_take length_body_bytes)
    then have "decode_body ty ?b 3 = Some m \<longleftrightarrow> decode_body ty b 3 = Some m" for m
      by (auto simp: decode_body_Some)
    then show ?thesis by (metis not_Some_eq)
  qed
  have nth2: "?b ! 2 = b ! 2" if "unat (be_word (take 2 b) :: u16) \<noteq> 0"
    using c that by (simp add: nth_append)
  have len: "length ?b = 2 + unat (be_word (take 2 b) :: u16) + length rest"
    using c by simp
  show ?thesis
    using r s body nth2
    unfolding decode_frame_cases [OF b2] decode_frame_cases [OF pre(1)] pre(2) len
    by (auto split: if_splits option.splits)
qed

end
