(* ===== verification/Itch_Properties.thy ===== *)
theory Itch_Properties
  imports Itch_Codec
begin

text \<open>
  The properties of the ITCH codec (\<^verbatim>\<open>src/core/parser.cpp\<close>) and of the symbol helpers
  (\<^verbatim>\<open>src/core/types.h\<close>, \<^verbatim>\<open>src/core/depth_book.h\<close>).
\<close>

section \<open>Decoding\<close>

text \<open>C34: decoding never reads outside the bytes it is given, and always returns a result, whatever
  the input.\<close>

theorem decode_frame_memory_safe: "decode_frame b \<noteq> None"
  by (rule decode_frame_safe)

text \<open>C15: decoding succeeds with a message exactly when the input starts with the wire layout of that
  message and holds the whole frame; the message then has a 48-bit time stamp and the frame's
  size is what is consumed.\<close>

theorem decode_frame_accepts:
  "decode_frame b = Some \<lparr>status = Ok, consumed = k, message = Some m\<rparr> \<longleftrightarrow>
     on_wire m = m \<and> k = framed_size m \<and> k \<le> length b \<and> take (length (wire_bytes m)) b = wire_bytes m"
proof -
  have "length (wire_bytes m) \<le> framed_size m"
    by (simp add: framed_size_def length_wire_bytes)
  then show ?thesis unfolding decode_frame_Ok by (auto simp: bslice_def)
qed

text \<open>The invariants of every result: bytes are consumed unless the buffer is short, never more than
  there are; a message is there exactly on success; and what is consumed is the length field plus
  its own two bytes, so that the caller stays in step with the stream on every error.\<close>

theorem decode_frame_progress:
  assumes "decode_frame b = Some r"
  shows "(status r = ShortBuffer \<longleftrightarrow> consumed r = 0) \<and> consumed r \<le> length b \<and>
         (status r = Ok \<longleftrightarrow> message r \<noteq> None) \<and>
         (consumed r \<noteq> 0 \<longrightarrow> consumed r = 2 + unat (be_word (take 2 b) :: u16))"
  using assms by (rule decode_frame_result)

theorem decode_frame_progress_witness:
  "consumed \<lparr>status = UnknownType, consumed = 3, message = None\<rparr> \<le> length ([0, 1, 0] :: byte list)"
proof -
  have "decode_frame [0, 1, 0] = Some \<lparr>status = UnknownType, consumed = 3, message = None\<rparr>"
    by (simp add: decode_frame_def read_u16_def rd8_def message_type.simps)
  from decode_frame_progress [OF this] show ?thesis by blast
qed

text \<open>The result depends on the bytes of the frame only, so the frames of a datagram can be decoded
  in place one after the other.\<close>

theorem decode_frame_prefix:
  assumes "decode_frame b = Some r" and "status r \<noteq> ShortBuffer"
  shows "decode_frame (take (consumed r) b @ rest) = Some r"
  using assms by (rule decode_frame_local)

theorem decode_frame_prefix_witness:
  "decode_frame ([0, 1, 0] @ [7]) = Some \<lparr>status = UnknownType, consumed = 3, message = None\<rparr>"
proof -
  have "decode_frame [0, 1, 0] = Some \<lparr>status = UnknownType, consumed = 3, message = None\<rparr>"
    by (simp add: decode_frame_def read_u16_def rd8_def message_type.simps)
  from decode_frame_prefix [OF this, of "[7]"] show ?thesis by simp
qed

section \<open>Encoding\<close>

text \<open>Encoding either finds the buffer too small, returns 0 and writes nothing, or writes exactly the
  wire layout at its start, leaves every other byte alone and returns the size of the frame.\<close>

theorem encode_frame_writes:
  "encode_frame m out =
     (if length out < framed_size m then Some (0, out)
      else Some (framed_size m, wire_bytes m @ drop (length (wire_bytes m)) out))"
  by (simp add: encode_frame_alt wr_def framed_size_def length_wire_bytes)

text \<open>C14: what is encoded decodes to the same message, up to the 48 bits of time stamp the wire has,
  whatever was in the buffer and whatever follows.\<close>

theorem encode_decode_roundtrip:
  assumes "framed_size m \<le> length out"
  shows "\<exists>out'. encode_frame m out = Some (framed_size m, out') \<and> length out' = length out \<and>
    decode_frame (out' @ rest) =
      Some \<lparr>status = Ok, consumed = framed_size m, message = Some (on_wire m)\<rparr>"
proof -
  let ?out = "wire_bytes m @ drop (length (wire_bytes m)) out"
  have len: "length (wire_bytes m) \<le> length out" "length (wire_bytes (on_wire m)) = length (wire_bytes m)"
    using assms by (simp_all add: framed_size_def length_wire_bytes)
  have "bslice 0 (length (wire_bytes (on_wire m))) (?out @ rest) = Some (wire_bytes (on_wire m))"
    using len by (simp add: bslice_def wire_bytes_on_wire)
  then have "decode_frame (?out @ rest) =
      Some \<lparr>status = Ok, consumed = framed_size m, message = Some (on_wire m)\<rparr>"
    unfolding decode_frame_Ok using assms len by (simp add: on_wire_idem framed_size_def)
  then show ?thesis using assms len by (simp add: encode_frame_alt wr_def)
qed

theorem encode_decode_roundtrip_witness:
  "\<exists>out'. encode_frame (MOrderDelete \<lparr>stock_locate = 7, tracking_number = 1, ts = 9, delete_order_id = 42\<rparr>)
      (replicate 21 0) = Some (21, out')"
  using encode_decode_roundtrip [of
      "MOrderDelete \<lparr>stock_locate = 7, tracking_number = 1, ts = 9, delete_order_id = 42\<rparr>"
      "replicate 21 0"]
  by (auto simp add: framed_size_def simp del: encode_frame.simps)

text \<open>The wire format is unambiguous: two messages have the same bytes only if they are the same
  message up to the bits of the time stamp that the wire drops.\<close>

theorem wire_unambiguous: "wire_bytes m = wire_bytes m' \<longleftrightarrow> on_wire m = on_wire m'"
proof
  assume eq: "wire_bytes m = wire_bytes m'"
  define b where "b = wire_bytes m @ replicate 14 0"
  have ok: "decode_frame b = Some \<lparr>status = Ok, consumed = framed_size x, message = Some (on_wire x)\<rparr>"
    if "wire_bytes x = wire_bytes m" for x
    unfolding decode_frame_Ok b_def using that length_wire_bytes [of x]
    by (auto simp: on_wire_idem framed_size_def bslice_def wire_bytes_on_wire split: if_splits)
  show "on_wire m = on_wire m'" using ok [of m] ok [of m'] eq by simp
next
  assume "on_wire m = on_wire m'"
  then show "wire_bytes m = wire_bytes m'" using wire_bytes_on_wire [of m] wire_bytes_on_wire [of m'] by simp
qed

text \<open>A Stock Directory frame is announced as 41 bytes, but only the first 27 are written: the last
  14 bytes sent are whatever the caller's buffer held before.\<close>

theorem stock_directory_tail_unwritten:
  assumes "encode_frame (MStockDirectory m) out = Some (n, out')" and "n \<noteq> 0"
  shows "n = 41 \<and> drop 27 out' = drop 27 out"
  using assms by (auto simp: encode_frame_alt framed_size_def wr_def length_wire_bytes split: if_splits)

theorem stock_directory_tail_unwritten_witness:
  "\<exists>out'. encode_frame (MStockDirectory \<lparr>stock_locate = 0, tracking_number = 0, ts = 0,
      dir_symbol = make_symbol [], market_category = 0, financial_status = 0, round_lot_size = 100\<rparr>)
      (replicate 41 0xEE) = Some (41, out') \<and> drop 27 out' = replicate 14 0xEE"
proof -
  let ?m = "\<lparr>stock_locate = 0, tracking_number = 0, ts = 0, dir_symbol = make_symbol [],
      market_category = 0, financial_status = 0, round_lot_size = 100\<rparr>"
  obtain out' where e: "encode_frame (MStockDirectory ?m) (replicate 41 0xEE) = Some (41, out')"
    by (simp add: encode_frame_alt framed_size_def wr_def length_wire_bytes)
  from stock_directory_tail_unwritten [OF e] show ?thesis using e by simp
qed

section \<open>Symbols\<close>

text \<open>A symbol is its text padded with spaces: reading the text of any eight bytes and building the
  symbol from it gives the same eight bytes back.\<close>

theorem symbol_text_roundtrip: "make_symbol (symbol_to_string s) = s"
proof -
  have "sym_bytes (make_symbol (symbol_to_string s)) = sym_bytes s"
  proof (cases "find_last_not_of (sym_bytes s) 0x20")
    case None
    then show ?thesis using find_last_not_of_None [OF None]
      by (simp add: make_symbol_bytes symbol_to_string_def)
  next
    case (Some e)
    note f = find_last_not_of_Some [OF Some]
    have "length (take (Suc e) (sym_bytes s)) = Suc e" using f by simp
    then show ?thesis using f Some
      by (simp add: make_symbol_bytes symbol_to_string_def)
  qed
  then show ?thesis by simp
qed

text \<open>The 64-bit key of a symbol identifies it, so books filed under the key never mix symbols.\<close>

theorem symbol_key_injective: "symbol_key s = symbol_key t \<longleftrightarrow> s = t"
  by (rule symbol_key_inject)

end
