(* ===== verification/Price_Ladder.thy ===== *)
theory Price_Ladder
  imports Types
begin

text \<open>
  The price ladders of \<^verbatim>\<open>src/core/depth_book.cpp\<close>: \<^verbatim>\<open>std::map<Price, PriceLevel, Compare>\<close>,
  modelled as the association list in iteration order. The locale \<^verbatim>\<open>price_compare\<close> states
  what \<^verbatim>\<open>std::map\<close> requires of its comparator; the laws of the ladder operations and of the
  level update are proved in it once and interpreted for \<^verbatim>\<open>std::less\<close> (asks) and
  \<^verbatim>\<open>std::greater\<close> (bids).
\<close>

record PriceLevel =
  price :: Price
  total_qty :: Quantity
  order_count :: u32

type_synonym ladder = "(Price \<times> PriceLevel) list"

definition std_less :: "Price \<Rightarrow> Price \<Rightarrow> bool" where
  "std_less x y \<longleftrightarrow> x < y"

definition std_greater :: "Price \<Rightarrow> Price \<Rightarrow> bool" where
  "std_greater x y \<longleftrightarrow> y < x"

lemma std_compare_eta: "std_less = (<)" "std_greater = (\<lambda>x y. y < x)"
  by (simp_all add: fun_eq_iff std_less_def std_greater_def)

definition ladder_find :: "Price \<Rightarrow> ladder \<Rightarrow> PriceLevel option" where
  "ladder_find p l = map_of l p"

fun ladder_emplace :: "(Price \<Rightarrow> Price \<Rightarrow> bool) \<Rightarrow> Price \<Rightarrow> PriceLevel \<Rightarrow> ladder \<Rightarrow> ladder" where
  "ladder_emplace lt p v [] = [(p, v)]"
| "ladder_emplace lt p v ((q, w) # l) =
     (if lt p q then (p, v) # (q, w) # l
      else if lt q p then (q, w) # ladder_emplace lt p v l
      else (q, w) # l)"

definition ladder_assign :: "Price \<Rightarrow> PriceLevel \<Rightarrow> ladder \<Rightarrow> ladder" where
  "ladder_assign p v l = map (\<lambda>(q, w). if q = p then (q, v) else (q, w)) l"

definition ladder_erase :: "Price \<Rightarrow> ladder \<Rightarrow> ladder" where
  "ladder_erase p l = filter (\<lambda>(q, w). q \<noteq> p) l"

text \<open>
  One side of \<^verbatim>\<open>SymbolBook::apply_level_delta\<close>. \<^verbatim>\<open>None\<close> is its early return, which leaves the
  ladder and the top-of-book alone. The deltas are \<^verbatim>\<open>int64\<close> differences of 32-bit values and
  their sums with a 32-bit total stay far inside 64 bits, so \<^verbatim>\<open>int\<close> is exact; the casts back
  to 32 bits truncate.
\<close>

definition level_delta ::
  "(Price \<Rightarrow> Price \<Rightarrow> bool) \<Rightarrow> Price \<Rightarrow> int \<Rightarrow> int \<Rightarrow> ladder \<Rightarrow> ladder option" where
  "level_delta lt p qty_delta count_delta l =
     (case ladder_find p l of
        None \<Rightarrow>
          if qty_delta \<le> 0 then None
          else Some (ladder_emplace lt p
            \<lparr>price = p, total_qty = word_of_int qty_delta, order_count = word_of_int count_delta\<rparr> l)
      | Some pl \<Rightarrow>
          let nq = uint (total_qty pl) + qty_delta;
              nc = uint (order_count pl) + count_delta
          in Some (if nq \<le> 0 \<or> nc \<le> 0 then ladder_erase p l
                   else ladder_assign p
                     (pl\<lparr>total_qty := word_of_int nq, order_count := word_of_int nc\<rparr>) l))"

text \<open>The loops of \<^verbatim>\<open>refresh_top_bids\<close> and \<^verbatim>\<open>refresh_top_asks\<close>: push until \<^verbatim>\<open>i\<close> reaches the depth.\<close>

fun top_n :: "nat \<Rightarrow> ladder \<Rightarrow> PriceLevel list" where
  "top_n 0 l = []"
| "top_n (Suc n) [] = []"
| "top_n (Suc n) ((q, pl) # l) = pl # top_n n l"

lemma top_n_take: "top_n n l = map snd (take n l)"
  by (induction n l rule: top_n.induct) auto

section \<open>Ladders that represent per-price totals\<close>

definition ordered :: "(Price \<Rightarrow> Price \<Rightarrow> bool) \<Rightarrow> ladder \<Rightarrow> bool" where
  "ordered lt l \<longleftrightarrow> sorted_wrt lt (map fst l)"

text \<open>
  A ladder represents the totals \<^verbatim>\<open>Q\<close> and the counts \<^verbatim>\<open>C\<close> (as naturals): it holds a level
  exactly at the prices with orders, with the total and the count there.
\<close>

definition level :: "Price \<Rightarrow> nat \<Rightarrow> nat \<Rightarrow> PriceLevel" where
  "level p q c = \<lparr>price = p, total_qty = of_nat q, order_count = of_nat c\<rparr>"

definition represents :: "(Price \<Rightarrow> Price \<Rightarrow> bool) \<Rightarrow> (Price \<Rightarrow> nat) \<Rightarrow> (Price \<Rightarrow> nat) \<Rightarrow> ladder \<Rightarrow> bool" where
  "represents lt Q C l \<longleftrightarrow> ordered lt l \<and>
     (\<forall>p. ladder_find p l = (if C p = 0 then None else Some (level p (Q p) (C p))))"

text \<open>Totals that a 32-bit level can hold, with at least one share per order.\<close>

definition proper :: "(Price \<Rightarrow> nat) \<Rightarrow> (Price \<Rightarrow> nat) \<Rightarrow> bool" where
  "proper Q C \<longleftrightarrow> (\<forall>p. C p \<le> Q p \<and> Q p < 2 ^ 32 \<and> (C p = 0 \<longrightarrow> Q p = 0))"

section \<open>What the comparator promises\<close>

locale price_compare =
  fixes lt :: "Price \<Rightarrow> Price \<Rightarrow> bool"
  assumes lt_irrefl: "\<not> lt x x"
    and lt_trans: "lt x y \<Longrightarrow> lt y z \<Longrightarrow> lt x z"
    and lt_total: "x \<noteq> y \<Longrightarrow> lt x y \<or> lt y x"
begin

lemma ordered_Nil: "ordered lt []"
  by (simp add: ordered_def)

lemma ordered_Cons: "ordered lt ((q, w) # l) \<longleftrightarrow> (\<forall>k \<in> fst ` set l. lt q k) \<and> ordered lt l"
  by (simp add: ordered_def)

lemma lt_asym: "lt x y \<Longrightarrow> \<not> lt y x"
  using lt_irrefl lt_trans by blast

lemma ordered_distinct: "ordered lt l \<Longrightarrow> distinct (map fst l)"
proof (induction l)
  case (Cons a l)
  then show ?case using lt_irrefl by (cases a) (fastforce simp: ordered_Cons)
qed simp

lemma not_lt_eq: "\<not> lt x y \<Longrightarrow> \<not> lt y x \<Longrightarrow> x = y"
  using lt_total by blast

lemma set_emplace: "fst ` set (ladder_emplace lt p v l) = insert p (fst ` set l)"
proof (induction l)
  case (Cons a l)
  then show ?case using not_lt_eq [of p "fst a"] by (cases a) auto
qed simp

lemma ordered_emplace: "ordered lt l \<Longrightarrow> ordered lt (ladder_emplace lt p v l)"
proof (induction l)
  case Nil
  then show ?case by (simp add: ordered_Cons ordered_Nil)
next
  case (Cons a l)
  obtain q w where a: "a = (q, w)" by (cases a)
  show ?case
    using Cons lt_trans [of p q] by (auto simp: a ordered_Cons set_emplace)
qed

lemma map_of_emplace:
  "ordered lt l \<Longrightarrow> map_of l p = None \<Longrightarrow> map_of (ladder_emplace lt p v l) = (map_of l)(p \<mapsto> v)"
proof (induction l)
  case Nil
  then show ?case by simp
next
  case (Cons a l)
  obtain q w where a: "a = (q, w)" by (cases a)
  from Cons.prems a have pq: "p \<noteq> q" "map_of l p = None" by (auto split: if_splits)
  then have "lt p q \<or> lt q p" using lt_total by blast
  with Cons a pq show ?case
    by (auto simp: ordered_Cons fun_upd_twist)
qed

lemma map_of_assign: "map_of l p \<noteq> None \<Longrightarrow> map_of (ladder_assign p v l) = (map_of l)(p \<mapsto> v)"
proof -
  have "map_of (ladder_assign p v l) k = (if k = p \<and> map_of l p \<noteq> None then Some v else map_of l k)" for k
    by (induction l) (auto simp: ladder_assign_def)
  then show "map_of l p \<noteq> None \<Longrightarrow> map_of (ladder_assign p v l) = (map_of l)(p \<mapsto> v)"
    by (auto simp: fun_eq_iff)
qed

lemma ordered_assign: "ordered lt l \<Longrightarrow> ordered lt (ladder_assign p v l)"
proof -
  have "map fst (ladder_assign p v l) = map fst l"
    by (auto simp: ladder_assign_def)
  then show "ordered lt l \<Longrightarrow> ordered lt (ladder_assign p v l)" by (simp add: ordered_def)
qed

lemma map_of_erase: "map_of (ladder_erase p l) = (map_of l)(p := None)"
  by (induction l) (auto simp: ladder_erase_def fun_eq_iff)

lemma ordered_erase: "ordered lt l \<Longrightarrow> ordered lt (ladder_erase p l)"
  by (induction l) (auto simp: ladder_erase_def ordered_Cons ordered_Nil)

lemma ordered_head:
  assumes "ordered lt ((q, w) # l)" "ordered lt ((r, u) # k)" "map_of ((q, w) # l) = map_of ((r, u) # k)"
  shows "\<not> lt q r"
proof
  assume qr: "lt q r"
  have "map_of ((r, u) # k) q = Some w"
    using fun_cong [OF assms(3), of q] by simp
  then have "q \<in> fst ` set ((r, u) # k)" by (metis domI dom_map_of_conv_image_fst)
  then show False using assms(2) qr lt_irrefl lt_asym by (auto simp: ordered_Cons)
qed

lemma ordered_unique:
  "ordered lt l \<Longrightarrow> ordered lt k \<Longrightarrow> map_of l = map_of k \<Longrightarrow> l = k"
proof (induction l arbitrary: k)
  case Nil
  then show ?case by (cases k) (auto simp: fun_eq_iff split: if_splits)
next
  case (Cons a l)
  obtain q w where a: "a = (q, w)" by (cases a)
  have "map_of k q = Some w" using fun_cong [OF Cons.prems(3), of q] a by simp
  then obtain r u k' where k: "k = (r, u) # k'"
    by (cases k) auto
  note prems = Cons.prems [unfolded a k]
  have qr: "q = r"
    using ordered_head [OF prems] ordered_head [OF prems(2,1) prems(3) [symmetric]] not_lt_eq by blast
  have absent: "map_of xs x = None" if "ordered lt ((x, z) # xs)" for x z xs
    using ordered_distinct [OF that] by (simp add: map_of_eq_None_iff)
  have "map_of l x = map_of k' x" for x
    using fun_cong [OF prems(3), of x] absent [OF prems(1)] absent [OF prems(2)] qr
    by (auto split: if_splits)
  then have "l = k'" using Cons.IH [of k'] prems by (auto simp: ordered_Cons)
  moreover have "w = u" using fun_cong [OF prems(3), of q] qr by simp
  ultimately show ?case using a k qr by simp
qed

lemma represents_unique: "represents lt Q C l \<Longrightarrow> represents lt Q C k \<Longrightarrow> l = k"
  by (intro ordered_unique) (auto simp: represents_def ladder_find_def fun_eq_iff)

lemma represents_keys:
  assumes "represents lt Q C l"
  shows "fst ` set l = {p. C p \<noteq> 0}"
    and "map snd l = map (\<lambda>p. level p (Q p) (C p)) (map fst l)"
proof -
  have look: "map_of l p = (if C p = 0 then None else Some (level p (Q p) (C p)))" for p
    using assms by (simp add: represents_def ladder_find_def)
  show "fst ` set l = {p. C p \<noteq> 0}"
    unfolding dom_map_of_conv_image_fst [symmetric] by (auto simp: dom_def look)
  have d: "distinct (map fst l)" using assms ordered_distinct by (simp add: represents_def)
  have "v = level p (Q p) (C p)" if "(p, v) \<in> set l" for p v
    using map_of_is_SomeI [OF d that] by (simp add: look split: if_splits)
  then show "map snd l = map (\<lambda>p. level p (Q p) (C p)) (map fst l)" by auto
qed

lemma represents_Nil: "represents lt (\<lambda>_. 0) (\<lambda>_. 0) []"
  by (simp add: represents_def ordered_Nil ladder_find_def)

lemma represents_update:
  assumes "represents lt Q C l" "ordered lt l'"
    and "map_of l' = (map_of l)(p := if C' p = 0 then None else Some (level p (Q' p) (C' p)))"
    and "\<And>x. x \<noteq> p \<Longrightarrow> Q' x = Q x \<and> C' x = C x"
  shows "represents lt Q' C' l'"
proof -
  have "map_of l' x = (if C' x = 0 then None else Some (level x (Q' x) (C' x)))" for x
    using assms by (cases "x = p") (simp_all add: represents_def ladder_find_def)
  then show ?thesis using assms(2) by (simp add: represents_def ladder_find_def)
qed

lemma level_delta_represents:
  assumes rep: "represents lt Q C l" and pre: "proper Q C" and post: "proper Q' C'"
    and other: "\<And>x. x \<noteq> p \<Longrightarrow> Q' x = Q x \<and> C' x = C x"
    and dq: "int (Q' p) = int (Q p) + qd" and dc: "int (C' p) = int (C p) + cd"
  shows "represents lt Q' C' (case level_delta lt p qd cd l of None \<Rightarrow> l | Some l' \<Rightarrow> l')"
proof -
  have ord: "ordered lt l" using rep by (simp add: represents_def)
  have b: "Q p < 2 ^ 32" "C p \<le> Q p" "Q' p < 2 ^ 32" "C' p \<le> Q' p" "C p = 0 \<longrightarrow> Q p = 0" "C' p = 0 \<longrightarrow> Q' p = 0"
    using pre post by (auto simp: proper_def)
  show ?thesis
  proof (cases "C p = 0")
    case True
    then have none: "map_of l p = None"
      using rep by (auto simp: represents_def ladder_find_def)
    have q: "qd = int (Q' p)" "cd = int (C' p)" using dq dc True b by auto
    show ?thesis
    proof (cases "Q' p = 0")
      case True
      then show ?thesis
        using represents_update [OF rep ord _ other, of p] none b q
        by (simp add: level_delta_def ladder_find_def fun_upd_idem)
    next
      case False
      then have "C' p \<noteq> 0" using b by auto
      have "represents lt Q' C' (ladder_emplace lt p (level p (Q' p) (C' p)) l)"
        by (rule represents_update [OF rep ordered_emplace [OF ord] _ other])
           (simp_all add: map_of_emplace [OF ord none] \<open>C' p \<noteq> 0\<close>)
      then show ?thesis
        using False by (simp add: level_delta_def ladder_find_def none q level_def)
    qed
  next
    case False
    then have some: "map_of l p = Some (level p (Q p) (C p))"
      using rep by (auto simp: represents_def ladder_find_def)
    have u: "uint (of_nat (Q p) :: u32) = int (Q p)" "uint (of_nat (C p) :: u32) = int (C p)"
      using b by (simp_all add: uint_nat bounds_simps)
    have new: "int (Q p) + qd = int (Q' p)" "int (C p) + cd = int (C' p)" using dq dc by auto
    show ?thesis
    proof (cases "C' p = 0")
      case True
      then have "represents lt Q' C' (ladder_erase p l)"
        by (intro represents_update [OF rep ordered_erase [OF ord] _ other]) (simp_all add: map_of_erase)
      then show ?thesis
        using True b by (simp add: level_delta_def ladder_find_def some level_def u new Let_def)
    next
      case False
      then have "Q' p \<noteq> 0" using b by auto
      have "represents lt Q' C' (ladder_assign p (level p (Q' p) (C' p)) l)"
        by (rule represents_update [OF rep ordered_assign [OF ord] _ other])
           (simp_all add: map_of_assign some False)
      then show ?thesis
        using False \<open>Q' p \<noteq> 0\<close>
        by (simp add: level_delta_def ladder_find_def some level_def u new Let_def)
    qed
  qed
qed

end

interpretation ask: price_compare std_less
  by unfold_locales (auto simp: std_less_def)

interpretation bid: price_compare std_greater
  by unfold_locales (auto simp: std_greater_def)

end
