(* ===== verification/Symbol_Book.thy ===== *)
theory Symbol_Book
  imports Price_Ladder
begin

text \<open>
  \<^verbatim>\<open>SymbolBook\<close> of \<^verbatim>\<open>src/core/depth_book.h\<close> and \<^verbatim>\<open>depth_book.cpp\<close>: the orders of one symbol, the full
  price ladder of each side and the materialised top of the book. The record has the class's
  members; \<^verbatim>\<open>orders\<close> is the \<^verbatim>\<open>unordered_map\<close>, which the class only looks up, inserts into and
  erases from. \<^verbatim>\<open>DepthSide\<close> is its single member, the vector of levels.
\<close>

section \<open>State and operations\<close>

record OrderState =
  os_symbol :: Symbol
  os_side :: Side
  os_price :: Price
  os_qty :: Quantity
  os_ts :: Timestamp

record SymbolBook =
  depth :: nat
  orders :: "OrderId \<rightharpoonup> OrderState"
  bid_levels :: ladder
  ask_levels :: ladder
  top_bids :: "PriceLevel list"
  top_asks :: "PriceLevel list"
  last_ts :: Timestamp

definition kDefaultDepth :: nat where
  "kDefaultDepth = 10"

definition new_book :: "nat \<Rightarrow> SymbolBook" where
  "new_book n = \<lparr>depth = n, orders = Map.empty, bid_levels = [], ask_levels = [],
     top_bids = [], top_asks = [], last_ts = 0\<rparr>"

definition find_order :: "SymbolBook \<Rightarrow> OrderId \<Rightarrow> OrderState option" where
  "find_order b oid = orders b oid"

definition has_order :: "SymbolBook \<Rightarrow> OrderId \<Rightarrow> bool" where
  "has_order b oid \<longleftrightarrow> orders b oid \<noteq> None"

definition num_orders :: "SymbolBook \<Rightarrow> nat" where
  "num_orders b = card (dom (orders b))"

definition refresh_top_bids :: "SymbolBook \<Rightarrow> SymbolBook" where
  "refresh_top_bids b = b\<lparr>top_bids := top_n (depth b) (bid_levels b)\<rparr>"

definition refresh_top_asks :: "SymbolBook \<Rightarrow> SymbolBook" where
  "refresh_top_asks b = b\<lparr>top_asks := top_n (depth b) (ask_levels b)\<rparr>"

definition apply_level_delta :: "SymbolBook \<Rightarrow> Side \<Rightarrow> Price \<Rightarrow> int \<Rightarrow> int \<Rightarrow> SymbolBook" where
  "apply_level_delta b side p qty_delta count_delta =
     (if side = Buy then
        (case level_delta std_greater p qty_delta count_delta (bid_levels b) of
           None \<Rightarrow> b
         | Some l \<Rightarrow> refresh_top_bids (b\<lparr>bid_levels := l\<rparr>))
      else
        (case level_delta std_less p qty_delta count_delta (ask_levels b) of
           None \<Rightarrow> b
         | Some l \<Rightarrow> refresh_top_asks (b\<lparr>ask_levels := l\<rparr>)))"

definition no_symbol :: Symbol where
  "no_symbol = Symbol 0 0 0 0 0 0 0 0"

definition add_order ::
  "SymbolBook \<Rightarrow> OrderId \<Rightarrow> Side \<Rightarrow> Price \<Rightarrow> Quantity \<Rightarrow> Timestamp \<Rightarrow> SymbolBook" where
  "add_order b oid side p qty t =
     (if qty = 0 then b
      else if orders b oid \<noteq> None then b
      else apply_level_delta
        (b\<lparr>orders := (orders b)(oid \<mapsto> \<lparr>os_symbol = no_symbol, os_side = side, os_price = p,
             os_qty = qty, os_ts = t\<rparr>), last_ts := t\<rparr>) side p (uint qty) 1)"

definition modify_order ::
  "SymbolBook \<Rightarrow> OrderId \<Rightarrow> Quantity \<Rightarrow> Timestamp \<Rightarrow> bool \<times> SymbolBook" where
  "modify_order b oid new_qty t =
     (case orders b oid of
        None \<Rightarrow> (False, b)
      | Some st \<Rightarrow>
          let delta = uint new_qty - uint (os_qty st) in
          if delta = 0 then
            (True, b\<lparr>orders := (orders b)(oid \<mapsto> st\<lparr>os_ts := t\<rparr>), last_ts := t\<rparr>)
          else
            let b' =
              (if new_qty = 0 then
                 apply_level_delta (b\<lparr>orders := (orders b)(oid := None)\<rparr>)
                   (os_side st) (os_price st) (- uint (os_qty st)) (- 1)
               else
                 apply_level_delta (b\<lparr>orders := (orders b)(oid \<mapsto> st\<lparr>os_qty := new_qty, os_ts := t\<rparr>)\<rparr>)
                   (os_side st) (os_price st) delta 0)
            in (True, b'\<lparr>last_ts := t\<rparr>))"

definition reduce_order ::
  "SymbolBook \<Rightarrow> OrderId \<Rightarrow> Quantity \<Rightarrow> Timestamp \<Rightarrow> bool \<times> SymbolBook" where
  "reduce_order b oid delta t =
     (case orders b oid of
        None \<Rightarrow> (False, b)
      | Some st \<Rightarrow>
          let cur = os_qty st;
              new_qty = (if delta \<ge> cur then 0 else cur - delta)
          in modify_order b oid new_qty t)"

definition delete_order :: "SymbolBook \<Rightarrow> OrderId \<Rightarrow> Timestamp \<Rightarrow> bool \<times> SymbolBook" where
  "delete_order b oid t =
     (case orders b oid of
        None \<Rightarrow> (False, b)
      | Some st \<Rightarrow>
          (True, (apply_level_delta (b\<lparr>orders := (orders b)(oid := None)\<rparr>)
             (os_side st) (os_price st) (- uint (os_qty st)) (- 1))\<lparr>last_ts := t\<rparr>))"

definition replace_order ::
  "SymbolBook \<Rightarrow> OrderId \<Rightarrow> OrderId \<Rightarrow> Price \<Rightarrow> Quantity \<Rightarrow> Timestamp \<Rightarrow> bool \<times> SymbolBook" where
  "replace_order b old_id new_id new_price new_qty t =
     (case orders b old_id of
        None \<Rightarrow> (False, b)
      | Some st \<Rightarrow>
          let side = os_side st;
              b' = snd (delete_order b old_id t)
          in (True, add_order b' new_id side new_price new_qty t))"

text \<open>The run-time check \<^verbatim>\<open>invariants_ok\<close>, loop by loop.\<close>

definition invariants_ok :: "SymbolBook \<Rightarrow> bool" where
  "invariants_ok b \<longleftrightarrow>
     (if length (top_bids b) > depth b then False
      else if length (top_asks b) > depth b then False
      else if \<not> list_all (\<lambda>i. price (top_bids b ! (i - 1)) > price (top_bids b ! i))
                  [1..<length (top_bids b)] then False
      else if \<not> list_all (\<lambda>i. price (top_asks b ! (i - 1)) < price (top_asks b ! i))
                  [1..<length (top_asks b)] then False
      else if \<not> list_all (\<lambda>lvl. \<not> (order_count lvl = 0 \<or> total_qty lvl = 0)) (top_bids b) then False
      else if \<not> list_all (\<lambda>lvl. \<not> (order_count lvl = 0 \<or> total_qty lvl = 0)) (top_asks b) then False
      else True)"

section \<open>Per-level aggregates of the live orders\<close>

definition orders_at :: "(OrderId \<rightharpoonup> OrderState) \<Rightarrow> bool \<Rightarrow> Price \<Rightarrow> OrderId set" where
  "orders_at os bid p = {oid. \<exists>st. os oid = Some st \<and> (os_side st = Buy) = bid \<and> os_price st = p}"

definition level_qty :: "(OrderId \<rightharpoonup> OrderState) \<Rightarrow> bool \<Rightarrow> Price \<Rightarrow> nat" where
  "level_qty os bid p = (\<Sum>oid \<in> orders_at os bid p. unat (os_qty (the (os oid))))"

definition level_cnt :: "(OrderId \<rightharpoonup> OrderState) \<Rightarrow> bool \<Rightarrow> Price \<Rightarrow> nat" where
  "level_cnt os bid p = card (orders_at os bid p)"

definition at_level :: "OrderState option \<Rightarrow> bool \<Rightarrow> Price \<Rightarrow> bool" where
  "at_level x bid p \<longleftrightarrow> (case x of None \<Rightarrow> False | Some st \<Rightarrow> (os_side st = Buy) = bid \<and> os_price st = p)"

text \<open>
  Every live order has shares, and no price level holds more shares than a 32-bit total.
\<close>

definition live :: "(OrderId \<rightharpoonup> OrderState) \<Rightarrow> bool" where
  "live os \<longleftrightarrow> finite (dom os) \<and> (\<forall>oid st. os oid = Some st \<longrightarrow> os_qty st \<noteq> 0)"

definition fits :: "(OrderId \<rightharpoonup> OrderState) \<Rightarrow> bool" where
  "fits os \<longleftrightarrow> (\<forall>bid p. level_qty os bid p < 2 ^ 32)"

lemma orders_at_subset: "orders_at os bid p \<subseteq> dom os"
  by (auto simp: orders_at_def)

lemma finite_orders_at [simp]: "finite (dom os) \<Longrightarrow> finite (orders_at os bid p)"
  by (rule finite_subset [OF orders_at_subset])

lemma orders_at_upd:
  "orders_at (os(oid := x)) bid p =
     (if at_level x bid p then insert oid (orders_at os bid p - {oid}) else orders_at os bid p - {oid})"
  by (auto simp: orders_at_def at_level_def split: option.splits)

lemma at_level_simps [simp]:
  "\<not> at_level None bid p"
  "at_level (Some st) bid p \<longleftrightarrow> (os_side st = Buy) = bid \<and> os_price st = p"
  by (simp_all add: at_level_def)

lemma level_qty_upd:
  assumes "finite (dom os)"
  shows "level_qty (os(oid := x)) bid p =
    level_qty (os(oid := None)) bid p + (if at_level x bid p then unat (os_qty (the x)) else 0)"
proof -
  have same: "(\<Sum>i \<in> orders_at os bid p - {oid}. unat (os_qty (the ((os(oid := y)) i)))) =
      (\<Sum>i \<in> orders_at os bid p - {oid}. unat (os_qty (the (os i))))" for y
    by (rule sum.cong) auto
  show ?thesis
    using assms same
    by (cases "at_level x bid p")
       (simp_all add: level_qty_def orders_at_upd sum.insert_remove del: insert_Diff_single)
qed

lemma level_cnt_upd:
  assumes "finite (dom os)"
  shows "level_cnt (os(oid := x)) bid p =
    level_cnt (os(oid := None)) bid p + (if at_level x bid p then 1 else 0)"
  using assms
  by (cases "at_level x bid p") (simp_all add: level_cnt_def orders_at_upd card.insert_remove)

text \<open>Hence any single-key update changes the aggregates by the difference of the contributions.\<close>

lemma level_upd_diff:
  assumes "finite (dom os)"
  shows "int (level_qty (os(oid := x)) bid p) = int (level_qty os bid p)
           - (if at_level (os oid) bid p then uint (os_qty (the (os oid))) else 0)
           + (if at_level x bid p then uint (os_qty (the x)) else 0)"
    and "int (level_cnt (os(oid := x)) bid p) = int (level_cnt os bid p)
           - (if at_level (os oid) bid p then 1 else 0) + (if at_level x bid p then 1 else 0)"
proof -
  note q = level_qty_upd [OF assms, of oid "os oid" bid p, unfolded fun_upd_triv]
    level_qty_upd [OF assms, of oid x bid p]
  note c = level_cnt_upd [OF assms, of oid "os oid" bid p, unfolded fun_upd_triv]
    level_cnt_upd [OF assms, of oid x bid p]
  show "int (level_qty (os(oid := x)) bid p) = int (level_qty os bid p)
           - (if at_level (os oid) bid p then uint (os_qty (the (os oid))) else 0)
           + (if at_level x bid p then uint (os_qty (the x)) else 0)"
    unfolding q by (cases "at_level (os oid) bid p"; cases "at_level x bid p") simp_all
  show "int (level_cnt (os(oid := x)) bid p) = int (level_cnt os bid p)
           - (if at_level (os oid) bid p then 1 else 0) + (if at_level x bid p then 1 else 0)"
    unfolding c by (cases "at_level (os oid) bid p"; cases "at_level x bid p") simp_all
qed

lemma live_upd: "live os \<Longrightarrow> (\<And>st. x = Some st \<Longrightarrow> os_qty st \<noteq> 0) \<Longrightarrow> live (os(oid := x))"
  by (auto simp: live_def)

lemma live_empty [simp]: "live Map.empty"
  by (simp add: live_def)

lemma orders_at_empty [simp]: "orders_at Map.empty bid p = {}"
  by (simp add: orders_at_def)

lemma level_empty [simp]: "level_qty Map.empty bid p = 0" "level_cnt Map.empty bid p = 0"
  by (simp_all add: level_qty_def level_cnt_def)

lemma fits_empty [simp]: "fits Map.empty"
  by (simp add: fits_def)

lemma live_proper:
  assumes "live os" "fits os"
  shows "proper (level_qty os bid) (level_cnt os bid)"
proof -
  have "level_cnt os bid p \<le> level_qty os bid p" for p
  proof -
    have "level_cnt os bid p = (\<Sum>i \<in> orders_at os bid p. 1)"
      by (simp add: level_cnt_def)
    also have "\<dots> \<le> level_qty os bid p"
      unfolding level_qty_def
      using assms(1) by (intro sum_mono) (auto simp: orders_at_def live_def Suc_le_eq unat_gt_0)
    finally show ?thesis .
  qed
  moreover have "level_cnt os bid p = 0 \<Longrightarrow> level_qty os bid p = 0" for p
    using assms(1) by (simp add: level_cnt_def level_qty_def live_def)
  ultimately show ?thesis using assms(2) by (simp add: proper_def fits_def)
qed

section \<open>The representation invariant\<close>

definition side_rep :: "(OrderId \<rightharpoonup> OrderState) \<Rightarrow> SymbolBook \<Rightarrow> bool" where
  "side_rep os b \<longleftrightarrow>
     represents std_greater (level_qty os True) (level_cnt os True) (bid_levels b) \<and>
     represents std_less (level_qty os False) (level_cnt os False) (ask_levels b) \<and>
     top_bids b = top_n (depth b) (bid_levels b) \<and>
     top_asks b = top_n (depth b) (ask_levels b)"

definition book_inv :: "SymbolBook \<Rightarrow> bool" where
  "book_inv b \<longleftrightarrow> live (orders b) \<and> fits (orders b) \<and> side_rep (orders b) b"

lemma apply_level_delta_orders [simp]:
  "orders (apply_level_delta b side p q c) = orders b"
  "depth (apply_level_delta b side p q c) = depth b"
  "last_ts (apply_level_delta b side p q c) = last_ts b"
  by (auto simp: apply_level_delta_def refresh_top_bids_def refresh_top_asks_def split: option.split)

lemma side_rep_frame [simp]:
  "side_rep os (b\<lparr>last_ts := t\<rparr>) = side_rep os b"
  "side_rep os (b\<lparr>orders := x\<rparr>) = side_rep os b"
  by (simp_all add: side_rep_def)

lemma apply_level_delta_rep:
  assumes rep: "side_rep os b" and os: "live os" "fits os" and os': "live os'" "fits os'"
    and other: "\<And>bid x. (bid, x) \<noteq> ((side = Buy), p) \<Longrightarrow>
      level_qty os' bid x = level_qty os bid x \<and> level_cnt os' bid x = level_cnt os bid x"
    and dq: "int (level_qty os' (side = Buy) p) = int (level_qty os (side = Buy) p) + qd"
    and dc: "int (level_cnt os' (side = Buy) p) = int (level_cnt os (side = Buy) p) + cd"
  shows "side_rep os' (apply_level_delta b side p qd cd)"
proof (cases "side = Buy")
  case True
  have asks: "level_qty os' False = level_qty os False" "level_cnt os' False = level_cnt os False"
    using other [of False] True by (auto simp: fun_eq_iff)
  have bids: "represents std_greater (level_qty os' True) (level_cnt os' True)
      (case level_delta std_greater p qd cd (bid_levels b) of None \<Rightarrow> bid_levels b | Some l \<Rightarrow> l)"
    using rep other [of True] dq dc True live_proper [OF os] live_proper [OF os']
    by (intro bid.level_delta_represents [of "level_qty os True" "level_cnt os True"])
       (auto simp: side_rep_def)
  show ?thesis
    using rep bids asks True
    by (simp add: side_rep_def apply_level_delta_def refresh_top_bids_def split: option.splits)
next
  case False
  have bids: "level_qty os' True = level_qty os True" "level_cnt os' True = level_cnt os True"
    using other [of True] False by (auto simp: fun_eq_iff)
  have asks: "represents std_less (level_qty os' False) (level_cnt os' False)
      (case level_delta std_less p qd cd (ask_levels b) of None \<Rightarrow> ask_levels b | Some l \<Rightarrow> l)"
    using rep other [of False] dq dc False live_proper [OF os] live_proper [OF os']
    by (intro ask.level_delta_represents [of "level_qty os False" "level_cnt os False"])
       (auto simp: side_rep_def)
  show ?thesis
    using rep bids asks False
    by (simp add: side_rep_def apply_level_delta_def refresh_top_asks_def split: option.splits)
qed

section \<open>Every operation keeps the invariant\<close>

definition shares_of :: "OrderState option \<Rightarrow> int" where
  "shares_of x = (case x of None \<Rightarrow> 0 | Some st \<Rightarrow> uint (os_qty st))"

definition count_of :: "OrderState option \<Rightarrow> int" where
  "count_of x = (case x of None \<Rightarrow> 0 | Some st \<Rightarrow> 1)"

definition placed_at :: "OrderState option \<Rightarrow> bool \<Rightarrow> Price \<Rightarrow> bool" where
  "placed_at x bid p \<longleftrightarrow> (\<forall>st. x = Some st \<longrightarrow> (os_side st = Buy) = bid \<and> os_price st = p)"

lemma key_update_rep:
  assumes inv: "book_inv b" and rep: "side_rep (orders b) b'"
    and post: "live ((orders b)(oid := x))" "fits ((orders b)(oid := x))"
    and old: "placed_at (orders b oid) (side = Buy) p" and new: "placed_at x (side = Buy) p"
    and qd: "qd = shares_of x - shares_of (orders b oid)"
    and cd: "cd = count_of x - count_of (orders b oid)"
  shows "side_rep ((orders b)(oid := x)) (apply_level_delta b' side p qd cd)"
proof (rule apply_level_delta_rep [OF rep _ _ post])
  have fin: "finite (dom (orders b))" using inv by (simp add: book_inv_def live_def)
  note diff = level_upd_diff [OF fin, of oid x]
  show "live (orders b)" "fits (orders b)" using inv by (simp_all add: book_inv_def)
  show "level_qty ((orders b)(oid := x)) bid y = level_qty (orders b) bid y \<and>
        level_cnt ((orders b)(oid := x)) bid y = level_cnt (orders b) bid y"
    if "(bid, y) \<noteq> ((side = Buy), p)" for bid y
  proof -
    have "\<not> at_level (orders b oid) bid y" "\<not> at_level x bid y"
      using old new that by (auto simp: at_level_def placed_at_def split: option.splits)
    then show ?thesis using diff [of bid y] by simp
  qed
  have at: "at_level z (side = Buy) p \<longleftrightarrow> z \<noteq> None" if "placed_at z (side = Buy) p" for z
    using that by (auto simp: at_level_def placed_at_def split: option.splits)
  show "int (level_qty ((orders b)(oid := x)) (side = Buy) p) = int (level_qty (orders b) (side = Buy) p) + qd"
    using diff(1) [of "side = Buy" p] unfolding at [OF old] at [OF new]
    by (auto simp: qd shares_of_def split: option.splits)
  show "int (level_cnt ((orders b)(oid := x)) (side = Buy) p) = int (level_cnt (orders b) (side = Buy) p) + cd"
    using diff(2) [of "side = Buy" p] unfolding at [OF old] at [OF new]
    by (auto simp: cd count_of_def split: option.splits)
qed

lemma fits_shrink:
  assumes "fits os" "finite (dom os)"
    and "\<And>st. x = Some st \<Longrightarrow> \<exists>st'. os oid = Some st' \<and> os_side st' = os_side st \<and>
           os_price st' = os_price st \<and> os_qty st \<le> os_qty st'"
  shows "fits (os(oid := x))"
proof -
  have "int (level_qty (os(oid := x)) bid p) \<le> int (level_qty os bid p)" for bid p
    unfolding level_upd_diff(1) [OF assms(2), of oid x bid p]
    using assms(3) by (cases x; cases "os oid") (auto simp: word_le_def split: if_splits)
  then show ?thesis using assms(1) unfolding fits_def of_nat_le_iff by (blast intro: le_less_trans)
qed

lemma orders_add_order:
  "orders (add_order b oid side p qty t) =
     (if qty = 0 \<or> orders b oid \<noteq> None then orders b
      else (orders b)(oid \<mapsto> \<lparr>os_symbol = no_symbol, os_side = side, os_price = p, os_qty = qty, os_ts = t\<rparr>))"
  by (simp add: add_order_def)

lemma depth_ops [simp]:
  "depth (add_order b oid side p qty t) = depth b"
  "depth (snd (modify_order b oid q t)) = depth b"
  "depth (snd (reduce_order b oid q t)) = depth b"
  "depth (snd (delete_order b oid t)) = depth b"
  "depth (snd (replace_order b oid nid p q t)) = depth b"
  by (simp_all add: add_order_def modify_order_def reduce_order_def delete_order_def
      replace_order_def Let_def split: option.split)

lemma add_order_inv:
  assumes inv: "book_inv b" and fit: "fits (orders (add_order b oid side p qty t))"
  shows "book_inv (add_order b oid side p qty t)"
proof (cases "qty = 0 \<or> orders b oid \<noteq> None")
  case True
  then show ?thesis using inv by (auto simp: add_order_def)
next
  case False
  let ?st = "\<lparr>os_symbol = no_symbol, os_side = side, os_price = p, os_qty = qty, os_ts = t\<rparr>"
  have live: "live ((orders b)(oid \<mapsto> ?st))"
    using inv False by (auto simp: book_inv_def intro: live_upd)
  have fit': "fits ((orders b)(oid \<mapsto> ?st))" using fit False by (simp add: orders_add_order)
  have "side_rep ((orders b)(oid \<mapsto> ?st))
      (apply_level_delta (b\<lparr>orders := (orders b)(oid \<mapsto> ?st), last_ts := t\<rparr>) side p (uint qty) 1)"
    using inv False
    by (intro key_update_rep [OF inv _ live fit'])
       (auto simp: book_inv_def placed_at_def shares_of_def count_of_def)
  then show ?thesis using live fit' False by (simp add: book_inv_def add_order_def)
qed

lemma remove_inv:
  assumes inv: "book_inv b" and st: "orders b oid = Some st"
  shows "book_inv ((apply_level_delta (b\<lparr>orders := (orders b)(oid := None)\<rparr>)
           (os_side st) (os_price st) (- uint (os_qty st)) (- 1))\<lparr>last_ts := t\<rparr>)"
proof -
  have live: "live ((orders b)(oid := None))"
    using inv by (auto simp: book_inv_def intro: live_upd)
  have fit: "fits ((orders b)(oid := None))"
    using inv by (auto simp: book_inv_def live_def intro: fits_shrink)
  have "side_rep ((orders b)(oid := None))
      (apply_level_delta (b\<lparr>orders := (orders b)(oid := None)\<rparr>)
           (os_side st) (os_price st) (- uint (os_qty st)) (- 1))"
    using inv st
    by (intro key_update_rep [OF inv _ live fit])
       (auto simp: book_inv_def placed_at_def shares_of_def count_of_def)
  then show ?thesis using live fit by (simp add: book_inv_def)
qed

lemma delete_order_inv: "book_inv b \<Longrightarrow> book_inv (snd (delete_order b oid t))"
  by (auto simp: delete_order_def remove_inv split: option.split)

lemma orders_delete_order:
  "orders (snd (delete_order b oid t)) = (orders b)(oid := None)"
  by (auto simp: delete_order_def fun_eq_iff split: option.split)

lemma uint_eq_iff [simp]: "uint (a :: u32) = uint b \<longleftrightarrow> a = b"
  by (simp add: word_uint_eq_iff)

lemma orders_modify_order:
  "orders (snd (modify_order b oid q t)) =
     (case orders b oid of None \<Rightarrow> orders b
      | Some st \<Rightarrow> if q = 0 \<and> os_qty st \<noteq> 0 then (orders b)(oid := None)
                   else (orders b)(oid \<mapsto> st\<lparr>os_qty := q, os_ts := t\<rparr>))"
  by (auto simp: modify_order_def Let_def split: option.split)

lemma modify_order_inv:
  assumes inv: "book_inv b" and fit: "fits (orders (snd (modify_order b oid q t)))"
  shows "book_inv (snd (modify_order b oid q t))"
proof (cases "orders b oid")
  case None
  then show ?thesis using inv by (simp add: modify_order_def)
next
  case (Some st)
  then have pos: "os_qty st \<noteq> 0" using inv by (auto simp: book_inv_def live_def)
  consider (same) "q = os_qty st" | (gone) "q \<noteq> os_qty st" "q = 0" | (change) "q \<noteq> os_qty st" "q \<noteq> 0"
    by blast
  then show ?thesis
  proof cases
    case same
    let ?os = "(orders b)(oid \<mapsto> st\<lparr>os_ts := t\<rparr>)"
    have fin: "finite (dom (orders b))" using inv by (simp add: book_inv_def live_def)
    have "level_qty ?os bid p = level_qty (orders b) bid p \<and> level_cnt ?os bid p = level_cnt (orders b) bid p"
      for bid p
      using level_upd_diff [OF fin, of oid "Some (st\<lparr>os_ts := t\<rparr>)" bid p] Some
      by (simp split: if_splits)
    then have "level_qty ?os = level_qty (orders b) \<and> level_cnt ?os = level_cnt (orders b)"
      by (simp add: fun_eq_iff)
    moreover have "live ?os" using inv pos by (auto simp: book_inv_def intro: live_upd)
    moreover have "modify_order b oid q t = (True, b\<lparr>orders := ?os, last_ts := t\<rparr>)"
      using Some same by (simp add: modify_order_def)
    ultimately show ?thesis using inv by (simp add: book_inv_def side_rep_def fits_def)
  next
    case gone
    then show ?thesis using remove_inv [OF inv Some] Some by (simp add: modify_order_def Let_def uint_0_iff)
  next
    case change
    let ?st = "st\<lparr>os_qty := q, os_ts := t\<rparr>"
    have live: "live ((orders b)(oid \<mapsto> ?st))"
      using inv change by (auto simp: book_inv_def intro: live_upd)
    have fit': "fits ((orders b)(oid \<mapsto> ?st))"
      using fit Some change by (simp add: orders_modify_order)
    have "side_rep ((orders b)(oid \<mapsto> ?st))
        (apply_level_delta (b\<lparr>orders := (orders b)(oid \<mapsto> ?st)\<rparr>)
           (os_side st) (os_price st) (uint q - uint (os_qty st)) 0)"
      using inv Some
      by (intro key_update_rep [OF inv _ live fit'])
         (auto simp: book_inv_def placed_at_def shares_of_def count_of_def)
    then show ?thesis
      using live fit' Some change by (simp add: modify_order_def Let_def book_inv_def)
  qed
qed

lemma orders_reduce_order:
  "orders (snd (reduce_order b oid q t)) =
     (case orders b oid of None \<Rightarrow> orders b
      | Some st \<Rightarrow> if q \<ge> os_qty st \<and> os_qty st \<noteq> 0 then (orders b)(oid := None)
                   else (orders b)(oid \<mapsto> st\<lparr>os_qty := (if q \<ge> os_qty st then 0 else os_qty st - q), os_ts := t\<rparr>))"
  by (auto simp: reduce_order_def orders_modify_order Let_def split: option.split)

lemma fits_reduce:
  assumes "book_inv b"
  shows "fits (orders (snd (reduce_order b oid q t)))"
proof (cases "orders b oid")
  case None
  then show ?thesis using assms by (simp add: orders_reduce_order book_inv_def)
next
  case (Some st)
  have le: "os_qty st - q \<le> os_qty st" if "\<not> os_qty st \<le> q"
    using that by (simp add: word_sub_le)
  show ?thesis
    using assms Some le
    by (auto simp: orders_reduce_order book_inv_def live_def intro!: fits_shrink)
qed

lemma reduce_order_inv:
  assumes "book_inv b"
  shows "book_inv (snd (reduce_order b oid q t))"
proof (cases "orders b oid")
  case None
  then show ?thesis using assms by (simp add: reduce_order_def)
next
  case (Some st)
  then show ?thesis
    using modify_order_inv [OF assms, of oid "if os_qty st \<le> q then 0 else os_qty st - q" t]
      fits_reduce [OF assms, of oid q t]
    by (simp add: reduce_order_def Let_def split: if_splits)
qed

lemma replace_order_inv:
  assumes "book_inv b" and "fits (orders (snd (replace_order b oid nid p q t)))"
  shows "book_inv (snd (replace_order b oid nid p q t))"
  using assms by (auto simp: replace_order_def Let_def delete_order_inv intro: add_order_inv split: option.splits)

lemma new_book_inv: "book_inv (new_book n)"
  by (simp add: book_inv_def new_book_def side_rep_def top_n_take
      bid.ordered_Nil ask.ordered_Nil represents_def ladder_find_def)

end
