(* ===== verification/Book_Contract.thy ===== *)
theory Book_Contract
  imports Symbol_Book
begin

text \<open>
  The contract of \<^verbatim>\<open>SymbolBook\<close>. Abstractly a book is the map of its live orders: each
  operation is a small update of that map (\<^verbatim>\<open>spec_step\<close>), and what the book shows is the best
  levels of the aggregates of that map (\<^verbatim>\<open>spec_bids\<close>, \<^verbatim>\<open>spec_asks\<close>). The locale
  \<^verbatim>\<open>book_contract\<close> is this contract as the rest of the program uses it, interpreted on the
  class's operations.
\<close>

section \<open>Operations as data\<close>

datatype book_op =
    OpAdd OrderId Side Price Quantity Timestamp
  | OpModify OrderId Quantity Timestamp
  | OpReduce OrderId Quantity Timestamp
  | OpDelete OrderId Timestamp
  | OpReplace OrderId OrderId Price Quantity Timestamp

fun book_step :: "SymbolBook \<Rightarrow> book_op \<Rightarrow> SymbolBook" where
  "book_step b (OpAdd oid side p q t) = add_order b oid side p q t"
| "book_step b (OpModify oid q t) = snd (modify_order b oid q t)"
| "book_step b (OpReduce oid q t) = snd (reduce_order b oid q t)"
| "book_step b (OpDelete oid t) = snd (delete_order b oid t)"
| "book_step b (OpReplace oid nid p q t) = snd (replace_order b oid nid p q t)"

section \<open>The abstract book\<close>

definition spec_add ::
  "(OrderId \<rightharpoonup> OrderState) \<Rightarrow> OrderId \<Rightarrow> Side \<Rightarrow> Price \<Rightarrow> Quantity \<Rightarrow> Timestamp \<Rightarrow>
   (OrderId \<rightharpoonup> OrderState)" where
  "spec_add os oid side p q t =
     (if q = 0 \<or> oid \<in> dom os then os
      else os(oid \<mapsto> \<lparr>os_symbol = no_symbol, os_side = side, os_price = p, os_qty = q, os_ts = t\<rparr>))"

definition spec_set_qty :: "(OrderId \<rightharpoonup> OrderState) \<Rightarrow> OrderId \<Rightarrow> Quantity \<Rightarrow> Timestamp \<Rightarrow>
   (OrderId \<rightharpoonup> OrderState)" where
  "spec_set_qty os oid q t =
     (case os oid of
        None \<Rightarrow> os
      | Some st \<Rightarrow> if q = 0 then os(oid := None) else os(oid \<mapsto> st\<lparr>os_qty := q, os_ts := t\<rparr>))"

fun spec_step :: "(OrderId \<rightharpoonup> OrderState) \<Rightarrow> book_op \<Rightarrow> (OrderId \<rightharpoonup> OrderState)" where
  "spec_step os (OpAdd oid side p q t) = spec_add os oid side p q t"
| "spec_step os (OpModify oid q t) = spec_set_qty os oid q t"
| "spec_step os (OpReduce oid q t) =
     (case os oid of None \<Rightarrow> os | Some st \<Rightarrow> spec_set_qty os oid (os_qty st - min q (os_qty st)) t)"
| "spec_step os (OpDelete oid t) = os(oid := None)"
| "spec_step os (OpReplace oid nid p q t) =
     (case os oid of None \<Rightarrow> os
      | Some st \<Rightarrow> spec_add (os(oid := None)) nid (os_side st) p q t)"

definition side_prices :: "(OrderId \<rightharpoonup> OrderState) \<Rightarrow> bool \<Rightarrow> Price set" where
  "side_prices os bid = os_price ` {st \<in> ran os. (os_side st = Buy) = bid}"

definition spec_level :: "(OrderId \<rightharpoonup> OrderState) \<Rightarrow> bool \<Rightarrow> Price \<Rightarrow> PriceLevel" where
  "spec_level os bid p = level p (level_qty os bid p) (level_cnt os bid p)"

definition spec_bids :: "(OrderId \<rightharpoonup> OrderState) \<Rightarrow> nat \<Rightarrow> PriceLevel list" where
  "spec_bids os n = map (spec_level os True) (take n (rev (sorted_list_of_set (side_prices os True))))"

definition spec_asks :: "(OrderId \<rightharpoonup> OrderState) \<Rightarrow> nat \<Rightarrow> PriceLevel list" where
  "spec_asks os n = map (spec_level os False) (take n (sorted_list_of_set (side_prices os False)))"

section \<open>The operations implement the abstract updates\<close>

lemma side_prices_cnt: "finite (dom os) \<Longrightarrow> side_prices os bid = {p. level_cnt os bid p \<noteq> 0}"
  by (force simp: side_prices_def level_cnt_def orders_at_def ran_def)

lemma live_qty: "live os \<Longrightarrow> os oid = Some st \<Longrightarrow> os_qty st \<noteq> 0"
  by (auto simp: live_def)

lemma orders_book_step:
  assumes "live (orders b)"
  shows "orders (book_step b op) = spec_step (orders b) op"
proof (cases op)
  case (OpAdd oid side p q t)
  then show ?thesis by (auto simp: orders_add_order spec_add_def)
next
  case (OpModify oid q t)
  then show ?thesis
    using live_qty [OF assms] by (auto simp: orders_modify_order spec_set_qty_def split: option.splits)
next
  case (OpReduce oid q t)
  then show ?thesis
    using live_qty [OF assms]
    by (auto simp: orders_reduce_order spec_set_qty_def min_def split: option.splits)
next
  case (OpDelete oid t)
  then show ?thesis by (simp add: orders_delete_order)
next
  case (OpReplace oid nid p q t)
  then show ?thesis
    by (auto simp: replace_order_def spec_add_def Let_def orders_add_order orders_delete_order
        split: option.splits)
qed

lemma book_step_inv:
  assumes inv: "book_inv b" and fit: "fits (spec_step (orders b) op)"
  shows "book_inv (book_step b op)"
proof -
  have "fits (orders (book_step b op))"
    using fit orders_book_step [of b op] inv by (simp add: book_inv_def)
  then show ?thesis
    using inv by (cases op) (simp_all add: add_order_inv modify_order_inv reduce_order_inv
        delete_order_inv replace_order_inv)
qed

lemma spec_step_live: "live os \<Longrightarrow> live (spec_step os op)"
  by (cases op) (auto simp: spec_add_def spec_set_qty_def intro!: live_upd split: option.splits dest: live_qty)

section \<open>What the book shows\<close>

lemma spec_level_eta: "spec_level os bid = (\<lambda>p. level p (level_qty os bid p) (level_cnt os bid p))"
  by (simp add: fun_eq_iff spec_level_def)

lemma book_shows:
  assumes "book_inv b"
  shows "top_bids b = spec_bids (orders b) (depth b)" and "top_asks b = spec_asks (orders b) (depth b)"
proof -
  have fin: "finite (dom (orders b))" using assms by (simp add: book_inv_def live_def)
  then have fp: "finite (side_prices (orders b) d)" for d by (simp add: side_prices_def finite_ran)
  have B: "represents std_greater (level_qty (orders b) True) (level_cnt (orders b) True) (bid_levels b)"
    and A: "represents std_less (level_qty (orders b) False) (level_cnt (orders b) False) (ask_levels b)"
    and top: "top_bids b = map snd (take (depth b) (bid_levels b))"
      "top_asks b = map snd (take (depth b) (ask_levels b))"
    using assms by (auto simp: book_inv_def side_rep_def top_n_take)
  have "sorted_wrt (<) (rev (map fst (bid_levels b)))"
    using B by (simp add: represents_def ordered_def std_compare_eta sorted_wrt_rev)
  then have "rev (map fst (bid_levels b)) = sorted_list_of_set (side_prices (orders b) True)"
    using fp [of True] by (intro strict_sorted_equal)
      (simp_all add: bid.represents_keys(1) [OF B] side_prices_cnt [OF fin])
  then have "map fst (bid_levels b) = rev (sorted_list_of_set (side_prices (orders b) True))"
    by (metis rev_rev_ident)
  then show "top_bids b = spec_bids (orders b) (depth b)"
    by (simp add: top spec_bids_def bid.represents_keys(2) [OF B] spec_level_eta flip: take_map)
  have "sorted_wrt (<) (map fst (ask_levels b))"
    using A by (simp add: represents_def ordered_def std_compare_eta)
  then have "map fst (ask_levels b) = sorted_list_of_set (side_prices (orders b) False)"
    using fp [of False] by (intro strict_sorted_equal)
      (simp_all add: ask.represents_keys(1) [OF A] side_prices_cnt [OF fin])
  then show "top_asks b = spec_asks (orders b) (depth b)"
    by (simp add: top spec_asks_def ask.represents_keys(2) [OF A] spec_level_eta flip: take_map)
qed

lemma sorted_adjacent:
  assumes "sorted_wrt R xs"
  shows "list_all (\<lambda>i. R (xs ! (i - 1)) (xs ! i)) [1..<length xs]"
  using assms by (auto simp: list_all_iff sorted_wrt_iff_nth_less)

lemma level_positive:
  assumes "live os" "fits os" "p \<in> side_prices os bid"
  shows "order_count (spec_level os bid p) \<noteq> 0 \<and> total_qty (spec_level os bid p) \<noteq> 0"
proof -
  have "finite (dom os)" using assms(1) by (simp add: live_def)
  then have "level_cnt os bid p \<noteq> 0" using assms(3) by (simp add: side_prices_cnt)
  moreover have "level_cnt os bid p \<le> level_qty os bid p" "level_qty os bid p < 2 ^ 32"
    using live_proper [OF assms(1,2), of bid] by (auto simp: proper_def)
  ultimately have "0 < unat (of_nat (level_cnt os bid p) :: u32)" "0 < unat (of_nat (level_qty os bid p) :: u32)"
    by (auto simp: bounds_simps)
  then show ?thesis by (auto simp: spec_level_def level_def unat_gt_0)
qed

lemma price_spec_level [simp]: "price (spec_level os bid p) = p"
  by (simp add: spec_level_def level_def)

lemma book_inv_invariants_ok:
  assumes "book_inv b"
  shows "invariants_ok b"
proof -
  have os: "live (orders b)" "fits (orders b)" and fin: "finite (side_prices (orders b) d)" for d
    using assms by (auto simp: book_inv_def live_def side_prices_def finite_ran)
  let ?B = "take (depth b) (rev (sorted_list_of_set (side_prices (orders b) True)))"
  let ?A = "take (depth b) (sorted_list_of_set (side_prices (orders b) False))"
  have sub: "set ?B \<subseteq> side_prices (orders b) True" "set ?A \<subseteq> side_prices (orders b) False"
    using fin [of True] fin [of False] set_take_subset by fastforce+
  have B: "sorted_wrt (\<lambda>x y. price x > price y) (top_bids b)"
    by (simp add: book_shows [OF assms] spec_bids_def sorted_wrt_map sorted_wrt_take sorted_wrt_rev)
  have A: "sorted_wrt (\<lambda>x y. price x < price y) (top_asks b)"
    by (simp add: book_shows [OF assms] spec_asks_def sorted_wrt_map sorted_wrt_take)
  have "list_all (\<lambda>lvl. \<not> (order_count lvl = 0 \<or> total_qty lvl = 0)) (top_bids b)"
    using level_positive [OF os] sub(1)
    by (fastforce simp: book_shows [OF assms] spec_bids_def list_all_iff)
  moreover have "list_all (\<lambda>lvl. \<not> (order_count lvl = 0 \<or> total_qty lvl = 0)) (top_asks b)"
    using level_positive [OF os] sub(2)
    by (fastforce simp: book_shows [OF assms] spec_asks_def list_all_iff)
  ultimately show ?thesis
    using sorted_adjacent [OF B] sorted_adjacent [OF A]
    unfolding invariants_ok_def
    by (auto simp: book_shows [OF assms] spec_bids_def spec_asks_def)
qed

section \<open>The contract as an interface\<close>

locale book_contract =
  fixes inv :: "'b \<Rightarrow> bool" and view :: "'b \<Rightarrow> (OrderId \<rightharpoonup> OrderState)"
    and step :: "'b \<Rightarrow> book_op \<Rightarrow> 'b" and empty :: "'b"
  assumes inv_empty: "inv empty"
    and view_empty: "view empty = Map.empty"
    and inv_live: "inv b \<Longrightarrow> live (view b)"
    and view_step: "live (view b) \<Longrightarrow> view (step b op) = spec_step (view b) op"
    and inv_step: "inv b \<Longrightarrow> fits (spec_step (view b) op) \<Longrightarrow> inv (step b op)"
begin

lemma run_view: "live (view b) \<Longrightarrow> view (foldl step b ops) = foldl spec_step (view b) ops"
proof (induction ops arbitrary: b)
  case (Cons op ops)
  then show ?case using spec_step_live [of "view b" op] by (simp add: view_step)
qed simp

lemma run_inv:
  "inv b \<Longrightarrow> (\<And>k. k \<le> length ops \<Longrightarrow> fits (foldl spec_step (view b) (take k ops))) \<Longrightarrow>
   inv (foldl step b ops)"
proof (induction ops arbitrary: b)
  case (Cons op ops)
  have step: "inv (step b op)"
    using Cons.prems(2) [of 1] Cons.prems(1) by (intro inv_step) auto
  have "fits (foldl spec_step (view (step b op)) (take k ops))" if "k \<le> length ops" for k
    using Cons.prems(2) [of "Suc k"] that by (simp add: view_step inv_live Cons.prems(1))
  then show ?case using Cons.IH [OF step] by simp
qed simp

lemma run_from_empty:
  assumes "\<And>k. k \<le> length ops \<Longrightarrow> fits (foldl spec_step Map.empty (take k ops))"
  shows "inv (foldl step empty ops) \<and> view (foldl step empty ops) = foldl spec_step Map.empty ops"
  using run_inv [OF inv_empty, of ops] run_view [of empty ops] assms
  by (simp add: view_empty)

end

interpretation sb: book_contract book_inv orders book_step "new_book n" for n
  by unfold_locales
     (auto simp: new_book_inv orders_book_step book_step_inv, auto simp: new_book_def book_inv_def)

end
