(* ===== verification/Depth_Book.thy ===== *)
theory Depth_Book
  imports Book_Contract Itch_Messages
begin

text \<open>
  \<^verbatim>\<open>DepthBook\<close> of \<^verbatim>\<open>src/core/depth_book.h\<close> and \<^verbatim>\<open>depth_book.cpp\<close>: one \<^verbatim>\<open>SymbolBook\<close> per symbol, the
  routing of order ids to symbols, and the application of an ITCH message. The snapshot
  callback is an output: \<^verbatim>\<open>apply_msg\<close> returns the snapshot passed to it, if any. \<^verbatim>\<open>None\<close> as the whole
  result is the dereference of \<^verbatim>\<open>books_.end()\<close>.
\<close>

section \<open>State and operations\<close>

record DepthSnapshot =
  snap_symbol :: Symbol
  snap_bids :: "PriceLevel list"
  snap_asks :: "PriceLevel list"
  snap_ts :: Timestamp

record DepthBook =
  db_depth :: nat
  books :: "SymbolKey \<rightharpoonup> SymbolBook"
  symbol_index :: "SymbolKey \<rightharpoonup> Symbol"
  order_to_symbol :: "OrderId \<rightharpoonup> SymbolKey"
  has_cb :: bool

definition new_depth_book :: "nat \<Rightarrow> DepthBook" where
  "new_depth_book n = \<lparr>db_depth = n, books = Map.empty, symbol_index = Map.empty,
     order_to_symbol = Map.empty, has_cb = False\<rparr>"

text \<open>
  \<^verbatim>\<open>book_for\<close> returns a reference into \<^verbatim>\<open>books_\<close>, creating the book on first use; the model
  returns the state in which the book exists. \<^verbatim>\<open>emplace\<close> does not replace an existing entry.
\<close>

definition book_for :: "DepthBook \<Rightarrow> Symbol \<Rightarrow> DepthBook" where
  "book_for d sy =
     (let key = symbol_key sy in
      case books d key of
        None \<Rightarrow> d\<lparr>books := (books d)(key \<mapsto> new_book (db_depth d)),
                  symbol_index := (if symbol_index d key = None
                    then (symbol_index d)(key \<mapsto> sy) else symbol_index d)\<rparr>
      | Some b \<Rightarrow> d)"

definition find_book :: "DepthBook \<Rightarrow> Symbol \<Rightarrow> SymbolBook option" where
  "find_book d sy = books d (symbol_key sy)"

definition symbol_for_order :: "DepthBook \<Rightarrow> OrderId \<Rightarrow> Symbol option" where
  "symbol_for_order d oid =
     (case order_to_symbol d oid of
        None \<Rightarrow> None
      | Some key \<Rightarrow> (case symbol_index d key of None \<Rightarrow> None | Some sy \<Rightarrow> Some sy))"

text \<open>
  \<^verbatim>\<open>symbol_index_\<close> is an \<^verbatim>\<open>unordered_map\<close>, iterated in an order the library chooses: \<^verbatim>\<open>iter\<close> is that
  enumeration of the keys.
\<close>

definition all_symbols :: "((SymbolKey \<rightharpoonup> Symbol) \<Rightarrow> SymbolKey list) \<Rightarrow> DepthBook \<Rightarrow> Symbol list" where
  "all_symbols iter d = map (\<lambda>k. the (symbol_index d k)) (iter (symbol_index d))"

definition symbol_count :: "DepthBook \<Rightarrow> nat" where
  "symbol_count d = card (dom (books d))"

definition total_orders :: "DepthBook \<Rightarrow> nat" where
  "total_orders d = (\<Sum>k \<in> dom (books d). num_orders (the (books d k)))"

definition snapshot :: "DepthBook \<Rightarrow> Symbol \<Rightarrow> DepthSnapshot" where
  "snapshot d sy =
     (case books d (symbol_key sy) of
        None \<Rightarrow> \<lparr>snap_symbol = sy, snap_bids = [], snap_asks = [], snap_ts = 0\<rparr>
      | Some b \<Rightarrow> \<lparr>snap_symbol = sy, snap_bids = top_bids b, snap_asks = top_asks b, snap_ts = last_ts b\<rparr>)"

definition emit_snapshot :: "DepthBook \<Rightarrow> Symbol \<Rightarrow> Timestamp \<Rightarrow> DepthSnapshot option" where
  "emit_snapshot d sy t =
     (if \<not> has_cb d then None
      else case books d (symbol_key sy) of
        None \<Rightarrow> None
      | Some b \<Rightarrow> Some \<lparr>snap_symbol = sy, snap_bids = top_bids b, snap_asks = top_asks b, snap_ts = t\<rparr>)"

text \<open>
  The alternatives of \<^verbatim>\<open>DepthBook::apply\<close>. Each returns the \<^verbatim>\<open>sy\<close> and \<^verbatim>\<open>ts\<close> it set together with
  \<^verbatim>\<open>changed = true\<close>, or \<^verbatim>\<open>None\<close> where it leaves \<^verbatim>\<open>changed\<close> false, and the new state.
\<close>

type_synonym effect = "((Symbol \<times> Timestamp) option \<times> DepthBook) option"

definition apply_add ::
  "DepthBook \<Rightarrow> OrderId \<Rightarrow> Side \<Rightarrow> Price \<Rightarrow> Quantity \<Rightarrow> Symbol \<Rightarrow> Timestamp \<Rightarrow> effect" where
  "apply_add d oid side p q sy t =
     (let d1 = book_for d sy; key = symbol_key sy in
      case books d1 key of
        None \<Rightarrow> None
      | Some b \<Rightarrow> Some (Some (sy, t),
          d1\<lparr>books := (books d1)(key \<mapsto> add_order b oid side p q t),
             order_to_symbol := (order_to_symbol d1)(oid \<mapsto> key)\<rparr>))"

definition apply_reduce :: "DepthBook \<Rightarrow> OrderId \<Rightarrow> Quantity \<Rightarrow> Timestamp \<Rightarrow> effect" where
  "apply_reduce d oid q t =
     (case order_to_symbol d oid of
        None \<Rightarrow> Some (None, d)
      | Some key \<Rightarrow>
          (case symbol_index d key of
             None \<Rightarrow> Some (None, d)
           | Some sy \<Rightarrow>
               (case books d key of
                  None \<Rightarrow> None
                | Some b \<Rightarrow>
                    let (ok, b') = reduce_order b oid q t;
                        d' = d\<lparr>books := (books d)(key \<mapsto> b')\<rparr>
                    in if ok then
                         Some (Some (sy, t),
                           (if \<not> has_order b' oid
                            then d'\<lparr>order_to_symbol := (order_to_symbol d')(oid := None)\<rparr> else d'))
                       else Some (None, d'))))"

definition apply_delete :: "DepthBook \<Rightarrow> OrderId \<Rightarrow> Timestamp \<Rightarrow> effect" where
  "apply_delete d oid t =
     (case order_to_symbol d oid of
        None \<Rightarrow> Some (None, d)
      | Some key \<Rightarrow>
          (case symbol_index d key of
             None \<Rightarrow> Some (None, d)
           | Some sy \<Rightarrow>
               (case books d key of
                  None \<Rightarrow> None
                | Some b \<Rightarrow>
                    let (ok, b') = delete_order b oid t;
                        d' = d\<lparr>books := (books d)(key \<mapsto> b')\<rparr>
                    in if ok then
                         Some (Some (sy, t), d'\<lparr>order_to_symbol := (order_to_symbol d')(oid := None)\<rparr>)
                       else Some (None, d'))))"

definition apply_replace ::
  "DepthBook \<Rightarrow> OrderId \<Rightarrow> OrderId \<Rightarrow> Price \<Rightarrow> Quantity \<Rightarrow> Timestamp \<Rightarrow> effect" where
  "apply_replace d oid nid p q t =
     (case order_to_symbol d oid of
        None \<Rightarrow> Some (None, d)
      | Some key \<Rightarrow>
          (case symbol_index d key of
             None \<Rightarrow> Some (None, d)
           | Some sy \<Rightarrow>
               (case books d key of
                  None \<Rightarrow> None
                | Some b \<Rightarrow>
                    (case find_order b oid of
                       None \<Rightarrow> Some (None, d)
                     | Some prev \<Rightarrow>
                         let side = os_side prev;
                             b1 = snd (delete_order b oid t);
                             route1 = (order_to_symbol d)(oid := None);
                             b2 = add_order b1 nid side p q t
                         in Some (Some (sy, t),
                              d\<lparr>books := (books d)(key \<mapsto> b2),
                                 order_to_symbol := route1(nid \<mapsto> key)\<rparr>)))))"

fun visit_msg :: "DepthBook \<Rightarrow> AnyMessage \<Rightarrow> effect" where
  "visit_msg d (MAddOrder m) =
     apply_add d (add_order_id m) (add_side m) (add_price m) (add_shares m) (add_symbol m) (ts m)"
| "visit_msg d (MAddOrderMPID m) =
     (let base = mpid_base m in
      apply_add d (add_order_id base) (add_side base) (add_price base) (add_shares base)
        (add_symbol base) (ts base))"
| "visit_msg d (MOrderExecuted m) = apply_reduce d (exec_order_id m) (executed_shares m) (ts m)"
| "visit_msg d (MOrderExecutedWithPrice m) =
     (let base = exec_base m in apply_reduce d (exec_order_id base) (executed_shares base) (ts base))"
| "visit_msg d (MOrderCancel m) = apply_reduce d (cancel_order_id m) (canceled_shares m) (ts m)"
| "visit_msg d (MOrderDelete m) = apply_delete d (delete_order_id m) (ts m)"
| "visit_msg d (MOrderReplace m) =
     apply_replace d (original_order_id m) (new_order_id m) (replace_price m) (replace_shares m) (ts m)"
| "visit_msg d (MTrade m) = Some (None, d)"
| "visit_msg d (MSystemEvent m) = Some (None, d)"
| "visit_msg d (MStockDirectory m) = Some (None, d)"

text \<open>\<^verbatim>\<open>DepthBook::apply\<close>: its return value, the snapshot emitted, and the new state.\<close>

definition apply_msg :: "DepthBook \<Rightarrow> AnyMessage \<Rightarrow> (bool \<times> DepthSnapshot option \<times> DepthBook) option" where
  "apply_msg d m = do {
     (eff, d') \<leftarrow> visit_msg d m;
     case eff of
       None \<Rightarrow> Some (False, None, d')
     | Some (sy, t) \<Rightarrow> Some (True, emit_snapshot d' sy t, d') }"

section \<open>Structural invariant\<close>

text \<open>
  Every book has an index entry with the key of its symbol, and every route leads to a book.
  This needs no assumption on the messages and is what makes the iterators valid.
\<close>

definition db_wf :: "DepthBook \<Rightarrow> bool" where
  "db_wf d \<longleftrightarrow> finite (dom (books d)) \<and> dom (symbol_index d) = dom (books d) \<and>
     (\<forall>k sy. symbol_index d k = Some sy \<longrightarrow> symbol_key sy = k) \<and>
     (\<forall>oid k. order_to_symbol d oid = Some k \<longrightarrow> books d k \<noteq> None)"

lemma db_wf_new: "db_wf (new_depth_book n)"
  by (simp add: db_wf_def new_depth_book_def)

lemma new_depth_book_frame [simp]:
  "has_cb (new_depth_book n) = False" "db_depth (new_depth_book n) = n"
  by (simp_all add: new_depth_book_def)

lemma db_wf_book_for: "db_wf d \<Longrightarrow> db_wf (book_for d sy)"
  by (auto simp: db_wf_def book_for_def Let_def dom_def split: option.splits if_splits)

lemma books_book_for:
  "books (book_for d sy) k =
     (if k = symbol_key sy \<and> books d k = None then Some (new_book (db_depth d)) else books d k)"
  by (auto simp: book_for_def Let_def split: option.split)

lemma book_for_frame [simp]:
  "order_to_symbol (book_for d sy) = order_to_symbol d"
  "db_depth (book_for d sy) = db_depth d" "has_cb (book_for d sy) = has_cb d"
  by (auto simp: book_for_def Let_def split: option.split)

lemma db_wf_index:
  assumes "db_wf d" "books d k = Some b"
  shows "\<exists>sy. symbol_index d k = Some sy \<and> symbol_key sy = k"
proof -
  have "k \<in> dom (books d)" "dom (symbol_index d) = dom (books d)"
    using assms by (auto simp: db_wf_def)
  then obtain sy where "symbol_index d k = Some sy" by auto
  then show ?thesis using assms(1) by (auto simp: db_wf_def)
qed

lemma db_wf_route_book: "db_wf d \<Longrightarrow> order_to_symbol d oid = Some k \<Longrightarrow> \<exists>b. books d k = Some b"
  by (auto simp: db_wf_def)

lemma db_wf_put_book:
  "db_wf d \<Longrightarrow> books d k \<noteq> None \<Longrightarrow> db_wf (d\<lparr>books := (books d)(k \<mapsto> b)\<rparr>)"
  by (auto simp: db_wf_def insert_absorb)

lemma db_wf_route:
  "db_wf d \<Longrightarrow> (\<And>oid k. r oid = Some k \<Longrightarrow> books d k \<noteq> None) \<Longrightarrow> db_wf (d\<lparr>order_to_symbol := r\<rparr>)"
  by (auto simp: db_wf_def)

lemma db_wf_store:
  assumes "db_wf d" "books d k \<noteq> None" "\<And>oid k'. r oid = Some k' \<Longrightarrow> books d k' \<noteq> None"
  shows "db_wf (d\<lparr>books := (books d)(k \<mapsto> b), order_to_symbol := r\<rparr>)"
  using assms by (intro db_wf_route [OF db_wf_put_book]) auto

section \<open>Each alternative as one book operation\<close>

text \<open>
  The alternative of a message either ignores it, or runs one operation on one book and
  updates the routes. These rules are all the later proofs use.
\<close>

lemma book_for_some: "\<exists>b. books (book_for d sy) (symbol_key sy) = Some b"
  by (auto simp: books_book_for)

lemma apply_add_eq:
  "apply_add d oid side p q sy t =
     Some (Some (sy, t), (book_for d sy)
       \<lparr>books := (books (book_for d sy))(symbol_key sy \<mapsto>
            book_step (the (books (book_for d sy) (symbol_key sy))) (OpAdd oid side p q t)),
        order_to_symbol := (order_to_symbol d)(oid \<mapsto> symbol_key sy)\<rparr>)"
  using book_for_some [of d sy] by (auto simp: apply_add_def Let_def)

definition route_of :: "DepthBook \<Rightarrow> OrderId \<Rightarrow> (SymbolKey \<times> SymbolBook) option" where
  "route_of d oid =
     (case order_to_symbol d oid of None \<Rightarrow> None
      | Some k \<Rightarrow> (case books d k of None \<Rightarrow> None
                  | Some b \<Rightarrow> if has_order b oid then Some (k, b) else None))"

lemma route_of_Some:
  "route_of d oid = Some (k, b) \<longleftrightarrow>
     order_to_symbol d oid = Some k \<and> books d k = Some b \<and> has_order b oid"
  by (auto simp: route_of_def split: option.splits)

lemma has_order_iff: "has_order b oid \<longleftrightarrow> (\<exists>st. orders b oid = Some st)"
  by (auto simp: has_order_def)

lemma book_put_same: "books d k = Some b \<Longrightarrow> d\<lparr>books := (books d)(k \<mapsto> b)\<rparr> = d"
  by (simp add: fun_upd_idem)

lemma reduce_order_missing: "orders b oid = None \<Longrightarrow> reduce_order b oid q t = (False, b)"
  by (simp add: reduce_order_def)

lemma reduce_order_fst: "fst (reduce_order b oid q t) = has_order b oid"
  by (auto simp: reduce_order_def modify_order_def has_order_def Let_def split: option.split)

lemma delete_order_missing: "orders b oid = None \<Longrightarrow> delete_order b oid t = (False, b)"
  by (simp add: delete_order_def)

lemma delete_order_fst: "fst (delete_order b oid t) = has_order b oid"
  by (auto simp: delete_order_def has_order_def split: option.split)

definition drop_route :: "DepthBook \<Rightarrow> SymbolBook \<Rightarrow> OrderId \<Rightarrow> (OrderId \<rightharpoonup> SymbolKey)" where
  "drop_route d b oid =
     (if has_order b oid then order_to_symbol d else (order_to_symbol d)(oid := None))"

lemma apply_reduce_eq:
  assumes "db_wf d"
  shows "apply_reduce d oid q t =
    (case route_of d oid of
       None \<Rightarrow> Some (None, d)
     | Some (k, b) \<Rightarrow> let b' = book_step b (OpReduce oid q t) in
         Some (Some (the (symbol_index d k), t),
           d\<lparr>books := (books d)(k \<mapsto> b'), order_to_symbol := drop_route d b' oid\<rparr>))"
proof (cases "order_to_symbol d oid")
  case None
  then show ?thesis by (simp add: apply_reduce_def route_of_def)
next
  case (Some k)
  then obtain b sy where b: "books d k = Some b" and sy: "symbol_index d k = Some sy"
    using db_wf_route_book [OF assms] db_wf_index [OF assms] by blast
  show ?thesis
  proof (cases "has_order b oid")
    case True
    then show ?thesis
      using Some b sy by (simp add: apply_reduce_def route_of_def drop_route_def Let_def case_prod_unfold reduce_order_fst)
  next
    case False
    then have "reduce_order b oid q t = (False, b)" by (simp add: has_order_def reduce_order_missing)
    then show ?thesis
      using Some b sy False by (simp add: apply_reduce_def route_of_def Let_def book_put_same)
  qed
qed

lemma apply_delete_eq:
  assumes "db_wf d"
  shows "apply_delete d oid t =
    (case route_of d oid of
       None \<Rightarrow> Some (None, d)
     | Some (k, b) \<Rightarrow>
         Some (Some (the (symbol_index d k), t),
           d\<lparr>books := (books d)(k \<mapsto> book_step b (OpDelete oid t)),
              order_to_symbol := (order_to_symbol d)(oid := None)\<rparr>))"
proof (cases "order_to_symbol d oid")
  case None
  then show ?thesis by (simp add: apply_delete_def route_of_def)
next
  case (Some k)
  then obtain b sy where b: "books d k = Some b" and sy: "symbol_index d k = Some sy"
    using db_wf_route_book [OF assms] db_wf_index [OF assms] by blast
  show ?thesis
  proof (cases "has_order b oid")
    case True
    then show ?thesis
      using Some b sy by (simp add: apply_delete_def route_of_def Let_def case_prod_unfold delete_order_fst)
  next
    case False
    then have "delete_order b oid t = (False, b)" by (simp add: has_order_def delete_order_missing)
    then show ?thesis
      using Some b sy False by (simp add: apply_delete_def route_of_def Let_def book_put_same)
  qed
qed

lemma apply_replace_eq:
  assumes "db_wf d"
  shows "apply_replace d oid nid p q t =
    (case route_of d oid of
       None \<Rightarrow> Some (None, d)
     | Some (k, b) \<Rightarrow>
         Some (Some (the (symbol_index d k), t),
           d\<lparr>books := (books d)(k \<mapsto> book_step b (OpReplace oid nid p q t)),
              order_to_symbol := (order_to_symbol d)(oid := None, nid \<mapsto> k)\<rparr>))"
proof (cases "order_to_symbol d oid")
  case None
  then show ?thesis by (simp add: apply_replace_def route_of_def)
next
  case (Some k)
  then obtain b sy where "books d k = Some b" "symbol_index d k = Some sy"
    using db_wf_route_book [OF assms] db_wf_index [OF assms] by blast
  then show ?thesis
    using Some by (auto simp: apply_replace_def route_of_def Let_def has_order_def find_order_def
        replace_order_def split: option.splits)
qed

end
