(* ===== verification/Market_View.thy ===== *)
theory Market_View
  imports Depth_Book
begin

text \<open>
  What a \<^verbatim>\<open>DepthBook\<close> means. Abstractly the feed is one map from order ids to the symbol and the
  state of the live order (\<^verbatim>\<open>market\<close>); a message updates that map (\<^verbatim>\<open>feed_step\<close>). \<^verbatim>\<open>apply_msg\<close>
  implements it, and the snapshots show the best levels of the map.
\<close>

section \<open>The abstract feed\<close>

type_synonym market = "OrderId \<rightharpoonup> (SymbolKey \<times> OrderState)"

definition market_add ::
  "market \<Rightarrow> SymbolKey \<Rightarrow> OrderId \<Rightarrow> Side \<Rightarrow> Price \<Rightarrow> Quantity \<Rightarrow> Timestamp \<Rightarrow> market" where
  "market_add g k oid side p q t =
     (if q = 0 \<or> oid \<in> dom g then g
      else g(oid \<mapsto> (k, \<lparr>os_symbol = no_symbol, os_side = side, os_price = p, os_qty = q, os_ts = t\<rparr>)))"

definition market_reduce :: "market \<Rightarrow> OrderId \<Rightarrow> Quantity \<Rightarrow> Timestamp \<Rightarrow> market" where
  "market_reduce g oid q t =
     (case g oid of
        None \<Rightarrow> g
      | Some (k, st) \<Rightarrow>
          if q \<ge> os_qty st then g(oid := None)
          else g(oid \<mapsto> (k, st\<lparr>os_qty := os_qty st - q, os_ts := t\<rparr>)))"

definition market_replace ::
  "market \<Rightarrow> OrderId \<Rightarrow> OrderId \<Rightarrow> Price \<Rightarrow> Quantity \<Rightarrow> Timestamp \<Rightarrow> market" where
  "market_replace g oid nid p q t =
     (case g oid of
        None \<Rightarrow> g
      | Some (k, st) \<Rightarrow> market_add (g(oid := None)) k nid (os_side st) p q t)"

fun feed_step :: "market \<Rightarrow> AnyMessage \<Rightarrow> market" where
  "feed_step g (MAddOrder m) = market_add g (symbol_key (add_symbol m)) (add_order_id m)
     (add_side m) (add_price m) (add_shares m) (ts m)"
| "feed_step g (MAddOrderMPID m) =
     (let base = mpid_base m in market_add g (symbol_key (add_symbol base)) (add_order_id base)
        (add_side base) (add_price base) (add_shares base) (ts base))"
| "feed_step g (MOrderExecuted m) = market_reduce g (exec_order_id m) (executed_shares m) (ts m)"
| "feed_step g (MOrderExecutedWithPrice m) =
     (let base = exec_base m in market_reduce g (exec_order_id base) (executed_shares base) (ts base))"
| "feed_step g (MOrderCancel m) = market_reduce g (cancel_order_id m) (canceled_shares m) (ts m)"
| "feed_step g (MOrderDelete m) = g(delete_order_id m := None)"
| "feed_step g (MOrderReplace m) = market_replace g (original_order_id m) (new_order_id m)
     (replace_price m) (replace_shares m) (ts m)"
| "feed_step g (MTrade m) = g"
| "feed_step g (MSystemEvent m) = g"
| "feed_step g (MStockDirectory m) = g"

text \<open>
  The feed's own discipline: an id that is live under one symbol is not introduced again under
  another one. (A repeated id under the same symbol is ignored by the book.)
\<close>

definition id_free :: "market \<Rightarrow> SymbolKey \<Rightarrow> OrderId \<Rightarrow> bool" where
  "id_free g k oid \<longleftrightarrow> (case g oid of None \<Rightarrow> True | Some (k', st) \<Rightarrow> k' = k)"

fun msg_ok :: "market \<Rightarrow> AnyMessage \<Rightarrow> bool" where
  "msg_ok g (MAddOrder m) \<longleftrightarrow> id_free g (symbol_key (add_symbol m)) (add_order_id m)"
| "msg_ok g (MAddOrderMPID m) \<longleftrightarrow>
     (let base = mpid_base m in id_free g (symbol_key (add_symbol base)) (add_order_id base))"
| "msg_ok g (MOrderReplace m) \<longleftrightarrow>
     (case g (original_order_id m) of None \<Rightarrow> True | Some (k, st) \<Rightarrow> id_free g k (new_order_id m))"
| "msg_ok g m \<longleftrightarrow> True"

definition orders_of :: "market \<Rightarrow> SymbolKey \<Rightarrow> (OrderId \<rightharpoonup> OrderState)" where
  "orders_of g k = (\<lambda>oid. case g oid of None \<Rightarrow> None | Some (k', st) \<Rightarrow> if k' = k then Some st else None)"

definition market_fits :: "market \<Rightarrow> bool" where
  "market_fits g \<longleftrightarrow> (\<forall>k. fits (orders_of g k))"

definition put_orders :: "market \<Rightarrow> SymbolKey \<Rightarrow> (OrderId \<rightharpoonup> OrderState) \<Rightarrow> market" where
  "put_orders g k os = (\<lambda>oid. case os oid of
       Some st \<Rightarrow> Some (k, st)
     | None \<Rightarrow> (case g oid of None \<Rightarrow> None | Some (k', st) \<Rightarrow> if k' = k then None else Some (k', st)))"

lemma orders_of_empty [simp]: "orders_of Map.empty k = Map.empty"
  by (simp add: orders_of_def fun_eq_iff)

lemma market_fits_empty [simp]: "market_fits Map.empty"
  by (simp add: market_fits_def)

lemma put_orders_same [simp]: "put_orders g k (orders_of g k) = g"
  by (auto simp: put_orders_def orders_of_def fun_eq_iff split: option.split)

lemma put_orders_set [simp]:
  "put_orders g k ((orders_of g k)(oid \<mapsto> st)) = g(oid \<mapsto> (k, st))"
  by (auto simp: put_orders_def orders_of_def fun_eq_iff split: option.split)

lemma put_orders_drop [simp]:
  "id_free g k oid \<Longrightarrow> put_orders g k ((orders_of g k)(oid := None)) = g(oid := None)"
  by (auto simp: put_orders_def orders_of_def id_free_def fun_eq_iff split: option.splits)

lemma put_orders_drop_set [simp]:
  "id_free g k oid \<Longrightarrow> put_orders g k ((orders_of g k)(oid := None, nid \<mapsto> st)) = g(oid := None, nid \<mapsto> (k, st))"
  by (auto simp: put_orders_def orders_of_def id_free_def fun_eq_iff split: option.splits)

lemma put_orders_Some:
  "put_orders g k os oid = Some (k', st) \<longleftrightarrow>
     (if k' = k then os oid = Some st else os oid = None \<and> g oid = Some (k', st))"
  by (auto simp: put_orders_def split: option.splits)

lemma orders_of_put:
  assumes "\<And>oid. oid \<in> dom os \<Longrightarrow> id_free g k oid"
  shows "orders_of (put_orders g k os) k' = (if k' = k then os else orders_of g k')"
  using assms by (fastforce simp: put_orders_def orders_of_def id_free_def fun_eq_iff split: option.splits)

lemma id_free_own: "orders_of g k oid = Some st \<Longrightarrow> id_free g k oid"
  by (auto simp: orders_of_def id_free_def split: option.splits if_splits)

lemma orders_of_Some: "orders_of g k oid = Some st \<longleftrightarrow> g oid = Some (k, st)"
  by (auto simp: orders_of_def split: option.splits)

lemma id_free_orders: "id_free g k oid \<Longrightarrow> orders_of g k oid = None \<longleftrightarrow> g oid = None"
  by (auto simp: orders_of_def id_free_def split: option.splits)

section \<open>The market a book holds\<close>

definition global :: "DepthBook \<Rightarrow> market" where
  "global d oid = (case route_of d oid of None \<Rightarrow> None | Some (k, b) \<Rightarrow> Some (k, the (orders b oid)))"

text \<open>Every live order is routed to the book that holds it, so no order is in two books.\<close>

definition routed :: "DepthBook \<Rightarrow> bool" where
  "routed d \<longleftrightarrow> (\<forall>k b oid st. books d k = Some b \<longrightarrow> orders b oid = Some st \<longrightarrow>
     order_to_symbol d oid = Some k)"

definition db_inv :: "DepthBook \<Rightarrow> bool" where
  "db_inv d \<longleftrightarrow> db_wf d \<and> routed d \<and>
     (\<forall>k b. books d k = Some b \<longrightarrow> book_inv b \<and> depth b = db_depth d)"

lemma global_Some:
  "global d oid = Some (k, st) \<longleftrightarrow>
     order_to_symbol d oid = Some k \<and> (\<exists>b. books d k = Some b \<and> orders b oid = Some st)"
  by (auto simp: global_def route_of_def has_order_def split: option.splits)

lemma routed_global:
  assumes "routed d"
  shows "global d oid = Some (k, st) \<longleftrightarrow> (\<exists>b. books d k = Some b \<and> orders b oid = Some st)"
  using assms by (auto simp: global_Some routed_def)

lemma orders_of_global:
  assumes "routed d" "books d k = Some b"
  shows "orders_of (global d) k = orders b"
proof
  fix oid
  show "orders_of (global d) k oid = orders b oid"
    using assms orders_of_Some [of "global d" k oid] routed_global [OF assms(1), of oid k]
    by (cases "orders b oid"; cases "orders_of (global d) k oid") auto
qed

lemma orders_of_global_None:
  assumes "books d k = None"
  shows "orders_of (global d) k = Map.empty"
proof
  fix oid
  show "orders_of (global d) k oid = None"
    using assms orders_of_Some [of "global d" k oid] global_Some [of d oid k]
    by (cases "orders_of (global d) k oid") auto
qed

lemma global_new [simp]: "global (new_depth_book n) = Map.empty"
  by (simp add: fun_eq_iff global_def route_of_def new_depth_book_def)

lemma db_inv_new: "db_inv (new_depth_book n)"
  using db_wf_new [of n] by (auto simp: db_inv_def routed_def new_depth_book_def)

lemma route_of_global:
  "route_of d oid = Some (k, b) \<Longrightarrow> \<exists>st. orders b oid = Some st \<and> global d oid = Some (k, st)"
  using route_of_Some [of d oid k b] by (auto simp: global_def has_order_def)

lemma route_of_None: "route_of d oid = None \<longleftrightarrow> global d oid = None"
  by (auto simp: global_def split: option.split)


section \<open>Storing a book back\<close>

definition store :: "DepthBook \<Rightarrow> SymbolKey \<Rightarrow> SymbolBook \<Rightarrow> (OrderId \<rightharpoonup> SymbolKey) \<Rightarrow> DepthBook" where
  "store d k b r = d\<lparr>books := (books d)(k \<mapsto> b), order_to_symbol := r\<rparr>"

lemma store_frame [simp]:
  "books (store d k b r) = (books d)(k \<mapsto> b)" "order_to_symbol (store d k b r) = r"
  "db_depth (store d k b r) = db_depth d" "has_cb (store d k b r) = has_cb d"
  "symbol_index (store d k b r) = symbol_index d"
  by (simp_all add: store_def)

lemma store_market:
  assumes rt: "routed d"
    and new: "\<And>oid. oid \<in> dom (orders b') \<Longrightarrow> r oid = Some k \<and> id_free (global d) k oid"
    and old: "\<And>oid k' st. global d oid = Some (k', st) \<Longrightarrow> k' \<noteq> k \<Longrightarrow> r oid = order_to_symbol d oid"
  shows "routed (store d k b' r)" and "global (store d k b' r) = put_orders (global d) k (orders b')"
proof -
  show r': "routed (store d k b' r)"
    unfolding routed_def
  proof (intro allI impI)
    fix k' b oid st
    assume b: "books (store d k b' r) k' = Some b" and o: "orders b oid = Some st"
    show "order_to_symbol (store d k b' r) oid = Some k'"
    proof (cases "k' = k")
      case True
      then show ?thesis using b o new [of oid] by auto
    next
      case False
      then have "global d oid = Some (k', st)" using b o routed_global [OF rt] by auto
      then show ?thesis using old False by (auto simp: global_Some)
    qed
  qed
  have "global (store d k b' r) oid = Some (k', st) \<longleftrightarrow>
      put_orders (global d) k (orders b') oid = Some (k', st)" for oid k' st
  proof (cases "k' = k")
    case True
    then show ?thesis by (simp add: routed_global [OF r'] put_orders_Some)
  next
    case False
    moreover have "orders b' oid = None" if "global d oid = Some (k', st)"
      using new [of oid] that False by (cases "orders b' oid") (auto simp: id_free_def)
    ultimately show ?thesis
      by (auto simp: routed_global [OF r'] put_orders_Some routed_global [OF rt])
  qed
  then show "global (store d k b' r) = put_orders (global d) k (orders b')"
    by (intro ext) (metis option.exhaust surj_pair)
qed

lemma db_wf_store':
  "db_wf d \<Longrightarrow> books d k \<noteq> None \<Longrightarrow> (\<And>oid k'. r oid = Some k' \<Longrightarrow> books d k' \<noteq> None) \<Longrightarrow>
   db_wf (store d k b r)"
  unfolding store_def by (rule db_wf_store)

lemma book_step_depth [simp]: "depth (book_step b op) = depth b"
  by (cases op) (auto simp: add_order_def modify_order_def reduce_order_def delete_order_def
      replace_order_def Let_def split: option.split)

text \<open>One book operation, stored back with routes that agree with it, keeps the invariant.\<close>

lemma store_step:
  assumes inv: "db_inv d" and b: "books d k = Some b"
    and r: "\<And>oid. oid \<in> dom (spec_step (orders b) op) \<Longrightarrow> r oid = Some k \<and> id_free (global d) k oid"
    and old: "\<And>oid k' st. global d oid = Some (k', st) \<Longrightarrow> k' \<noteq> k \<Longrightarrow> r oid = order_to_symbol d oid"
    and sub: "\<And>oid k'. r oid = Some k' \<Longrightarrow> books d k' \<noteq> None"
    and g: "g = put_orders (global d) k (spec_step (orders b) op)" and fit: "market_fits g"
  shows "db_inv (store d k (book_step b op) r) \<and> global (store d k (book_step b op) r) = g"
proof -
  have rt: "routed d" and wf: "db_wf d" and bi: "book_inv b" "depth b = db_depth d"
    using inv b by (auto simp: db_inv_def)
  have os: "orders (book_step b op) = spec_step (orders b) op"
    using bi by (simp add: orders_book_step book_inv_def)
  note m = store_market [OF rt, of "book_step b op" r k, unfolded os, OF r old]
  have "fits (spec_step (orders b) op)"
    using fit r orders_of_put [of "spec_step (orders b) op" "global d" k k]
    by (auto simp: market_fits_def g dest: spec [of _ k])
  then have "book_inv (book_step b op)" using bi by (simp add: book_step_inv)
  moreover have "db_wf (store d k (book_step b op) r)"
    using wf b sub by (intro db_wf_store') auto
  ultimately show ?thesis
    using m inv bi by (auto simp: db_inv_def g)
qed

lemma book_for_inv:
  assumes "db_inv d"
  shows "db_inv (book_for d sy)" and "global (book_for d sy) = global d"
proof -
  have wf: "db_wf d" and rt: "routed d" using assms by (auto simp: db_inv_def)
  show "global (book_for d sy) = global d"
    using db_wf_route_book [OF wf] by (fastforce simp: fun_eq_iff global_def route_of_def books_book_for split: option.split)
  show "db_inv (book_for d sy)"
    using assms db_wf_book_for [OF wf] new_book_inv [of "db_depth d"]
    by (auto simp: db_inv_def routed_def books_book_for new_book_def split: if_splits)
qed

end
