(* ===== verification/Feed_Refinement.thy ===== *)
theory Feed_Refinement
  imports Market_View
begin

text \<open>
  \<^verbatim>\<open>DepthBook::apply\<close> implements \<^verbatim>\<open>feed_step\<close>: one lemma per kind of message, the simulation step, and
  the interpretation of the \<^verbatim>\<open>simulation\<close> interface on the model, which lifts it to streams.
\<close>

section \<open>One message\<close>

definition implements :: "DepthBook \<Rightarrow> effect \<Rightarrow> market \<Rightarrow> bool" where
  "implements d eff g \<longleftrightarrow> (\<exists>e d'. eff = Some (e, d') \<and> db_inv d' \<and> global d' = g \<and>
     has_cb d' = has_cb d \<and> db_depth d' = db_depth d)"

lemma implements_skip: "db_inv d \<Longrightarrow> implements d (Some (None, d)) (global d)"
  by (simp add: implements_def)

lemma implements_store:
  assumes "db_inv d" "books d k = Some b"
    and "\<And>oid. oid \<in> dom (spec_step (orders b) op) \<Longrightarrow> r oid = Some k \<and> id_free (global d) k oid"
    and "\<And>oid k' st. global d oid = Some (k', st) \<Longrightarrow> k' \<noteq> k \<Longrightarrow> r oid = order_to_symbol d oid"
    and "\<And>oid k'. r oid = Some k' \<Longrightarrow> books d k' \<noteq> None"
    and "g = put_orders (global d) k (spec_step (orders b) op)" "market_fits g"
  shows "implements d (Some (e, d\<lparr>books := (books d)(k \<mapsto> book_step b op), order_to_symbol := r\<rparr>)) g"
  using store_step [OF assms]
  by (simp add: implements_def store_def)

lemma route_orders:
  assumes "db_inv d" "route_of d oid = Some (k, b)"
  shows "books d k = Some b" and "order_to_symbol d oid = Some k" and "orders b = orders_of (global d) k"
    and "\<exists>st. orders b oid = Some st \<and> global d oid = Some (k, st)"
  using assms orders_of_global [of d k b] route_of_global [of d oid k b]
  by (auto simp: route_of_Some db_inv_def)

lemma db_inv_wf: "db_inv d \<Longrightarrow> db_wf d"
  by (simp add: db_inv_def)

lemma global_route: "global d oid = Some (k, st) \<Longrightarrow> order_to_symbol d oid = Some k"
  by (simp add: global_Some)

lemma book_orders_route: "db_inv d \<Longrightarrow> books d k = Some b \<Longrightarrow> orders b oid = Some st \<Longrightarrow>
    order_to_symbol d oid = Some k \<and> id_free (global d) k oid"
  by (auto simp: db_inv_def routed_def id_free_def global_Some split: option.split)

text \<open>The routes change only at ids that no other symbol holds.\<close>

lemma implements_update:
  assumes inv: "db_inv d" and b: "books d k = Some b"
    and ids: "\<And>oid. oid \<in> ids \<Longrightarrow> id_free (global d) k oid \<and>
      r oid = (if oid \<in> dom (spec_step (orders b) op) then Some k else r oid) \<and> r oid \<in> {None, Some k}"
    and others: "\<And>oid. oid \<notin> ids \<Longrightarrow> r oid = order_to_symbol d oid \<and>
      (oid \<in> dom (spec_step (orders b) op) \<longrightarrow> oid \<in> dom (orders b))"
    and g: "g = put_orders (global d) k (spec_step (orders b) op)" "market_fits g"
  shows "implements d (Some (e, d\<lparr>books := (books d)(k \<mapsto> book_step b op), order_to_symbol := r\<rparr>)) g"
proof (rule implements_store [OF inv b _ _ _ g])
  fix oid assume "oid \<in> dom (spec_step (orders b) op)"
  then show "r oid = Some k \<and> id_free (global d) k oid"
    using ids [of oid] others [of oid] book_orders_route [OF inv b, of oid]
    by (cases "oid \<in> ids") auto
next
  fix oid k' st assume "global d oid = Some (k', st)" "k' \<noteq> k"
  then show "r oid = order_to_symbol d oid"
    using ids [of oid] others [of oid] by (cases "oid \<in> ids") (auto simp: id_free_def)
next
  fix oid k' assume "r oid = Some k'"
  then show "books d k' \<noteq> None"
    using ids [of oid] others [of oid] b db_wf_route_book [OF db_inv_wf [OF inv], of oid]
    by (cases "oid \<in> ids") auto
qed

lemma apply_add_implements:
  assumes inv: "db_inv d" and free: "id_free (global d) (symbol_key sy) oid"
    and fit: "market_fits (market_add (global d) (symbol_key sy) oid side p q t)"
  shows "implements d (apply_add d oid side p q sy t) (market_add (global d) (symbol_key sy) oid side p q t)"
proof -
  let ?d = "book_for d sy" and ?k = "symbol_key sy"
  obtain b where b: "books ?d ?k = Some b" using book_for_some by blast
  note inv' = book_for_inv(1) [OF inv, of sy] and g' = book_for_inv(2) [OF inv, of sy]
  have ob: "orders b = orders_of (global d) ?k"
    using orders_of_global [OF _ b] inv' g' by (simp add: db_inv_def)
  let ?op = "OpAdd oid side p q t"
  have g: "market_add (global d) ?k oid side p q t = put_orders (global ?d) ?k (spec_step (orders b) ?op)"
    using free id_free_orders [OF free] by (auto simp: g' ob spec_add_def market_add_def)
  have "implements ?d (Some (Some (sy, t), ?d\<lparr>books := (books ?d)(?k \<mapsto> book_step b ?op),
      order_to_symbol := (order_to_symbol d)(oid \<mapsto> ?k)\<rparr>)) (market_add (global d) ?k oid side p q t)"
    by (rule implements_update [OF inv' b _ _ g fit, where ids = "{oid}"])
       (auto simp: g' free spec_add_def)
  then show ?thesis by (simp add: apply_add_eq b implements_def)
qed

lemma apply_reduce_implements:
  assumes inv: "db_inv d" and fit: "market_fits (market_reduce (global d) oid q t)"
  shows "implements d (apply_reduce d oid q t) (market_reduce (global d) oid q t)"
proof (cases "route_of d oid")
  case None
  then have "market_reduce (global d) oid q t = global d"
    using route_of_None by (simp add: market_reduce_def)
  then show ?thesis using None inv by (simp add: apply_reduce_eq db_inv_wf implements_skip)
next
  case (Some kb)
  obtain k b where kb: "kb = (k, b)" by (cases kb)
  note r = route_orders [OF inv Some [unfolded kb]]
  obtain st where st: "orders b oid = Some st" "global d oid = Some (k, st)" using r(4) by blast
  have free: "id_free (global d) k oid" using st by (simp add: id_free_def)
  let ?op = "OpReduce oid q t"
  have nz: "os_qty st \<noteq> 0" using inv r(1) st by (auto simp: db_inv_def book_inv_def live_def)
  have os: "spec_step (orders b) ?op = (if q \<ge> os_qty st then (orders b)(oid := None)
      else (orders b)(oid \<mapsto> st\<lparr>os_qty := os_qty st - q, os_ts := t\<rparr>))"
    by (auto simp: st spec_set_qty_def min_def)
  have g: "market_reduce (global d) oid q t = put_orders (global d) k (spec_step (orders b) ?op)"
    unfolding os using free by (simp add: market_reduce_def st r(3))
  have "live (orders b)" using inv r(1) by (auto simp: db_inv_def book_inv_def)
  then have has: "has_order (book_step b ?op) x \<longleftrightarrow> x \<in> dom (spec_step (orders b) ?op)" for x
    unfolding has_order_def by (subst orders_book_step) auto
  have "implements d (Some (Some (the (symbol_index d k), t), d\<lparr>books := (books d)(k \<mapsto> book_step b ?op),
      order_to_symbol := drop_route d (book_step b ?op) oid\<rparr>)) (market_reduce (global d) oid q t)"
    by (rule implements_update [OF inv r(1) _ _ g fit, where ids = "{oid}"])
       (simp_all only: drop_route_def has os, auto simp: free r(2) split: if_splits)
  then show ?thesis by (simp add: apply_reduce_eq db_inv_wf inv Some kb Let_def)
qed

lemma apply_delete_implements:
  assumes inv: "db_inv d" and fit: "market_fits ((global d)(oid := None))"
  shows "implements d (apply_delete d oid t) ((global d)(oid := None))"
proof (cases "route_of d oid")
  case None
  then have "(global d)(oid := None) = global d" by (simp add: route_of_None fun_upd_idem)
  then show ?thesis using None inv by (simp add: apply_delete_eq db_inv_wf implements_skip)
next
  case (Some kb)
  obtain k b where kb: "kb = (k, b)" by (cases kb)
  note r = route_orders [OF inv Some [unfolded kb]]
  have free: "id_free (global d) k oid" using r(4) by (auto simp: id_free_def)
  then have g: "(global d)(oid := None) = put_orders (global d) k (spec_step (orders b) (OpDelete oid t))"
    by (simp add: r(3))
  have "implements d (Some (Some (the (symbol_index d k), t),
      d\<lparr>books := (books d)(k \<mapsto> book_step b (OpDelete oid t)),
        order_to_symbol := (order_to_symbol d)(oid := None)\<rparr>)) ((global d)(oid := None))"
    by (rule implements_update [OF inv r(1) _ _ g fit, where ids = "{oid}"]) (auto simp: free)
  then show ?thesis by (simp add: apply_delete_eq db_inv_wf inv Some kb)
qed

lemma apply_replace_implements:
  assumes inv: "db_inv d" and fit: "market_fits (market_replace (global d) oid nid p q t)"
    and ok: "case global d oid of None \<Rightarrow> True | Some (k, st) \<Rightarrow> id_free (global d) k nid"
  shows "implements d (apply_replace d oid nid p q t) (market_replace (global d) oid nid p q t)"
proof (cases "route_of d oid")
  case None
  then have "market_replace (global d) oid nid p q t = global d"
    using route_of_None by (simp add: market_replace_def)
  then show ?thesis using None inv by (simp add: apply_replace_eq db_inv_wf implements_skip)
next
  case (Some kb)
  obtain k b where kb: "kb = (k, b)" by (cases kb)
  note r = route_orders [OF inv Some [unfolded kb]]
  obtain st where st: "orders b oid = Some st" "global d oid = Some (k, st)" using r(4) by blast
  have free: "id_free (global d) k oid" "id_free (global d) k nid" using st ok by (simp_all add: id_free_def)
  have dom: "nid \<in> dom ((orders b)(oid := None)) \<longleftrightarrow> nid \<in> dom ((global d)(oid := None))"
    using id_free_orders [OF free(2)] by (auto simp: r(3) domIff)
  have os: "spec_step (orders b) (OpReplace oid nid p q t) =
      spec_add ((orders b)(oid := None)) nid (os_side st) p q t"
    by (simp add: st)
  have g: "market_replace (global d) oid nid p q t =
      put_orders (global d) k (spec_step (orders b) (OpReplace oid nid p q t))"
    unfolding os market_replace_def market_add_def spec_add_def st dom option.case prod.case
    using free by (simp add: r(3) del: fun_upd_apply)
  have "implements d (Some (Some (the (symbol_index d k), t),
      d\<lparr>books := (books d)(k \<mapsto> book_step b (OpReplace oid nid p q t)),
        order_to_symbol := (order_to_symbol d)(oid := None, nid \<mapsto> k)\<rparr>))
      (market_replace (global d) oid nid p q t)"
    by (rule implements_update [OF inv r(1) _ _ g fit, where ids = "{oid, nid}"])
       (simp_all only: os, auto simp: free spec_add_def split: if_splits)
  then show ?thesis by (simp add: apply_replace_eq db_inv_wf inv Some kb)
qed

lemma visit_msg_implements:
  assumes "db_inv d" "msg_ok (global d) m" "market_fits (feed_step (global d) m)"
  shows "implements d (visit_msg d m) (feed_step (global d) m)"
  using assms
  by (cases m) (simp_all add: Let_def apply_add_implements apply_reduce_implements
      apply_delete_implements apply_replace_implements implements_skip)


section \<open>What is reported\<close>

text \<open>
  The symbol and time stamp of the change a message reports; \<^verbatim>\<open>None\<close> where the message is ignored.
\<close>

fun msg_target :: "market \<Rightarrow> AnyMessage \<Rightarrow> (SymbolKey \<times> Timestamp) option" where
  "msg_target g (MAddOrder m) = Some (symbol_key (add_symbol m), ts m)"
| "msg_target g (MAddOrderMPID m) = Some (symbol_key (add_symbol (mpid_base m)), ts (mpid_base m))"
| "msg_target g (MOrderExecuted m) = map_option (\<lambda>x. (fst x, ts m)) (g (exec_order_id m))"
| "msg_target g (MOrderExecutedWithPrice m) =
     map_option (\<lambda>x. (fst x, ts (exec_base m))) (g (exec_order_id (exec_base m)))"
| "msg_target g (MOrderCancel m) = map_option (\<lambda>x. (fst x, ts m)) (g (cancel_order_id m))"
| "msg_target g (MOrderDelete m) = map_option (\<lambda>x. (fst x, ts m)) (g (delete_order_id m))"
| "msg_target g (MOrderReplace m) = map_option (\<lambda>x. (fst x, ts m)) (g (original_order_id m))"
| "msg_target g m = None"

definition market_snapshot :: "market \<Rightarrow> nat \<Rightarrow> Symbol \<Rightarrow> Timestamp \<Rightarrow> DepthSnapshot" where
  "market_snapshot g n sy t = \<lparr>snap_symbol = sy, snap_bids = spec_bids (orders_of g (symbol_key sy)) n,
     snap_asks = spec_asks (orders_of g (symbol_key sy)) n, snap_ts = t\<rparr>"

lemma spec_levels_empty [simp]: "spec_bids Map.empty n = []" "spec_asks Map.empty n = []"
  by (simp_all add: spec_bids_def spec_asks_def side_prices_def)

lemma snapshot_eq:
  assumes "db_inv d"
  shows "snapshot d sy = market_snapshot (global d) (db_depth d) sy
    (case books d (symbol_key sy) of None \<Rightarrow> 0 | Some b \<Rightarrow> last_ts b)"
  using assms
  by (auto simp: snapshot_def market_snapshot_def orders_of_global_None orders_of_global db_inv_def
      book_shows split: option.split)

lemma emit_snapshot_eq:
  assumes "db_inv d" "books d (symbol_key sy) \<noteq> None"
  shows "emit_snapshot d sy t =
    (if has_cb d then Some (market_snapshot (global d) (db_depth d) sy t) else None)"
  using assms
  by (auto simp: emit_snapshot_def market_snapshot_def orders_of_global db_inv_def book_shows)

text \<open>The symbol reported has the key of the target, and a book exists under it.\<close>

definition reports :: "(SymbolKey \<times> Timestamp) option \<Rightarrow> effect \<Rightarrow> bool" where
  "reports tgt eff \<longleftrightarrow> (\<exists>e d'. eff = Some (e, d') \<and> map_option (\<lambda>(sy, t). (symbol_key sy, t)) e = tgt \<and>
     (\<forall>k t. tgt = Some (k, t) \<longrightarrow> books d' k \<noteq> None))"

lemma reports_routed:
  assumes inv: "db_inv d"
    and eq: "eff = (case route_of d oid of None \<Rightarrow> Some (None, d)
      | Some (k, b) \<Rightarrow> Some (Some (the (symbol_index d k), t), f k b))"
    and f: "\<And>k b. books (f k b) k \<noteq> None"
  shows "reports (map_option (\<lambda>x. (fst x, t)) (global d oid)) eff"
proof (cases "route_of d oid")
  case None
  then have "global d oid = None" using route_of_None by simp
  then show ?thesis using None by (simp add: eq reports_def)
next
  case (Some kb)
  obtain k b where kb: "kb = (k, b)" by (cases kb)
  note r = route_orders [OF inv Some [unfolded kb]]
  have "symbol_key (the (symbol_index d k)) = k"
    using db_wf_index [OF db_inv_wf [OF inv] r(1)] by auto
  then show ?thesis using r(4) Some f [of k b] by (auto simp: eq kb reports_def)
qed

lemma visit_msg_reports:
  assumes "db_inv d"
  shows "reports (msg_target (global d) m) (visit_msg d m)"
proof -
  note wf = db_inv_wf [OF assms]
  have add: "reports (Some (symbol_key sy, t)) (apply_add d oid side p q sy t)" for oid side p q sy t
    by (simp add: apply_add_eq reports_def)
  have red: "reports (map_option (\<lambda>x. (fst x, t)) (global d oid)) (apply_reduce d oid q t)" for oid q t
    by (rule reports_routed [OF assms apply_reduce_eq [OF wf, unfolded Let_def]]) simp
  have del: "reports (map_option (\<lambda>x. (fst x, t)) (global d oid)) (apply_delete d oid t)" for oid t
    by (rule reports_routed [OF assms apply_delete_eq [OF wf]]) simp
  have rep: "reports (map_option (\<lambda>x. (fst x, t)) (global d oid)) (apply_replace d oid nid p q t)"
    for oid nid p q t
    by (rule reports_routed [OF assms apply_replace_eq [OF wf]]) simp
  have skip: "reports None (Some (None, d))" by (simp add: reports_def)
  show ?thesis by (cases m) (simp_all add: Let_def add red del rep skip)
qed

lemma apply_msg_implements:
  assumes inv: "db_inv d" and ok: "msg_ok (global d) m" and fit: "market_fits (feed_step (global d) m)"
  shows "\<exists>d'. apply_msg d m =
      Some (msg_target (global d) m \<noteq> None,
        (if has_cb d then map_option (\<lambda>(k, t).
           market_snapshot (feed_step (global d) m) (db_depth d) (symbol_of_key k) t)
           (msg_target (global d) m) else None), d') \<and>
    db_inv d' \<and> global d' = feed_step (global d) m \<and> has_cb d' = has_cb d \<and> db_depth d' = db_depth d"
proof -
  obtain e d' where v: "visit_msg d m = Some (e, d')" and d': "db_inv d'"
      "global d' = feed_step (global d) m" "has_cb d' = has_cb d" "db_depth d' = db_depth d"
    using visit_msg_implements [OF assms] by (auto simp: implements_def)
  have tgt: "map_option (\<lambda>(sy, t). (symbol_key sy, t)) e = msg_target (global d) m"
    "\<forall>k t. msg_target (global d) m = Some (k, t) \<longrightarrow> books d' k \<noteq> None"
    using visit_msg_reports [OF inv, of m] v by (auto simp: reports_def)
  show ?thesis
  proof (cases e)
    case None
    then show ?thesis using v tgt d' by (simp add: apply_msg_def)
  next
    case (Some st)
    obtain sy t where st: "st = (sy, t)" by (cases st)
    have m: "msg_target (global d) m = Some (symbol_key sy, t)" using tgt Some st by simp
    then have "books d' (symbol_key sy) \<noteq> None" using tgt(2) by blast
    note em = emit_snapshot_eq [OF d'(1) this, of t]
    show ?thesis
      using d' by (simp add: apply_msg_def v Some st m em)
  qed
qed


section \<open>Streams of messages\<close>

definition apply_state :: "DepthBook \<Rightarrow> AnyMessage \<Rightarrow> DepthBook option" where
  "apply_state d m = map_option (\<lambda>(changed, snap, d'). d') (apply_msg d m)"

definition db_good :: "nat \<Rightarrow> bool \<Rightarrow> DepthBook \<Rightarrow> bool" where
  "db_good n cb d \<longleftrightarrow> db_inv d \<and> db_depth d = n \<and> has_cb d = cb"

lemma db_good_new: "db_good n False (new_depth_book n)"
  using db_inv_new [of n] by (simp add: db_good_def new_depth_book_def)

interpretation db: simulation "db_good n cb" global apply_state feed_step msg_ok market_fits for n cb
  by unfold_locales (use apply_msg_implements in \<open>fastforce simp: apply_state_def db_good_def\<close>)

end
