(* ===== verification/Book_Properties.thy ===== *)
theory Book_Properties
  imports Feed_Refinement "HOL-Library.Disjoint_Sets"
begin

text \<open>
  The properties of the order books (\<^verbatim>\<open>src/core/depth_book.cpp\<close>): the book of one symbol against
  the map of its live orders, and the books of all symbols against the feed.
\<close>

section \<open>One symbol\<close>


lemma fits_small:
  assumes "finite (dom os)" "(\<Sum>oid \<in> dom os. unat (os_qty (the (os oid)))) < 2 ^ 32"
  shows "fits os"
proof -
  have "level_qty os bid p \<le> (\<Sum>oid \<in> dom os. unat (os_qty (the (os oid))))" for bid p
    unfolding level_qty_def using assms(1) by (intro sum_mono2) (auto simp: orders_at_def)
  then show ?thesis using assms(2) by (auto simp: fits_def intro: le_less_trans)
qed


text \<open>The totals of a price level are 32 bits wide and nothing checks them: two resting orders of
  \<^verbatim>\<open>2^31\<close> shares at one price give a level that shows zero shares for two live orders, which the
  book's own run-time check rejects.\<close>

theorem level_total_wraps:
  "let b = foldl book_step (new_book 10) [OpAdd 1 Buy 1000 0x80000000 0, OpAdd 2 Buy 1000 0x80000000 0] in
     top_bids b = [\<lparr>price = 1000, total_qty = 0, order_count = 2\<rparr>] \<and>
     has_order b 1 \<and> has_order b 2 \<and> \<not> invariants_ok b"
  by code_simp


section \<open>All symbols\<close>

text \<open>Structural safety needs no assumption on the messages.\<close>

lemma visit_msg_wf:
  assumes "db_wf d"
  shows "\<exists>e d'. visit_msg d m = Some (e, d') \<and> db_wf d'"
proof -
  have store: "db_wf (d\<lparr>books := (books d)(k \<mapsto> b), order_to_symbol := r\<rparr>)"
    if "books d k = Some b0" and "\<And>oid k'. r oid = Some k' \<Longrightarrow> order_to_symbol d oid = Some k' \<or> k' = k"
    for k b b0 r
    using that db_wf_route_book [OF assms] by (intro db_wf_store [OF assms]) force+
  have add: "\<exists>e d'. apply_add d oid side p q sy t = Some (e, d') \<and> db_wf d'" for oid side p q sy t
    using db_wf_book_for [OF assms, of sy] book_for_some [of d sy] db_wf_route_book [OF db_wf_book_for [OF assms, of sy]]
    by (auto simp: apply_add_eq intro!: db_wf_store split: if_splits)
  have red: "\<exists>e d'. apply_reduce d oid q t = Some (e, d') \<and> db_wf d'" for oid q t
    using assms store [where r = "order_to_symbol d"]
    by (auto simp: apply_reduce_eq [OF assms] route_of_Some Let_def drop_route_def split: option.split
        intro!: store split: if_splits)
  have del: "\<exists>e d'. apply_delete d oid t = Some (e, d') \<and> db_wf d'" for oid t
    using assms
    by (auto simp: apply_delete_eq [OF assms] route_of_Some split: option.split intro!: store split: if_splits)
  have rep: "\<exists>e d'. apply_replace d oid nid p q t = Some (e, d') \<and> db_wf d'" for oid nid p q t
    using assms
    by (auto simp: apply_replace_eq [OF assms] route_of_Some split: option.split intro!: store split: if_splits)
  show ?thesis using assms by (cases m) (simp_all add: Let_def add red del rep)
qed

lemma apply_state_wf: "db_wf d \<Longrightarrow> \<exists>d'. apply_state d m = Some d' \<and> db_wf d'"
  using visit_msg_wf [of d m]
  by (auto simp: apply_state_def apply_msg_def split: option.split)

interpretation db_safe: simulation db_wf "\<lambda>d. ()" apply_state "\<lambda>g m. ()" "\<lambda>g m. True" "\<lambda>g. True"
  by unfold_locales (use apply_state_wf in blast)

text \<open>C39: the books are well formed after any stream of messages, however malformed: no message makes them
  dereference a missing entry, the stream is processed to its end, and the result has a symbol
  recorded for every book, under that symbol's own key, and a book for every routed order.\<close>

theorem apply_any_stream_safe: "\<exists>d. run_steps apply_state (new_depth_book n) ms = Some d \<and> db_wf d"
proof -
  have "admissible (\<lambda>g m. ()) (\<lambda>g m. True) (\<lambda>g. True) u ms" for u by (induction ms) simp_all
  then show ?thesis using db_safe.run_sim [OF db_wf_new] by blast
qed

text \<open>C1: on a well-behaved feed (no id live under two symbols at once, level totals within 32 bits) the
  books implement the feed: after any stream the live orders of all symbols are exactly those
  the messages define, and the snapshot of every symbol shows the best levels of its orders.\<close>

theorem depth_book_implements_feed:
  assumes "admissible feed_step msg_ok market_fits Map.empty ms"
  shows "\<exists>d t. run_steps apply_state (new_depth_book n) ms = Some d \<and>
    global d = foldl feed_step Map.empty ms \<and>
    snapshot d sy = market_snapshot (foldl feed_step Map.empty ms) n sy t"
proof -
  obtain d where d: "run_steps apply_state (new_depth_book n) ms = Some d" "db_good n False d"
      "global d = foldl feed_step Map.empty ms"
    using db.run_sim [where ms = ms, OF db_good_new [of n]] assms by auto
  then show ?thesis using snapshot_eq [of d sy] by (auto simp: db_good_def)
qed

lemma market_fits_small:
  assumes "finite (dom g)" "(\<Sum>oid \<in> dom g. unat (os_qty (snd (the (g oid))))) < 2 ^ 32"
  shows "market_fits g"
proof -
  have "fits (orders_of g k)" for k
  proof (rule fits_small)
    have sub: "dom (orders_of g k) \<subseteq> dom g" by (auto simp: orders_of_def split: option.splits)
    then show "finite (dom (orders_of g k))" using assms(1) finite_subset by blast
    have "(\<Sum>oid \<in> dom (orders_of g k). unat (os_qty (the (orders_of g k oid)))) =
        (\<Sum>oid \<in> dom (orders_of g k). unat (os_qty (snd (the (g oid)))))"
      by (intro sum.cong) (auto simp: orders_of_def split: option.splits if_splits)
    also have "\<dots> \<le> (\<Sum>oid \<in> dom g. unat (os_qty (snd (the (g oid)))))"
      using sub assms(1) by (intro sum_mono2) auto
    finally show "(\<Sum>oid \<in> dom (orders_of g k). unat (os_qty (the (orders_of g k oid)))) < 2 ^ 32"
      using assms(2) by simp
  qed
  then show ?thesis by (simp add: market_fits_def)
qed


theorem depth_book_implements_feed_witness:
  "\<exists>d. run_steps apply_state (new_depth_book 5)
      [MAddOrder \<lparr>stock_locate = 1, tracking_number = 0, ts = 9, add_order_id = 7, add_side = Buy,
         add_shares = 300, add_symbol = make_symbol [0x41], add_price = 1000\<rparr>] = Some d \<and>
    global d 7 = Some (symbol_key (make_symbol [0x41]),
      \<lparr>os_symbol = no_symbol, os_side = Buy, os_price = 1000, os_qty = 300, os_ts = 9\<rparr>)"
proof -
  let ?m = "MAddOrder \<lparr>stock_locate = 1, tracking_number = 0, ts = 9, add_order_id = 7, add_side = Buy,
         add_shares = 300, add_symbol = make_symbol [0x41], add_price = 1000\<rparr>"
  have "admissible feed_step msg_ok market_fits Map.empty [?m]"
    by (auto simp: id_free_def market_add_def intro!: market_fits_small)
  from depth_book_implements_feed [OF this, of 5 "make_symbol [0x41]"]
  show ?thesis by (auto simp: market_add_def)
qed

text \<open>What \<^verbatim>\<open>apply\<close> reports is exact: it returns true exactly for an add or for a message about a live
  order, and then passes to the callback the new best levels of precisely the symbol changed,
  stamped with the message's time.\<close>

theorem apply_reports_change:
  assumes "db_inv d" and "msg_ok (global d) m" and "market_fits (feed_step (global d) m)"
  shows "\<exists>d'. apply_msg d m =
      Some (msg_target (global d) m \<noteq> None,
        (if has_cb d then map_option (\<lambda>(k, t).
           market_snapshot (feed_step (global d) m) (db_depth d) (symbol_of_key k) t)
           (msg_target (global d) m) else None), d')"
  using apply_msg_implements [OF assms] by blast

theorem apply_reports_change_witness:
  "\<exists>d'. apply_msg (new_depth_book 5)
      (MOrderDelete \<lparr>stock_locate = 1, tracking_number = 0, ts = 9, delete_order_id = 7\<rparr>) = Some (False, None, d')"
  using apply_reports_change [OF db_inv_new [of 5], of
      "MOrderDelete \<lparr>stock_locate = 1, tracking_number = 0, ts = 9, delete_order_id = 7\<rparr>"]
  by simp

lemma feed_step_other:
  assumes ok: "msg_ok g m" and k: "\<And>k' t. msg_target g m = Some (k', t) \<Longrightarrow> k' \<noteq> k"
  shows "orders_of (feed_step g m) k = orders_of g k"
proof -
  have add: "orders_of (market_add g k' oid side p q t) k = orders_of g k"
    if "id_free g k' oid" "k' \<noteq> k" for g k' oid side p q t
    using that by (auto simp: market_add_def orders_of_def fun_eq_iff id_free_def split: option.splits)
  have drop: "orders_of (g(oid := None)) k = orders_of g k"
    if "\<And>k' st. g oid = Some (k', st) \<Longrightarrow> k' \<noteq> k" for oid
    using that by (force simp: orders_of_def fun_eq_iff split: option.splits)
  have red: "orders_of (market_reduce g oid q t) k = orders_of g k"
    if "\<And>k' st. g oid = Some (k', st) \<Longrightarrow> k' \<noteq> k" for oid q t
    using that by (force simp: market_reduce_def orders_of_def fun_eq_iff split: option.splits)
  have rep: "orders_of (market_replace g oid nid p q t) k = orders_of g k"
    if "\<And>k' st. g oid = Some (k', st) \<Longrightarrow> k' \<noteq> k" "case g oid of None \<Rightarrow> True | Some (k, st) \<Rightarrow> id_free g k nid"
    for oid nid p q t
  proof (cases "g oid")
    case (Some x)
    then have "id_free (g(oid := None)) (fst x) nid" "fst x \<noteq> k"
      using that by (auto simp: id_free_def split: option.splits)
    then show ?thesis using Some drop [of oid] that(1) by (auto simp: market_replace_def add split: prod.split)
  qed (simp add: market_replace_def)
  show ?thesis using ok k
    by (cases m) (auto simp: Let_def intro!: add red drop rep)
qed

text \<open>A message changes the book of the symbol it reports and of no other: every other symbol's best
  levels stay as they were.\<close>

theorem apply_isolates_symbols:
  assumes "db_inv d" and "msg_ok (global d) m" and "market_fits (feed_step (global d) m)"
    and "apply_state d m = Some d'"
    and "\<And>t. msg_target (global d) m \<noteq> Some (symbol_key sy, t)"
  shows "snap_bids (snapshot d' sy) = snap_bids (snapshot d sy) \<and>
         snap_asks (snapshot d' sy) = snap_asks (snapshot d sy)"
proof -
  have d': "db_inv d'" "global d' = feed_step (global d) m" "db_depth d' = db_depth d"
    using apply_msg_implements [OF assms(1-3)] assms(4) by (auto simp: apply_state_def)
  have "orders_of (feed_step (global d) m) (symbol_key sy) = orders_of (global d) (symbol_key sy)"
    using assms(2,5) by (intro feed_step_other) auto
  then show ?thesis
    using snapshot_eq [OF d'(1), of sy] snapshot_eq [OF assms(1), of sy]
    by (simp add: d' market_snapshot_def)
qed

theorem apply_isolates_symbols_witness:
  "\<exists>d'. apply_state (new_depth_book 5)
     (MAddOrder \<lparr>stock_locate = 1, tracking_number = 0, ts = 9, add_order_id = 7, add_side = Buy,
         add_shares = 300, add_symbol = make_symbol [0x41], add_price = 1000\<rparr>) = Some d' \<and>
    snap_bids (snapshot d' (make_symbol [0x42])) = snap_bids (snapshot (new_depth_book 5) (make_symbol [0x42]))"
proof -
  let ?m = "MAddOrder \<lparr>stock_locate = 1, tracking_number = 0, ts = 9, add_order_id = 7, add_side = Buy,
         add_shares = 300, add_symbol = make_symbol [0x41], add_price = 1000\<rparr>"
  obtain d' where d': "apply_state (new_depth_book 5) ?m = Some d'"
    using apply_state_wf [OF db_wf_new] by blast
  have ok: "msg_ok (global (new_depth_book 5)) ?m" by (simp add: id_free_def)
  have fit: "market_fits (feed_step (global (new_depth_book 5)) ?m)"
    by (auto simp: market_add_def intro!: market_fits_small)
  have "make_symbol [0x41] \<noteq> make_symbol [0x42]" by (simp add: make_symbol_def symbol_at_def kSymbolLen_def)
  then have "snap_bids (snapshot d' (make_symbol [0x42])) = snap_bids (snapshot (new_depth_book 5) (make_symbol [0x42]))"
    using apply_isolates_symbols [OF db_inv_new ok fit d', of "make_symbol [0x42]"] by simp
  then show ?thesis using d' by blast
qed

text \<open>The number of live orders the books report is the number of live orders of the feed: none is
  counted twice and none is lost between symbols.\<close>

theorem total_orders_exact:
  assumes "db_inv d"
  shows "total_orders d = card (dom (global d))"
proof -
  have fin: "finite (dom (books d))" and rt: "routed d" using assms by (auto simp: db_inv_def db_wf_def)
  let ?S = "\<lambda>k. dom (orders (the (books d k)))"
  have fo: "finite (?S k)" if "k \<in> dom (books d)" for k
    using assms that by (auto simp: db_inv_def book_inv_def live_def)
  have "dom (global d) = (\<Union>k \<in> dom (books d). ?S k)"
    using routed_global [OF rt] by (fastforce simp: dom_def)
  moreover have "disjoint_family_on ?S (dom (books d))"
    unfolding disjoint_family_on_def
  proof (intro ballI impI)
    fix k1 k2 assume k: "k1 \<in> dom (books d)" "k2 \<in> dom (books d)" "k1 \<noteq> k2"
    then obtain b1 b2 where b: "books d k1 = Some b1" "books d k2 = Some b2" by auto
    have "oid \<notin> dom (orders b2)" if "oid \<in> dom (orders b1)" for oid
    proof
      assume "oid \<in> dom (orders b2)"
      with that b have "order_to_symbol d oid = Some k1" "order_to_symbol d oid = Some k2"
        using rt by (auto simp: routed_def)
      with k show False by simp
    qed
    then show "?S k1 \<inter> ?S k2 = {}" by (auto simp: b)
  qed
  ultimately have "card (dom (global d)) = (\<Sum>k \<in> dom (books d). card (?S k))"
    using fin fo by (simp add: card_UN_disjoint' )
  then show ?thesis by (simp add: total_orders_def num_orders_def)
qed

theorem total_orders_exact_witness:
  "total_orders (new_depth_book 5) = card (dom (global (new_depth_book 5)))"
  by (rule total_orders_exact [OF db_inv_new])


text \<open>The discipline on ids is needed: the code does not check it.\<close>

definition add_msg :: "OrderId \<Rightarrow> byte \<Rightarrow> Quantity \<Rightarrow> AnyMessage" where
  "add_msg oid c q = MAddOrder \<lparr>stock_locate = 1, tracking_number = 0, ts = 9, add_order_id = oid,
     add_side = Buy, add_shares = q, add_symbol = make_symbol [c], add_price = 1000\<rparr>"

text \<open>An id added again under another symbol takes over the route of the first order: a later delete
  of that id removes the second order, and the first stays in its book for good, where no message
  can reach it.\<close>

theorem duplicate_id_orphans_order:
  "case run_steps apply_state (new_depth_book 5) [add_msg 7 0x41 300, add_msg 7 0x42 100,
       MOrderDelete \<lparr>stock_locate = 1, tracking_number = 0, ts = 10, delete_order_id = 7\<rparr>] of
     None \<Rightarrow> False
   | Some d \<Rightarrow> order_to_symbol d 7 = None \<and>
       map total_qty (snap_bids (snapshot d (make_symbol [0x41]))) = [300] \<and>
       snap_bids (snapshot d (make_symbol [0x42])) = []"
  by code_simp

text \<open>An add of zero shares is reported as a change, with a snapshot, although the book ignores it:
  it leaves no order, only a route that no later message removes.\<close>

theorem empty_add_reported:
  "case apply_msg (new_depth_book 5) (add_msg 7 0x41 0) of
     None \<Rightarrow> False
   | Some (changed, snap, d) \<Rightarrow> changed \<and> global d 7 = None \<and> order_to_symbol d 7 \<noteq> None"
  by code_simp

end
