(* ===== verification/Gap_Detector.thy ===== *)
theory Gap_Detector
  imports Types
begin

text \<open>
  \<^verbatim>\<open>src/recovery/gap_detector.h\<close> and \<^verbatim>\<open>gap_detector.cpp\<close>: the next expected sequence number of each
  stock locate. The locale \<^verbatim>\<open>sequencer\<close> is the contract the feed handler relies on, interpreted on
  the detector.
\<close>

section \<open>State and operations\<close>

record GapEvent =
  ge_locate :: StockLocate
  ge_expected :: SequenceNumber
  ge_received :: SequenceNumber

record GapDetector =
  expected_map :: "StockLocate \<rightharpoonup> SequenceNumber"

record ObserveResult =
  or_ok :: bool
  or_gap :: bool
  or_stale :: bool
  or_event :: GapEvent

definition new_gap_detector :: GapDetector where
  "new_gap_detector = \<lparr>expected_map = Map.empty\<rparr>"

definition gd_start :: "GapDetector \<Rightarrow> StockLocate \<Rightarrow> SequenceNumber \<Rightarrow> GapDetector" where
  "gd_start g loc first = g\<lparr>expected_map := (expected_map g)(loc \<mapsto> first)\<rparr>"

definition empty_observe :: ObserveResult where
  "empty_observe = \<lparr>or_ok = False, or_gap = False, or_stale = False,
     or_event = \<lparr>ge_locate = 0, ge_expected = 0, ge_received = 0\<rparr>\<rparr>"

definition observe :: "GapDetector \<Rightarrow> StockLocate \<Rightarrow> SequenceNumber \<Rightarrow> ObserveResult \<times> GapDetector" where
  "observe g loc seq =
     (case expected_map g loc of
        None \<Rightarrow> (empty_observe\<lparr>or_ok := True\<rparr>, g\<lparr>expected_map := (expected_map g)(loc \<mapsto> seq + 1)\<rparr>)
      | Some e \<Rightarrow>
          if seq = e then
            (empty_observe\<lparr>or_ok := True\<rparr>, g\<lparr>expected_map := (expected_map g)(loc \<mapsto> e + 1)\<rparr>)
          else if seq < e then (empty_observe\<lparr>or_stale := True\<rparr>, g)
          else (empty_observe\<lparr>or_gap := True,
                  or_event := \<lparr>ge_locate = loc, ge_expected = e, ge_received = seq\<rparr>\<rparr>, g))"

definition expected :: "GapDetector \<Rightarrow> StockLocate \<Rightarrow> SequenceNumber" where
  "expected g loc = (case expected_map g loc of None \<Rightarrow> 0 | Some e \<Rightarrow> e)"

definition set_expected :: "GapDetector \<Rightarrow> StockLocate \<Rightarrow> SequenceNumber \<Rightarrow> GapDetector" where
  "set_expected g loc nxt = g\<lparr>expected_map := (expected_map g)(loc \<mapsto> nxt)\<rparr>"

definition tracked_streams :: "GapDetector \<Rightarrow> nat" where
  "tracked_streams g = card (dom (expected_map g))"

section \<open>The contract of a sequencer\<close>

text \<open>The numbers a locate accepts from a stream of arrivals, in order.\<close>

primrec accepted :: "('g \<Rightarrow> StockLocate \<Rightarrow> SequenceNumber \<Rightarrow> ObserveResult \<times> 'g) \<Rightarrow> 'g \<Rightarrow>
    StockLocate \<Rightarrow> (StockLocate \<times> SequenceNumber) list \<Rightarrow> SequenceNumber list" where
  "accepted obs g l [] = []"
| "accepted obs g l (a # as) =
     (if fst a = l \<and> or_ok (fst (obs g (fst a) (snd a))) then [snd a] else []) @
     accepted obs (snd (obs g (fst a) (snd a))) l as"

text \<open>
  A step on locate \<^verbatim>\<open>l\<close> accepts exactly the sequence number that is due (any number on a locate
  not seen before), moves on to its successor, reports a gap for a later one and staleness for an
  earlier one, and never touches another locate.
\<close>

locale sequencer =
  fixes due :: "'g \<Rightarrow> StockLocate \<Rightarrow> SequenceNumber option"
    and obs :: "'g \<Rightarrow> StockLocate \<Rightarrow> SequenceNumber \<Rightarrow> ObserveResult \<times> 'g"
    and advance :: "'g \<Rightarrow> StockLocate \<Rightarrow> SequenceNumber \<Rightarrow> 'g"
  assumes accepts: "or_ok (fst (obs g l s)) \<longleftrightarrow> due g l = None \<or> due g l = Some s"
    and reports_gap: "or_gap (fst (obs g l s)) \<longleftrightarrow> (\<exists>e. due g l = Some e \<and> e < s)"
    and reports_stale: "or_stale (fst (obs g l s)) \<longleftrightarrow> (\<exists>e. due g l = Some e \<and> s < e)"
    and names_gap: "due g l = Some e \<Longrightarrow> e < s \<Longrightarrow>
      or_event (fst (obs g l s)) = \<lparr>ge_locate = l, ge_expected = e, ge_received = s\<rparr>"
    and moves_on: "due (snd (obs g l s)) l' =
      (if l' = l \<and> or_ok (fst (obs g l s)) then Some (s + 1) else due g l')"
    and advances: "due (advance g l n) l' = (if l' = l then Some n else due g l')"
begin

lemma trichotomy: "or_ok (fst (obs g l s)) \<or> or_gap (fst (obs g l s)) \<or> or_stale (fst (obs g l s))"
  using accepts [of g l s] reports_gap [of g l s] reports_stale [of g l s]
  by (cases "due g l") (simp_all, metis linorder_neqE)

lemma exclusive:
  "\<not> (or_ok (fst (obs g l s)) \<and> or_gap (fst (obs g l s)))"
  "\<not> (or_ok (fst (obs g l s)) \<and> or_stale (fst (obs g l s)))"
  "\<not> (or_gap (fst (obs g l s)) \<and> or_stale (fst (obs g l s)))"
  using accepts [of g l s] reports_gap [of g l s] reports_stale [of g l s] by auto

lemma accepted_run:
  "due g l = Some e \<Longrightarrow> accepted obs g l as = map (\<lambda>i. e + of_nat i) [0..<length (accepted obs g l as)]"
proof (induction as arbitrary: g e)
  case (Cons a as)
  let ?g = "snd (obs g (fst a) (snd a))"
  show ?case
  proof (cases "fst a = l \<and> or_ok (fst (obs g (fst a) (snd a)))")
    case True
    then have s: "snd a = e" using accepts [of g l "snd a"] Cons.prems by auto
    then have a: "a = (l, e)" using True by (cases a) auto
    have "due ?g l = Some (e + 1)" using moves_on [of g l e l] True a by auto
    note IH = Cons.IH [OF this]
    have acc: "accepted obs g l (a # as) = e # accepted obs ?g l as" using True a by auto
    have "accepted obs ?g l as = map (\<lambda>i. e + of_nat i) (map Suc [0..<length (accepted obs ?g l as)])"
      by (subst IH) (simp add: algebra_simps)
    then show ?thesis unfolding acc by (simp add: upt_conv_Cons map_Suc_upt del: upt_Suc)
  next
    case False
    then have "due ?g l = Some e" using moves_on [of g "fst a" "snd a" l] Cons.prems by auto
    then show ?thesis using Cons.IH [of ?g e] False by auto
  qed
qed simp

end

interpretation gd: sequencer expected_map observe set_expected
  by unfold_locales (auto simp: observe_def set_expected_def empty_observe_def split: option.splits)

end
