(* ===== verification/Snapshot_Client.thy ===== *)
theory Snapshot_Client
  imports Itch_Codec Price_Ladder
begin

text \<open>
  \<^verbatim>\<open>src/recovery/snapshot_client.cpp\<close>: the frames of the recovery protocol. The decoder works with
  absolute offsets into the bytes (\<^verbatim>\<open>p\<close> and \<^verbatim>\<open>end\<close> minus \<^verbatim>\<open>bytes.data()\<close>); pointer differences are
  integers, since \<^verbatim>\<open>end - p\<close> can be \<^verbatim>\<open>-1\<close>. The length arithmetic \<^verbatim>\<open>4 + len\<close> is done in 32 bits, as in
  the code. \<^verbatim>\<open>None\<close> is an access outside the vector.
\<close>

section \<open>Data\<close>

record SnapshotRequest =
  req_locate :: StockLocate
  from_seq :: SequenceNumber

record SnapshotFault =
  fault_locate :: StockLocate
  fault_code :: byte

record SnapshotResponse =
  resp_locate :: StockLocate
  last_applied_seq :: SequenceNumber
  resp_symbol :: Symbol
  resp_bids :: "PriceLevel list"
  resp_asks :: "PriceLevel list"

datatype Kind = KNone | KRequest | KResponse | KFault

record DecodedFrame =
  kind :: Kind
  request :: SnapshotRequest
  response :: SnapshotResponse
  fault :: SnapshotFault

definition empty_frame :: DecodedFrame where
  "empty_frame = \<lparr>kind = KNone, request = \<lparr>req_locate = 0, from_seq = 0\<rparr>,
     response = \<lparr>resp_locate = 0, last_applied_seq = 0, resp_symbol = Symbol 0 0 0 0 0 0 0 0,
       resp_bids = [], resp_asks = []\<rparr>,
     fault = \<lparr>fault_locate = 0, fault_code = 0\<rparr>\<rparr>"

section \<open>Encoding\<close>

definition put_u16 :: "byte list \<Rightarrow> u16 \<Rightarrow> byte list" where
  "put_u16 v x = v @ [ucast (drop_bit 8 x)] @ [ucast x]"

definition put_u32 :: "byte list \<Rightarrow> u32 \<Rightarrow> byte list" where
  "put_u32 v x = v @ [ucast (drop_bit 24 x)] @ [ucast (drop_bit 16 x)] @ [ucast (drop_bit 8 x)] @ [ucast x]"

definition put_u64 :: "byte list \<Rightarrow> u64 \<Rightarrow> byte list" where
  "put_u64 v x = foldl (\<lambda>v i. v @ [ucast (drop_bit (56 - i * 8) x)]) v [0..<8]"

definition put_symbol :: "byte list \<Rightarrow> Symbol \<Rightarrow> byte list" where
  "put_symbol v s = foldl (\<lambda>v i. v @ [sym_bytes s ! i]) v [0..<kSymbolLen]"

definition put_level :: "byte list \<Rightarrow> PriceLevel \<Rightarrow> byte list" where
  "put_level v lvl = put_u32 (put_u32 (put_u32 v (price lvl)) (total_qty lvl)) (order_count lvl)"

definition frame_with_header :: "byte \<Rightarrow> byte list \<Rightarrow> byte list" where
  "frame_with_header op body = put_u32 [] (of_nat (1 + length body)) @ [op] @ body"

definition encode_request :: "SnapshotRequest \<Rightarrow> byte list" where
  "encode_request r =
     (let body = put_u16 [] (req_locate r);
          body = put_u64 body (from_seq r)
      in frame_with_header 0x51 body)"

definition encode_response :: "SnapshotResponse \<Rightarrow> byte list" where
  "encode_response r =
     (let body = put_u16 [] (resp_locate r);
          body = put_u64 body (last_applied_seq r);
          body = put_symbol body (resp_symbol r);
          body = put_u32 body (of_nat (length (resp_bids r)));
          body = foldl put_level body (resp_bids r);
          body = put_u32 body (of_nat (length (resp_asks r)));
          body = foldl put_level body (resp_asks r)
      in frame_with_header 0x53 body)"

definition encode_fault :: "SnapshotFault \<Rightarrow> byte list" where
  "encode_fault f =
     (let body = put_u16 [] (fault_locate f);
          body = body @ [fault_code f]
      in frame_with_header 0x46 body)"

section \<open>Decoding\<close>

definition take_u16 :: "byte list \<Rightarrow> nat \<Rightarrow> u16 option" where
  "take_u16 b p = do {
     b0 \<leftarrow> rd8 b p; b1 \<leftarrow> rd8 b (p + 1);
     Some (push_bit 8 (ucast b0) OR ucast b1) }"

definition take_u32 :: "byte list \<Rightarrow> nat \<Rightarrow> u32 option" where
  "take_u32 b p = do {
     b0 \<leftarrow> rd8 b p; b1 \<leftarrow> rd8 b (p + 1); b2 \<leftarrow> rd8 b (p + 2); b3 \<leftarrow> rd8 b (p + 3);
     Some (((push_bit 24 (ucast b0) OR push_bit 16 (ucast b1)) OR push_bit 8 (ucast b2)) OR ucast b3) }"

fun take_u64_loop :: "byte list \<Rightarrow> nat \<Rightarrow> nat \<Rightarrow> u64 \<Rightarrow> u64 option" where
  "take_u64_loop b p 0 v = Some v"
| "take_u64_loop b p (Suc n) v = do {
     x \<leftarrow> rd8 b p;
     take_u64_loop b (p + 1) n (push_bit 8 v OR ucast x) }"

definition take_u64 :: "byte list \<Rightarrow> nat \<Rightarrow> u64 option" where
  "take_u64 b p = take_u64_loop b p 8 0"

text \<open>The loop over \<^verbatim>\<open>n\<close> levels, pushing each to the vector.\<close>

fun take_levels :: "byte list \<Rightarrow> nat \<Rightarrow> nat \<Rightarrow> PriceLevel list \<Rightarrow> PriceLevel list option" where
  "take_levels b p 0 acc = Some acc"
| "take_levels b p (Suc n) acc = do {
     pr \<leftarrow> take_u32 b p;
     tq \<leftarrow> take_u32 b (p + 4);
     oc \<leftarrow> take_u32 b (p + 8);
     take_levels b (p + 12) n (acc @ [\<lparr>price = pr, total_qty = tq, order_count = oc\<rparr>]) }"

text \<open>Each alternative returns the frame decoded and whether it ran to the end of the switch.\<close>

definition decode_request_body :: "byte list \<Rightarrow> nat \<Rightarrow> int \<Rightarrow> (DecodedFrame \<times> bool) option" where
  "decode_request_body b p e =
     (if e - int p < 10 then Some (empty_frame, False)
      else do {
        loc \<leftarrow> take_u16 b p;
        sq \<leftarrow> take_u64 b (p + 2);
        Some (empty_frame\<lparr>kind := KRequest, request := \<lparr>req_locate = loc, from_seq = sq\<rparr>\<rparr>, True) })"

definition decode_fault_body :: "byte list \<Rightarrow> nat \<Rightarrow> int \<Rightarrow> (DecodedFrame \<times> bool) option" where
  "decode_fault_body b p e =
     (if e - int p < 3 then Some (empty_frame, False)
      else do {
        loc \<leftarrow> take_u16 b p;
        c \<leftarrow> rd8 b (p + 2);
        Some (empty_frame\<lparr>kind := KFault, fault := \<lparr>fault_locate = loc, fault_code = c\<rparr>\<rparr>, True) })"

definition decode_response_body :: "byte list \<Rightarrow> nat \<Rightarrow> int \<Rightarrow> (DecodedFrame \<times> bool) option" where
  "decode_response_body b p e =
     (if e - int p < 2 + 8 + int kSymbolLen + 4 then Some (empty_frame, False)
      else do {
        loc \<leftarrow> take_u16 b p;
        sq \<leftarrow> take_u64 b (p + 2);
        sy \<leftarrow> map_option sym_of_bytes (bslice (p + 10) kSymbolLen b);
        bn \<leftarrow> take_u32 b (p + 18);
        let resp = \<lparr>resp_locate = loc, last_applied_seq = sq, resp_symbol = sy,
                    resp_bids = [], resp_asks = []\<rparr>;
            p = p + 22 in
        if e - int p < int (unat bn) * 12 + 4
        then Some (empty_frame\<lparr>kind := KResponse, response := resp\<rparr>, False)
        else do {
          bids \<leftarrow> take_levels b p (unat bn) [];
          let p = p + unat bn * 12 in do {
          an \<leftarrow> take_u32 b p;
          let resp = resp\<lparr>resp_bids := bids\<rparr>; p = p + 4 in
          if e - int p < int (unat an) * 12
          then Some (empty_frame\<lparr>kind := KResponse, response := resp\<rparr>, False)
          else do {
            asks \<leftarrow> take_levels b p (unat an) [];
            Some (empty_frame\<lparr>kind := KResponse, response := resp\<lparr>resp_asks := asks\<rparr>\<rparr>, True) } } } })"

definition decode_body_by_op :: "byte \<Rightarrow> byte list \<Rightarrow> nat \<Rightarrow> int \<Rightarrow> (DecodedFrame \<times> bool) option" where
  "decode_body_by_op op b p e =
     (if op = 0x51 then decode_request_body b p e
      else if op = 0x46 then decode_fault_body b p e
      else if op = 0x53 then decode_response_body b p e
      else Some (empty_frame, False))"

definition decode_snap_frame :: "byte list \<Rightarrow> (DecodedFrame \<times> nat) option" where
  "decode_snap_frame b =
     (if length b < 5 then Some (empty_frame, 0)
      else do {
        len \<leftarrow> take_u32 b 0;
        if length b < unat (4 + len :: u32) then Some (empty_frame, 0)
        else do {
          op \<leftarrow> rd8 b 4;
          (out, complete) \<leftarrow> decode_body_by_op op b 5 (4 + int (unat len));
          Some (out, if complete then unat (4 + len :: u32) else 0) } })"

end
