(* ===== verification/Feed_Handler.thy ===== *)
theory Feed_Handler
  imports Feed_Refinement Gap_Detector Snapshot_Client
begin

text \<open>
  \<^verbatim>\<open>FeedHandler\<close> of \<^verbatim>\<open>src/core/feed_handler.h\<close> and \<^verbatim>\<open>feed_handler.cpp\<close>: the transport header, gap
  detection, recovery by snapshot, and the application of the payload to the books. The recovery
  requester is outside the handler (it talks to a server); a call of \<^verbatim>\<open>on_datagram\<close> takes it as the
  argument \<^verbatim>\<open>rq\<close>: \<^verbatim>\<open>None\<close> when no requester is set, else the function from the request to the
  response it fills in, \<^verbatim>\<open>None\<close> when it returns false. The gap observer and the snapshot callback are
  outputs: the calls made are part of the result.
\<close>

section \<open>State\<close>

record PerTypeCounters =
  cnt_add :: u64
  cnt_execute :: u64
  cnt_cancel :: u64
  cnt_delete :: u64
  cnt_replace :: u64
  cnt_other :: u64

record FeedHandlerStats =
  bytes_in :: u64
  datagrams_in :: u64
  messages_applied :: u64
  parse_errors :: u64
  gaps_detected :: u64
  snapshots_requested :: u64
  snapshots_applied :: u64
  stale_msgs :: u64
  by_type :: PerTypeCounters

record FeedHandler =
  fh_book :: DepthBook
  fh_gap :: GapDetector
  has_gap_observer :: bool
  skip_gaps :: bool
  stats :: FeedHandlerStats

type_synonym requester = "(SnapshotRequest \<Rightarrow> SnapshotResponse option) option"
type_synonym gap_report = "StockLocate \<times> SequenceNumber \<times> SequenceNumber"

definition zero_counters :: PerTypeCounters where
  "zero_counters = \<lparr>cnt_add = 0, cnt_execute = 0, cnt_cancel = 0, cnt_delete = 0, cnt_replace = 0, cnt_other = 0\<rparr>"

definition zero_stats :: FeedHandlerStats where
  "zero_stats = \<lparr>bytes_in = 0, datagrams_in = 0, messages_applied = 0, parse_errors = 0,
     gaps_detected = 0, snapshots_requested = 0, snapshots_applied = 0, stale_msgs = 0,
     by_type = zero_counters\<rparr>"

definition new_feed_handler :: "nat \<Rightarrow> FeedHandler" where
  "new_feed_handler n = \<lparr>fh_book = new_depth_book n, fh_gap = new_gap_detector,
     has_gap_observer = False, skip_gaps = False, stats = zero_stats\<rparr>"

definition set_skip_gaps :: "FeedHandler \<Rightarrow> bool \<Rightarrow> FeedHandler" where
  "set_skip_gaps h on = h\<lparr>skip_gaps := on\<rparr>"

fun tally_type :: "PerTypeCounters \<Rightarrow> AnyMessage \<Rightarrow> PerTypeCounters" where
  "tally_type c (MAddOrder m) = c\<lparr>cnt_add := cnt_add c + 1\<rparr>"
| "tally_type c (MAddOrderMPID m) = c\<lparr>cnt_add := cnt_add c + 1\<rparr>"
| "tally_type c (MOrderExecuted m) = c\<lparr>cnt_execute := cnt_execute c + 1\<rparr>"
| "tally_type c (MOrderExecutedWithPrice m) = c\<lparr>cnt_execute := cnt_execute c + 1\<rparr>"
| "tally_type c (MOrderCancel m) = c\<lparr>cnt_cancel := cnt_cancel c + 1\<rparr>"
| "tally_type c (MOrderDelete m) = c\<lparr>cnt_delete := cnt_delete c + 1\<rparr>"
| "tally_type c (MOrderReplace m) = c\<lparr>cnt_replace := cnt_replace c + 1\<rparr>"
| "tally_type c m = c\<lparr>cnt_other := cnt_other c + 1\<rparr>"

section \<open>Installing a snapshot\<close>

text \<open>
  The loop over \<^verbatim>\<open>i < cnt\<close>: one synthetic order each, the remainder with the first. \<^verbatim>\<open>n\<close> is the
  number of iterations left, the book and the next synthetic id are the state.
\<close>

fun add_synthetic :: "Side \<Rightarrow> Price \<Rightarrow> Quantity \<Rightarrow> Quantity \<Rightarrow> nat \<Rightarrow> nat \<Rightarrow>
    SymbolBook \<times> OrderId \<Rightarrow> SymbolBook \<times> OrderId" where
  "add_synthetic side p per rm i 0 s = s"
| "add_synthetic side p per rm i (Suc n) (b, syn) =
     (let q = per + (if i = 0 then rm else 0) in
      if q = 0 then add_synthetic side p per rm (Suc i) n (b, syn)
      else add_synthetic side p per rm (Suc i) n (add_order b syn side p q 0, syn + 1))"

definition install_level :: "Side \<Rightarrow> SymbolBook \<times> OrderId \<Rightarrow> PriceLevel \<Rightarrow> SymbolBook \<times> OrderId" where
  "install_level side s lvl =
     (let cnt = max 1 (order_count lvl);
          per = total_qty lvl div cnt;
          rm = total_qty lvl - per * cnt
      in add_synthetic side (price lvl) per rm 0 (unat cnt) s)"

definition snapshot_book :: "SnapshotResponse \<Rightarrow> SymbolBook" where
  "snapshot_book snap =
     (let b = new_book (if length (resp_bids snap) > length (resp_asks snap)
                        then length (resp_bids snap) else length (resp_asks snap));
          s = foldl (install_level Buy) (b, push_bit 60 1) (resp_bids snap);
          s = foldl (install_level Sell) s (resp_asks snap)
      in fst s)"

definition apply_snapshot :: "FeedHandler \<Rightarrow> SnapshotResponse \<Rightarrow> FeedHandler" where
  "apply_snapshot h snap =
     (let d = book_for (fh_book h) (resp_symbol snap);
          d = d\<lparr>books := (books d)(symbol_key (resp_symbol snap) \<mapsto> snapshot_book snap)\<rparr>
      in h\<lparr>fh_book := d,
           fh_gap := set_expected (fh_gap h) (resp_locate snap) (last_applied_seq snap + 1),
           stats := (stats h)\<lparr>snapshots_applied := snapshots_applied (stats h) + 1\<rparr>\<rparr>)"

section \<open>A datagram\<close>

definition kTransportHeaderSize :: nat where
  "kTransportHeaderSize = 10"

definition hdr_u16 :: "byte list \<Rightarrow> nat \<Rightarrow> u16 option" where
  "hdr_u16 b p = do {
     b0 \<leftarrow> rd8 b p; b1 \<leftarrow> rd8 b (p + 1);
     Some (push_bit 8 (ucast b0) OR ucast b1) }"

fun hdr_u64_loop :: "byte list \<Rightarrow> nat \<Rightarrow> nat \<Rightarrow> u64 \<Rightarrow> u64 option" where
  "hdr_u64_loop b p 0 v = Some v"
| "hdr_u64_loop b p (Suc n) v = do {
     x \<leftarrow> rd8 b p;
     hdr_u64_loop b (p + 1) n (push_bit 8 v OR ucast x) }"

definition hdr_u64 :: "byte list \<Rightarrow> nat \<Rightarrow> u64 option" where
  "hdr_u64 b p = hdr_u64_loop b p 8 0"

text \<open>\<^verbatim>\<open>if (gap_.expected(loc) <= seq) gap_.set_expected(loc, seq + 1)\<close>.\<close>

definition step_past :: "FeedHandler \<Rightarrow> StockLocate \<Rightarrow> SequenceNumber \<Rightarrow> FeedHandler" where
  "step_past h loc seq =
     (if expected (fh_gap h) loc \<le> seq
      then h\<lparr>fh_gap := set_expected (fh_gap h) loc (seq + 1)\<rparr> else h)"

text \<open>
  The part of \<^verbatim>\<open>on_datagram\<close> under \<^verbatim>\<open>seq != 0\<close>. The first component is the early return value,
  \<^verbatim>\<open>None\<close> when control reaches the payload; the second the calls of the gap observer.
\<close>

definition check_sequence :: "requester \<Rightarrow> FeedHandler \<Rightarrow> StockLocate \<Rightarrow> SequenceNumber \<Rightarrow>
    bool option \<times> gap_report list \<times> FeedHandler" where
  "check_sequence rq h loc seq =
     (let (obs, g) = observe (fh_gap h) loc seq;
          h = h\<lparr>fh_gap := g\<rparr> in
      if or_stale obs then
        (Some False, [], h\<lparr>stats := (stats h)\<lparr>stale_msgs := stale_msgs (stats h) + 1\<rparr>\<rparr>)
      else if or_gap obs then
        let h = h\<lparr>stats := (stats h)\<lparr>gaps_detected := gaps_detected (stats h) + 1\<rparr>\<rparr>;
            ev = or_event obs;
            reports = (if has_gap_observer h then [(loc, ge_expected ev, ge_received ev - 1)] else [])
        in case rq of
             Some ask \<Rightarrow>
               let req = \<lparr>req_locate = loc, from_seq = ge_expected ev\<rparr>;
                   h = h\<lparr>stats := (stats h)\<lparr>snapshots_requested := snapshots_requested (stats h) + 1\<rparr>\<rparr>
               in (case ask req of
                     Some resp \<Rightarrow>
                       let h = apply_snapshot h resp in
                       if seq \<ge> expected (fh_gap h) loc then (None, reports, step_past h loc seq)
                       else (Some True, reports, h)
                   | None \<Rightarrow> (Some False, reports, h))
           | None \<Rightarrow>
               if skip_gaps h then
                 let h = h\<lparr>fh_gap := set_expected (fh_gap h) loc seq\<rparr>
                 in (None, reports, step_past h loc seq)
               else (Some False, reports, h)
      else (None, [], step_past h loc seq))"

definition parse_error :: "FeedHandler \<Rightarrow> FeedHandler" where
  "parse_error h = h\<lparr>stats := (stats h)\<lparr>parse_errors := parse_errors (stats h) + 1\<rparr>\<rparr>"

definition apply_payload :: "FeedHandler \<Rightarrow> byte list \<Rightarrow> (bool \<times> DepthSnapshot option \<times> FeedHandler) option" where
  "apply_payload h body = do {
     pr \<leftarrow> decode_frame body;
     case (status pr, message pr) of
       (Ok, Some m) \<Rightarrow> do {
         (changed, snap, d) \<leftarrow> apply_msg (fh_book h) m;
         let h = h\<lparr>fh_book := d\<rparr>;
         Some (True, snap,
           if changed then h\<lparr>stats := (stats h)\<lparr>messages_applied := messages_applied (stats h) + 1,
             by_type := tally_type (by_type (stats h)) m\<rparr>\<rparr> else h) }
     | _ \<Rightarrow> Some (False, None, parse_error h) }"

definition on_datagram :: "requester \<Rightarrow> FeedHandler \<Rightarrow> byte list \<Rightarrow>
    (bool \<times> gap_report list \<times> DepthSnapshot option \<times> FeedHandler) option" where
  "on_datagram rq h data =
     (let h = h\<lparr>stats := (stats h)\<lparr>bytes_in := bytes_in (stats h) + of_nat (length data),
                 datagrams_in := datagrams_in (stats h) + 1\<rparr>\<rparr> in
      if length data < kTransportHeaderSize + 2 then Some (False, [], None, parse_error h)
      else do {
        loc \<leftarrow> hdr_u16 data 0;
        seq \<leftarrow> hdr_u64 data 2;
        let (ret, reports, h) = (if seq \<noteq> 0 then check_sequence rq h loc seq else (None, [], h)) in
        case ret of
          Some r \<Rightarrow> Some (r, reports, None, h)
        | None \<Rightarrow> do {
            (r, snap, h) \<leftarrow> apply_payload h (drop kTransportHeaderSize data);
            Some (r, reports, snap, h) } })"

end
