(* ===== verification/Snapshot_Install.thy ===== *)
theory Snapshot_Install
  imports Feed_Handler
begin

text \<open>
  \<^verbatim>\<open>FeedHandler::apply_snapshot\<close> rebuilds a book from price levels by adding synthetic orders. This
  theory follows the aggregates of the synthetic orders through the two nested loops and shows that
  the book built shows exactly the levels of a genuine snapshot.
\<close>

section \<open>Adding one fresh order\<close>

definition synth_inv :: "SymbolBook \<times> OrderId \<Rightarrow> bool" where
  "synth_inv s \<longleftrightarrow> book_inv (fst s) \<and> (\<forall>oid \<in> dom (orders (fst s)). oid < snd s)"

definition lq :: "SymbolBook \<times> OrderId \<Rightarrow> bool \<Rightarrow> Price \<Rightarrow> nat" where
  "lq s = level_qty (orders (fst s))"

definition lc :: "SymbolBook \<times> OrderId \<Rightarrow> bool \<Rightarrow> Price \<Rightarrow> nat" where
  "lc s = level_cnt (orders (fst s))"

lemma unat_succ: "unat syn + 1 < 2 ^ 64 \<Longrightarrow> unat (syn + 1 :: u64) = unat syn + 1"
  by (subst unat_add_lem [THEN iffD1]) simp_all

lemma unat_bound: "unat (w :: u32) < 2 ^ 32"
  using unsigned_less [of w] by simp

lemma synth_add:
  assumes inv: "synth_inv (b, syn)" and q: "q \<noteq> 0" and room: "unat syn + 1 < 2 ^ 64"
    and fit: "lq (b, syn) (side = Buy) p + unat q < 2 ^ 32"
  shows "synth_inv (add_order b syn side p q 0, syn + 1)" 
    and "lq (add_order b syn side p q 0, syn + 1) bid x = lq (b, syn) bid x + (if bid = (side = Buy) \<and> x = p then unat q else 0)"
    and "lc (add_order b syn side p q 0, syn + 1) bid x = lc (b, syn) bid x + (if bid = (side = Buy) \<and> x = p then 1 else 0)"
proof -
  have fin: "finite (dom (orders b))" and b: "book_inv b"
    using inv by (auto simp: synth_inv_def book_inv_def live_def)
  have fresh: "orders b syn = None" using inv by (auto simp: synth_inv_def)
  let ?st = "\<lparr>os_symbol = no_symbol, os_side = side, os_price = p, os_qty = q, os_ts = 0\<rparr>"
  have os: "orders (add_order b syn side p q 0) = (orders b)(syn \<mapsto> ?st)"
    using q fresh by (simp add: orders_add_order)
  note upd = level_upd_diff [OF fin, of syn "Some ?st"]
  show "lc (add_order b syn side p q 0, syn + 1) bid x = lc (b, syn) bid x + (if bid = (side = Buy) \<and> x = p then 1 else 0)"
    using upd(2) [of bid x] by (auto simp: lc_def os fresh)
  have lq': "level_qty (orders (add_order b syn side p q 0)) bid x =
      level_qty (orders b) bid x + (if bid = (side = Buy) \<and> x = p then unat q else 0)" for bid x
    using upd(1) [of bid x] by (subst of_nat_eq_iff [where 'a = int, symmetric]) (auto simp: os fresh)
  show "lq (add_order b syn side p q 0, syn + 1) bid x =
      lq (b, syn) bid x + (if bid = (side = Buy) \<and> x = p then unat q else 0)"
    using lq' by (simp add: lq_def)
  have "fits (orders (add_order b syn side p q 0))"
    using lq' fit b by (auto simp: fits_def lq_def book_inv_def)
  then have "book_inv (add_order b syn side p q 0)" using b by (rule add_order_inv [rotated])
  moreover have "syn < syn + 1" using unat_succ [OF room] by (simp add: word_less_nat_alt)
  ultimately show "synth_inv (add_order b syn side p q 0, syn + 1)"
    using inv by (auto simp: synth_inv_def os intro: order.strict_trans)
qed


lemma add_order_depth [simp]: "depth (add_order b oid side p q t) = depth b"
  by (simp add: add_order_def)

section \<open>One level\<close>

text \<open>
  \<^verbatim>\<open>grows\<close>: from \<^verbatim>\<open>s\<close> to \<^verbatim>\<open>s'\<close> the aggregates of one side grow by the functions \<^verbatim>\<open>Q\<close> and \<^verbatim>\<open>C\<close>,
  and \<^verbatim>\<open>n\<close> ids are used.
\<close>

definition grows :: "bool \<Rightarrow> SymbolBook \<times> OrderId \<Rightarrow> SymbolBook \<times> OrderId \<Rightarrow>
    (Price \<Rightarrow> nat) \<Rightarrow> (Price \<Rightarrow> nat) \<Rightarrow> nat \<Rightarrow> bool" where
  "grows sd s s' Q C n \<longleftrightarrow> synth_inv s' \<and> depth (fst s') = depth (fst s) \<and> unat (snd s') = unat (snd s) + n \<and>
     (\<forall>bid x. lq s' bid x = lq s bid x + (if bid = sd then Q x else 0) \<and>
              lc s' bid x = lc s bid x + (if bid = sd then C x else 0))"

lemma grows_refl: "synth_inv s \<Longrightarrow> grows sd s s (\<lambda>x. 0) (\<lambda>x. 0) 0"
  by (simp add: grows_def)

lemma grows_trans:
  "grows sd s s' Q C n \<Longrightarrow> grows sd s' s'' Q' C' n' \<Longrightarrow>
   grows sd s s'' (\<lambda>x. Q x + Q' x) (\<lambda>x. C x + C' x) (n + n')"
  by (auto simp: grows_def)

lemma grows_add:
  assumes "synth_inv (b, syn)" "q \<noteq> 0" "unat syn + 1 < 2 ^ 64" "lq (b, syn) (side = Buy) p + unat q < 2 ^ 32"
  shows "grows (side = Buy) (b, syn) (add_order b syn side p q 0, syn + 1)
    (\<lambda>x. if x = p then unat q else 0) (\<lambda>x. if x = p then 1 else 0) 1"
  using synth_add [OF assms(1,2,3,4)] unat_succ [OF assms(3)] by (simp add: grows_def)

lemma grows_cong: "grows sd s s' Q C n \<Longrightarrow> (\<And>x. Q x = Q' x) \<Longrightarrow> (\<And>x. C x = C' x) \<Longrightarrow> n = n' \<Longrightarrow>
    grows sd s s' Q' C' n'"
  by (simp add: grows_def)

lemma add_synthetic_rest:
  "synth_inv s \<Longrightarrow> per \<noteq> 0 \<Longrightarrow> 0 < i \<Longrightarrow> unat (snd s) + n < 2 ^ 64 \<Longrightarrow>
   lq s (side = Buy) p + n * unat per < 2 ^ 32 \<Longrightarrow>
   grows (side = Buy) s (add_synthetic side p per rm i n s)
     (\<lambda>x. if x = p then n * unat per else 0) (\<lambda>x. if x = p then n else 0) n"
proof (induction n arbitrary: i s)
  case 0
  then show ?case using grows_refl [of s "side = Buy"] by (simp add: if_distrib cong: if_cong)
next
  case (Suc n)
  obtain b syn where s: "s = (b, syn)" by (cases s)
  have g: "grows (side = Buy) s (add_order b syn side p per 0, syn + 1)
      (\<lambda>x. if x = p then unat per else 0) (\<lambda>x. if x = p then 1 else 0) 1"
    unfolding s using Suc.prems by (intro grows_add) (auto simp: s)
  have "grows (side = Buy) (add_order b syn side p per 0, syn + 1)
      (add_synthetic side p per rm (Suc i) n (add_order b syn side p per 0, syn + 1))
      (\<lambda>x. if x = p then n * unat per else 0) (\<lambda>x. if x = p then n else 0) n"
    using g Suc.prems by (intro Suc.IH) (auto simp: grows_def algebra_simps)
  from grows_trans [OF g this] show ?case
    using Suc.prems by (auto simp: s Let_def intro: grows_cong)
qed

text \<open>A genuine level has at least one order and at least one share per order.\<close>

definition genuine_level :: "PriceLevel \<Rightarrow> bool" where
  "genuine_level l \<longleftrightarrow> 1 \<le> unat (order_count l) \<and> unat (order_count l) \<le> unat (total_qty l)"

lemma install_level_grows:
  assumes inv: "synth_inv s" and l: "genuine_level l"
    and room: "unat (snd s) + unat (order_count l) < 2 ^ 64"
    and fit: "lq s (side = Buy) (price l) + unat (total_qty l) < 2 ^ 32"
  shows "grows (side = Buy) s (install_level side s l)
    (\<lambda>x. if x = price l then unat (total_qty l) else 0)
    (\<lambda>x. if x = price l then unat (order_count l) else 0) (unat (order_count l))"
proof -
  obtain b syn where s: "s = (b, syn)" by (cases s)
  define cnt where "cnt = order_count l"
  define tot where "tot = total_qty l"
  define per where "per = tot div cnt"
  define rm where "rm = tot - per * cnt"
  have c: "max 1 (order_count l) = cnt" "1 \<le> unat cnt" "unat cnt \<le> unat tot"
    using l by (auto simp: genuine_level_def cnt_def tot_def max_def word_le_nat_alt)
  have per: "unat per = unat tot div unat cnt" by (simp add: per_def unat_div)
  then have per0: "per \<noteq> 0" using c by (auto simp: div_eq_0_iff unat_eq_0 [symmetric])
  have "unat per * unat cnt \<le> unat tot" by (simp add: per)
  then have prod: "unat (per * cnt) = unat per * unat cnt"
    by (subst unat_mult_lem [THEN iffD1]) (use unat_bound [of tot] in auto)
  have rm: "unat rm = unat tot - unat per * unat cnt"
    using \<open>unat per * unat cnt \<le> unat tot\<close> by (simp add: rm_def unat_sub word_le_nat_alt prod)
  have split: "unat tot = unat per + unat rm + (unat cnt - 1) * unat per"
  proof -
    obtain k where "unat cnt = Suc k" using c(2) by (cases "unat cnt") auto
    then show ?thesis using \<open>unat per * unat cnt \<le> unat tot\<close> by (simp add: rm mult.commute)
  qed
  have q: "unat (per + rm) = unat per + unat rm"
    using split unat_bound [of tot] by (subst unat_add_lem [THEN iffD1]) auto
  then have q0: "per + rm \<noteq> 0" using per0 by (metis add_is_0 unat_0 unat_eq_zero)
  have g: "grows (side = Buy) s (add_order b syn side (price l) (per + rm) 0, syn + 1)
      (\<lambda>x. if x = price l then unat (per + rm) else 0) (\<lambda>x. if x = price l then 1 else 0) 1"
    unfolding s using inv q0 room fit c split q
    by (intro grows_add) (auto simp: s cnt_def [symmetric] tot_def [symmetric])
  have "grows (side = Buy) (add_order b syn side (price l) (per + rm) 0, syn + 1)
      (add_synthetic side (price l) per rm (Suc 0) (unat cnt - 1)
        (add_order b syn side (price l) (per + rm) 0, syn + 1))
      (\<lambda>x. if x = price l then (unat cnt - 1) * unat per else 0)
      (\<lambda>x. if x = price l then unat cnt - 1 else 0) (unat cnt - 1)"
    using g per0 room fit c split q
    by (intro add_synthetic_rest) (auto simp: grows_def cnt_def [symmetric] tot_def [symmetric])
  note tail = grows_trans [OF g this]
  obtain k where k: "unat cnt = Suc k" using c(2) by (cases "unat cnt") auto
  have "add_synthetic side (price l) per rm 0 (unat cnt) s = add_synthetic side (price l) per rm (Suc 0)
      (unat cnt - 1) (add_order b syn side (price l) (per + rm) 0, syn + 1)"
    using q0 by (simp add: s k Let_def)
  then have "grows (side = Buy) s (add_synthetic side (price l) per rm 0 (unat cnt) s)
      (\<lambda>x. if x = price l then unat tot else 0) (\<lambda>x. if x = price l then unat cnt else 0) (unat cnt)"
    using grows_cong [OF tail, of "\<lambda>x. if x = price l then unat tot else 0"
        "\<lambda>x. if x = price l then unat cnt else 0" "unat cnt"] split q k by simp
  then show ?thesis
    using c by (simp add: install_level_def Let_def cnt_def tot_def per_def rm_def cong: if_cong)
qed

section \<open>All levels of a side\<close>

definition amount :: "PriceLevel list \<Rightarrow> Price \<Rightarrow> nat" where
  "amount ls x = (\<Sum>l\<leftarrow>ls. if x = price l then unat (total_qty l) else 0)"

definition heads :: "PriceLevel list \<Rightarrow> Price \<Rightarrow> nat" where
  "heads ls x = (\<Sum>l\<leftarrow>ls. if x = price l then unat (order_count l) else 0)"

definition order_total :: "PriceLevel list \<Rightarrow> nat" where
  "order_total ls = (\<Sum>l\<leftarrow>ls. unat (order_count l))"

lemma install_side_grows:
  "synth_inv s \<Longrightarrow> (\<And>l. l \<in> set ls \<Longrightarrow> genuine_level l) \<Longrightarrow>
   unat (snd s) + order_total ls < 2 ^ 64 \<Longrightarrow> (\<And>x. lq s (side = Buy) x + amount ls x < 2 ^ 32) \<Longrightarrow>
   grows (side = Buy) s (foldl (install_level side) s ls) (amount ls) (heads ls) (order_total ls)"
proof (induction ls arbitrary: s)
  case Nil
  then show ?case
    using grows_refl [of s "side = Buy"] by (simp add: amount_def heads_def order_total_def)
next
  case (Cons l ls)
  have g: "grows (side = Buy) s (install_level side s l)
    (\<lambda>x. if x = price l then unat (total_qty l) else 0)
    (\<lambda>x. if x = price l then unat (order_count l) else 0) (unat (order_count l))"
    using Cons.prems(1,2,3) Cons.prems(4) [of "price l"]
    by (intro install_level_grows) (auto simp: order_total_def amount_def)
  have "lq (install_level side s l) (side = Buy) x + amount ls x < 2 ^ 32" for x
    using g Cons.prems(4) [of x] by (simp add: grows_def amount_def)
  then have "grows (side = Buy) (install_level side s l) (foldl (install_level side) (install_level side s l) ls)
      (amount ls) (heads ls) (order_total ls)"
    using g Cons.prems by (intro Cons.IH) (auto simp: grows_def order_total_def)
  from grows_trans [OF g this] show ?case
    by (auto simp: amount_def heads_def order_total_def fun_eq_iff intro: grows_cong)
qed

section \<open>The whole snapshot\<close>

text \<open>
  A snapshot as a correct server takes it: best prices first on each side, genuine levels, and
  fewer than \<^verbatim>\<open>2^63\<close> orders in all.
\<close>

definition genuine_snapshot :: "SnapshotResponse \<Rightarrow> bool" where
  "genuine_snapshot r \<longleftrightarrow>
     sorted_wrt (>) (map price (resp_bids r)) \<and> sorted_wrt (<) (map price (resp_asks r)) \<and>
     (\<forall>l \<in> set (resp_bids r) \<union> set (resp_asks r). genuine_level l) \<and>
     order_total (resp_bids r) + order_total (resp_asks r) < 2 ^ 63"

lemma amount_Cons:
  "amount (a # ls) x = (if x = price a then unat (total_qty a) else 0) + amount ls x"
  "heads (a # ls) x = (if x = price a then unat (order_count a) else 0) + heads ls x"
  by (simp_all add: amount_def heads_def)

lemma level_sum_absent: "x \<notin> price ` set ls \<Longrightarrow> amount ls x = 0 \<and> heads ls x = 0"
proof (induction ls)
  case Nil
  then show ?case by (simp add: amount_def heads_def)
next
  case (Cons a ls)
  then have "x \<noteq> price a" "x \<notin> price ` set ls" by auto
  then show ?case using Cons.IH by (simp only: amount_Cons if_False) simp
qed

lemma level_sum:
  assumes "distinct (map price ls)" "l \<in> set ls"
  shows "amount ls (price l) = unat (total_qty l) \<and> heads ls (price l) = unat (order_count l)"
  using assms
proof (induction ls)
  case (Cons a ls)
  show ?case
  proof (cases "l = a")
    case True
    then show ?thesis using Cons.prems level_sum_absent [of "price a" ls] by (simp add: amount_Cons)
  next
    case False
    then have l: "l \<in> set ls" using Cons.prems by simp
    then have "price l \<noteq> price a" using Cons.prems(1) by (metis distinct.simps(2) imageI list.simps(9) set_map)
    then show ?thesis using Cons.IH l Cons.prems(1) by (simp add: amount_Cons)
  qed
qed simp

lemma amount_fits:
  assumes "distinct (map price ls)"
  shows "amount ls x < 2 ^ 32"
proof (cases "x \<in> price ` set ls")
  case True
  then obtain l where "l \<in> set ls" "x = price l" by auto
  then show ?thesis using level_sum [OF assms] unat_bound [of "total_qty l"] by simp
next
  case False
  then show ?thesis using level_sum_absent [OF False] by simp
qed

lemma ladder_of_levels:
  assumes d: "distinct (map price ls)" and s: "sorted_wrt lt (map price ls)"
    and gen: "\<And>l. l \<in> set ls \<Longrightarrow> genuine_level l"
  shows "represents lt (amount ls) (heads ls) (map (\<lambda>l. (price l, l)) ls)"
proof -
  have "ladder_find x (map (\<lambda>l. (price l, l)) ls) =
      (if heads ls x = 0 then None else Some (level x (amount ls x) (heads ls x)))" for x
  proof (cases "x \<in> price ` set ls")
    case True
    then obtain l where l: "l \<in> set ls" "x = price l" by auto
    have "map_of (map (\<lambda>l. (price l, l)) ls) x = Some l"
      using l d by (intro map_of_is_SomeI) (auto simp: comp_def)
    then show ?thesis
      using l gen [OF l(1)] level_sum [OF d l(1)]
      by (simp add: ladder_find_def level_def genuine_level_def)
  next
    case False
    then have "map_of (map (\<lambda>l. (price l, l)) ls) x = None"
      by (simp add: map_of_eq_None_iff image_image)
    then show ?thesis using level_sum_absent [OF False] by (simp add: ladder_find_def)
  qed
  then show ?thesis using s by (simp add: represents_def ordered_def comp_def)
qed

lemma snapshot_book_shows:
  assumes "genuine_snapshot r"
  shows "book_inv (snapshot_book r)"
    and "top_bids (snapshot_book r) = resp_bids r" and "top_asks (snapshot_book r) = resp_asks r"
proof -
  let ?B = "resp_bids r" and ?A = "resp_asks r"
  let ?n = "if length ?B > length ?A then length ?B else length ?A"
  define s0 where "s0 = (new_book ?n, push_bit 60 1 :: u64)"
  define s1 where "s1 = foldl (install_level Buy) s0 ?B"
  define s2 where "s2 = foldl (install_level Sell) s1 ?A"
  have dB: "distinct (map price ?B)" and dA: "distinct (map price ?A)"
    and gen: "\<And>l. l \<in> set ?B \<union> set ?A \<Longrightarrow> genuine_level l"
    and room: "order_total ?B + order_total ?A < 2 ^ 63"
    using assms strict_sorted_iff [of "rev (map price ?B)"] strict_sorted_iff [of "map price ?A"]
    by (auto simp: genuine_snapshot_def sorted_wrt_rev)
  have inv0: "synth_inv s0" by (simp add: s0_def synth_inv_def new_book_inv) (simp add: new_book_def)
  have z: "lq s0 bid x = 0" "lc s0 bid x = 0" for bid x
    by (simp_all add: s0_def lq_def lc_def new_book_def)
  have syn: "unat (snd s0) = 2 ^ 60" by (simp add: s0_def)
  have g1: "grows True s0 s1 (amount ?B) (heads ?B) (order_total ?B)"
    using install_side_grows [OF inv0, of ?B Buy] gen room amount_fits [OF dB]
    by (simp add: s1_def z syn)
  have g2: "grows False s1 s2 (amount ?A) (heads ?A) (order_total ?A)"
    using install_side_grows [of s1 ?A Sell] g1 gen room amount_fits [OF dA]
    by (simp add: s2_def z syn grows_def)
  have b: "snapshot_book r = fst s2"
    by (simp add: snapshot_book_def s2_def s1_def s0_def Let_def)
  show inv: "book_inv (snapshot_book r)" using g2 by (simp add: b grows_def synth_inv_def)
  have dep: "depth (fst s2) = ?n" using g1 g2 by (simp add: grows_def) (simp add: s0_def new_book_def)
  have ag: "lq s2 True = amount ?B" "lc s2 True = heads ?B" "lq s2 False = amount ?A" "lc s2 False = heads ?A"
    using g1 g2 z by (auto simp: grows_def fun_eq_iff)
  have rep: "represents std_greater (amount ?B) (heads ?B) (bid_levels (fst s2))"
      "represents std_less (amount ?A) (heads ?A) (ask_levels (fst s2))"
    and top: "top_bids (fst s2) = top_n ?n (bid_levels (fst s2))"
      "top_asks (fst s2) = top_n ?n (ask_levels (fst s2))"
    using inv by (simp_all add: b book_inv_def side_rep_def dep flip: ag lq_def lc_def)
  have "represents std_greater (amount ?B) (heads ?B) (map (\<lambda>l. (price l, l)) ?B)"
    using assms gen dB by (intro ladder_of_levels) (auto simp: genuine_snapshot_def std_compare_eta)
  then have "bid_levels (fst s2) = map (\<lambda>l. (price l, l)) ?B"
    using rep(1) bid.represents_unique by blast
  then show "top_bids (snapshot_book r) = ?B" by (simp add: b top top_n_take comp_def)
  have "represents std_less (amount ?A) (heads ?A) (map (\<lambda>l. (price l, l)) ?A)"
    using assms gen dA by (intro ladder_of_levels) (auto simp: genuine_snapshot_def std_compare_eta)
  then have "ask_levels (fst s2) = map (\<lambda>l. (price l, l)) ?A"
    using rep(2) ask.represents_unique by blast
  then show "top_asks (snapshot_book r) = ?A" by (simp add: b top top_n_take comp_def)
qed

end
