(* ===== verification/Feed_Sequencing.thy ===== *)
theory Feed_Sequencing
  imports Snapshot_Install Itch_Codec
begin

text \<open>
  The sequencing half of the feed handler: what \<^verbatim>\<open>check_sequence\<close> decides, by the contract of the
  sequencer, and what a stream of arrivals amounts to. The books play no part here.
\<close>

section \<open>One arrival\<close>

abbreviation due :: "FeedHandler \<Rightarrow> StockLocate \<Rightarrow> SequenceNumber option" where
  "due h \<equiv> expected_map (fh_gap h)"

lemma expected_due: "expected (fh_gap h) loc = (case due h loc of None \<Rightarrow> 0 | Some e \<Rightarrow> e)"
  by (rule expected_def)

lemma expected_set [simp]: "expected (set_expected g loc n) l = (if l = loc then n else expected g l)"
  by (simp add: expected_def gd.advances)

lemma less_succ:
  assumes "(w :: u64) \<noteq> - 1"
  shows "w < w + 1"
proof -
  have m: "unat (- 1 :: u64) = 2 ^ 64 - 1" by (simp add: unsigned_minus_1_eq_mask mask_eq_exp_minus_1)
  have "unat w \<noteq> unat (- 1 :: u64)" using assms word_unat_eq_iff by blast
  then have "unat w + 1 < 2 ^ 64" using unsigned_less [of w, where 'a = nat] m by simp
  then show ?thesis using unat_succ by (simp add: word_less_nat_alt)
qed

lemma less_succ_iff: "(w :: u64) \<noteq> - 1 \<Longrightarrow> x < w + 1 \<longleftrightarrow> x \<le> w"
proof -
  assume "w \<noteq> - 1"
  then have "unat w < unat (w + 1)" using less_succ by (simp add: word_less_nat_alt)
  then have "unat (w + 1) = unat w + 1" by (simp add: unat_word_ariths mod_Suc split: if_splits)
  then show ?thesis by (simp add: word_less_nat_alt word_le_nat_alt less_Suc_eq_le)
qed

lemma step_past_due:
  "due (step_past h loc seq) l =
     (if l = loc \<and> expected (fh_gap h) loc \<le> seq then Some (seq + 1) else due h l)"
  by (simp add: step_past_def gd.advances)

lemma step_past_frame [simp]:
  "fh_book (step_past h loc seq) = fh_book h" "skip_gaps (step_past h loc seq) = skip_gaps h"
  "has_gap_observer (step_past h loc seq) = has_gap_observer h" "stats (step_past h loc seq) = stats h"
  by (simp_all add: step_past_def)

lemma apply_snapshot_frame [simp]:
  "skip_gaps (apply_snapshot h r) = skip_gaps h"
  "has_gap_observer (apply_snapshot h r) = has_gap_observer h"
  by (simp_all add: apply_snapshot_def Let_def)

lemma apply_snapshot_due:
  "due (apply_snapshot h r) l = (if l = resp_locate r then Some (last_applied_seq r + 1) else due h l)"
  by (simp add: apply_snapshot_def Let_def gd.advances)

text \<open>An arrival that is due, or the first of its locate, passes.\<close>

lemma check_in_order:
  assumes "due h loc = None \<or> due h loc = Some seq"
  shows "\<exists>h'. check_sequence rq h loc seq = (None, [], h') \<and>
    due h' = (due h)(loc \<mapsto> seq + 1) \<and> fh_book h' = fh_book h \<and> skip_gaps h' = skip_gaps h \<and>
    has_gap_observer h' = has_gap_observer h"
proof -
  let ?g = "snd (observe (fh_gap h) loc seq)"
  have ok: "or_ok (fst (observe (fh_gap h) loc seq))" using assms gd.accepts by blast
  then have no: "\<not> or_gap (fst (observe (fh_gap h) loc seq))" "\<not> or_stale (fst (observe (fh_gap h) loc seq))"
    using gd.exclusive by blast+
  have d: "expected_map ?g l = (if l = loc then Some (seq + 1) else due h l)" for l
    using gd.moves_on [of "fh_gap h" loc seq l] ok by simp
  have "due (step_past (h\<lparr>fh_gap := ?g\<rparr>) loc seq) = (due h)(loc \<mapsto> seq + 1)"
    by (auto simp: fun_eq_iff step_past_due d)
  then show ?thesis
    by (simp add: check_sequence_def case_prod_unfold Let_def no)
qed

text \<open>An arrival before the one due is dropped.\<close>

lemma check_stale:
  assumes "due h loc = Some e" "seq < e"
  shows "\<exists>h'. check_sequence rq h loc seq = (Some False, [], h') \<and> due h' = due h \<and>
    fh_book h' = fh_book h \<and> skip_gaps h' = skip_gaps h \<and> has_gap_observer h' = has_gap_observer h"
proof -
  have st: "or_stale (fst (observe (fh_gap h) loc seq))" using assms gd.reports_stale by blast
  then have "\<not> or_ok (fst (observe (fh_gap h) loc seq))" using gd.exclusive by blast
  then have "expected_map (snd (observe (fh_gap h) loc seq)) = due h"
    by (auto simp: fun_eq_iff gd.moves_on)
  then show ?thesis using st by (simp add: check_sequence_def case_prod_unfold Let_def)
qed

text \<open>An arrival after the one due is a gap; what happens depends on the recovery set up.\<close>

definition gap_reports :: "FeedHandler \<Rightarrow> StockLocate \<Rightarrow> SequenceNumber \<Rightarrow> SequenceNumber \<Rightarrow> gap_report list" where
  "gap_reports h loc e seq = (if has_gap_observer h then [(loc, e, seq - 1)] else [])"

lemma check_gap:
  assumes e: "due h loc = Some e" "e < seq"
  shows "\<exists>h1. due h1 = due h \<and> fh_book h1 = fh_book h \<and> skip_gaps h1 = skip_gaps h \<and>
    has_gap_observer h1 = has_gap_observer h \<and>
    check_sequence rq h loc seq =
      (case rq of
         Some ask \<Rightarrow> (case ask \<lparr>req_locate = loc, from_seq = e\<rparr> of
             Some resp \<Rightarrow>
               if seq \<ge> expected (fh_gap (apply_snapshot h1 resp)) loc
               then (None, gap_reports h loc e seq, step_past (apply_snapshot h1 resp) loc seq)
               else (Some True, gap_reports h loc e seq, apply_snapshot h1 resp)
           | None \<Rightarrow> (Some False, gap_reports h loc e seq, h1))
       | None \<Rightarrow>
           if skip_gaps h
           then (None, gap_reports h loc e seq,
                 step_past (h1\<lparr>fh_gap := set_expected (fh_gap h1) loc seq\<rparr>) loc seq)
           else (Some False, gap_reports h loc e seq, h1))"
proof -
  have g: "or_gap (fst (observe (fh_gap h) loc seq))" using e gd.reports_gap by blast
  then have no: "\<not> or_ok (fst (observe (fh_gap h) loc seq))" "\<not> or_stale (fst (observe (fh_gap h) loc seq))"
    using gd.exclusive by blast+
  have ev: "or_event (fst (observe (fh_gap h) loc seq)) = \<lparr>ge_locate = loc, ge_expected = e, ge_received = seq\<rparr>"
    using e by (rule gd.names_gap)
  have same: "expected_map (snd (observe (fh_gap h) loc seq)) = due h"
    using no by (auto simp: fun_eq_iff gd.moves_on)
  let ?h = "h\<lparr>fh_gap := snd (observe (fh_gap h) loc seq)\<rparr>"
  let ?h1 = "?h\<lparr>stats := (stats ?h)\<lparr>gaps_detected := gaps_detected (stats ?h) + 1\<rparr>\<rparr>"
  let ?h2 = "?h1\<lparr>stats := (stats ?h1)\<lparr>snapshots_requested := snapshots_requested (stats ?h1) + 1\<rparr>\<rparr>"
  show ?thesis
    by (rule exI [of _ "if rq = None then ?h1 else ?h2"])
       (simp add: check_sequence_def case_prod_unfold Let_def g no ev same gap_reports_def
          split: option.split)
qed


text \<open>Other locates are only touched by a snapshot that names them.\<close>

definition honest :: "requester \<Rightarrow> bool" where
  "honest rq \<longleftrightarrow> (\<forall>ask req resp. rq = Some ask \<longrightarrow> ask req = Some resp \<longrightarrow>
     resp_locate resp = req_locate req \<and> from_seq req \<le> last_applied_seq resp + 1)"

text \<open>
  One arrival under an honest requester: the number due never goes back, other locates keep
  theirs, and what passes was not before the number due and is before the next one.
\<close>

lemma check_sequence_step:
  assumes hon: "honest rq" and max: "seq \<noteq> - 1" and c: "check_sequence rq h loc seq = (ret, reps, h')"
  shows "(\<forall>l. l \<noteq> loc \<longrightarrow> due h' l = due h l) \<and>
    (\<exists>e'. due h' loc = Some e' \<and> (\<forall>e. due h loc = Some e \<longrightarrow> e \<le> e') \<and>
      (ret = None \<longrightarrow> (\<forall>e. due h loc = Some e \<longrightarrow> e \<le> seq) \<and> seq < e'))"
proof -
  have suc: "seq < seq + 1" using max by (rule less_succ)
  consider (due) "due h loc = None \<or> due h loc = Some seq" | (stale) e where "due h loc = Some e" "seq < e"
    | (gap) e where "due h loc = Some e" "e < seq"
    by (cases "due h loc") (auto, meson linorder_neqE)
  then show ?thesis
  proof cases
    case due
    from check_in_order [OF this, of rq] c have "ret = None" "due h' = (due h)(loc \<mapsto> seq + 1)" by auto
    then show ?thesis using due suc by auto
  next
    case stale
    from check_stale [OF stale, of rq] c have "ret = Some False" "due h' = due h" by auto
    then show ?thesis using stale by auto
  next
    case gap
    obtain h1 where h1: "due h1 = due h" and eq: "check_sequence rq h loc seq =
      (case rq of
         Some ask \<Rightarrow> (case ask \<lparr>req_locate = loc, from_seq = e\<rparr> of
             Some resp \<Rightarrow>
               if seq \<ge> expected (fh_gap (apply_snapshot h1 resp)) loc
               then (None, gap_reports h loc e seq, step_past (apply_snapshot h1 resp) loc seq)
               else (Some True, gap_reports h loc e seq, apply_snapshot h1 resp)
           | None \<Rightarrow> (Some False, gap_reports h loc e seq, h1))
       | None \<Rightarrow>
           if skip_gaps h
           then (None, gap_reports h loc e seq,
                 step_past (h1\<lparr>fh_gap := set_expected (fh_gap h1) loc seq\<rparr>) loc seq)
           else (Some False, gap_reports h loc e seq, h1))"
      using check_gap [OF gap, of rq] by blast
    show ?thesis
    proof (cases rq)
      case None
      then show ?thesis
        using c gap suc h1 unfolding eq
        by (auto simp: step_past_due expected_due gd.advances split: if_splits)
    next
      case (Some ask)
      show ?thesis
      proof (cases "ask \<lparr>req_locate = loc, from_seq = e\<rparr>")
        case None
        then show ?thesis using c gap h1 Some unfolding eq by auto
      next
        case resp: (Some resp)
        then have r: "resp_locate resp = loc" "e \<le> last_applied_seq resp + 1"
          using hon Some by (force simp: honest_def)+
        have ex: "expected (fh_gap (apply_snapshot h1 resp)) loc = last_applied_seq resp + 1"
          by (simp add: expected_due apply_snapshot_due r)
        show ?thesis
        proof (cases "last_applied_seq resp + 1 \<le> seq")
          case True
          then have "ret = None" "h' = step_past (apply_snapshot h1 resp) loc seq"
            using c [unfolded eq] Some resp ex True by simp_all
          then show ?thesis
            using True gap suc h1 r by (auto simp: step_past_due ex apply_snapshot_due)
        next
          case False
          then have "ret = Some True" "h' = apply_snapshot h1 resp"
            using c [unfolded eq] Some resp ex False by simp_all
          then show ?thesis using gap h1 r by (auto simp: apply_snapshot_due)
        qed
      qed
    qed
  qed
qed

section \<open>Streams of arrivals\<close>

text \<open>
  The gap reports and the numbers that pass, over a stream of arrivals, each with the requester in
  place when it comes.
\<close>

fun arrivals :: "FeedHandler \<Rightarrow> (requester \<times> StockLocate \<times> SequenceNumber) list \<Rightarrow>
    (StockLocate \<times> SequenceNumber) list \<times> gap_report list \<times> FeedHandler" where
  "arrivals h [] = ([], [], h)"
| "arrivals h ((rq, loc, seq) # as) =
     (let (ret, reps, h') = check_sequence rq h loc seq;
          (passed, reports, h'') = arrivals h' as
      in ((if ret = None then [(loc, seq)] else []) @ passed, reps @ reports, h''))"

definition passed_on :: "StockLocate \<Rightarrow> (StockLocate \<times> SequenceNumber) list \<Rightarrow> SequenceNumber list" where
  "passed_on l ps = map snd (filter (\<lambda>p. fst p = l) ps)"

lemma passed_on_append [simp]: "passed_on l (xs @ ys) = passed_on l xs @ passed_on l ys"
  by (simp add: passed_on_def)

lemma passed_on_Cons [simp]:
  "passed_on l ((loc, seq) # ps) = (if loc = l then [seq] else []) @ passed_on l ps" "passed_on l [] = []"
  by (simp_all add: passed_on_def)

lemma arrivals_increasing:
  "(\<forall>(rq, loc, seq) \<in> set as. honest rq \<and> seq \<noteq> - 1) \<Longrightarrow>
   (\<forall>e. due h l = Some e \<longrightarrow> (\<forall>s \<in> set (passed_on l (fst (arrivals h as))). e \<le> s)) \<and>
   sorted_wrt (<) (passed_on l (fst (arrivals h as)))"
proof (induction as arbitrary: h)
  case (Cons a as)
  obtain rq loc seq where a: "a = (rq, loc, seq)" by (cases a)
  obtain ret reps h' where c: "check_sequence rq h loc seq = (ret, reps, h')" by (metis prod_cases3)
  have st: "(\<forall>l. l \<noteq> loc \<longrightarrow> due h' l = due h l) \<and>
    (\<exists>e'. due h' loc = Some e' \<and> (\<forall>e. due h loc = Some e \<longrightarrow> e \<le> e') \<and>
      (ret = None \<longrightarrow> (\<forall>e. due h loc = Some e \<longrightarrow> e \<le> seq) \<and> seq < e'))"
    using Cons.prems by (intro check_sequence_step [OF _ _ c]) (auto simp: a)
  have IH: "(\<forall>e. due h' l = Some e \<longrightarrow> (\<forall>s \<in> set (passed_on l (fst (arrivals h' as))). e \<le> s)) \<and>
     sorted_wrt (<) (passed_on l (fst (arrivals h' as)))"
    using Cons.prems by (intro Cons.IH) auto
  have p: "fst (arrivals h (a # as)) = (if ret = None then [(loc, seq)] else []) @ fst (arrivals h' as)"
    by (simp add: a c case_prod_unfold Let_def)
  show ?case
  proof (cases "loc = l")
    case True
    then obtain e' where e': "due h' l = Some e'" "\<And>e. due h l = Some e \<Longrightarrow> e \<le> e'"
        "ret = None \<Longrightarrow> (\<forall>e. due h l = Some e \<longrightarrow> e \<le> seq) \<and> seq < e'"
      using st by blast
    then have ge: "e' \<le> s" if "s \<in> set (passed_on l (fst (arrivals h' as)))" for s
      using IH that by blast
    then show ?thesis
      using IH e' True unfolding p
      by (cases "ret = None") (auto intro: order_trans order_less_le_trans)
  next
    case False
    then show ?thesis using IH st unfolding p by auto
  qed
qed simp

section \<open>Gap accounting without recovery\<close>

text \<open>The sequence numbers a report names, and those that pass or are named, for one locate.\<close>

definition reported :: "StockLocate \<Rightarrow> gap_report list \<Rightarrow> SequenceNumber set" where
  "reported l rs = (\<Union>(loc, a, b) \<in> set rs. if loc = l then {a..b} else {})"

lemma reported_append [simp]: "reported l (xs @ ys) = reported l xs \<union> reported l ys"
  by (auto simp: reported_def)

lemma interval_pred: "(e :: u64) < s \<Longrightarrow> {e..s - 1} = {e..<s}"
  by (auto simp: word_less_nat_alt word_le_nat_alt unat_sub)

lemma check_skip_step:
  assumes ob: "has_gap_observer h" and skip: "skip_gaps h" and max: "seq \<noteq> - 1"
    and e: "due h loc = Some e" and c: "check_sequence None h loc seq = (ret, reps, h')"
  shows "has_gap_observer h' \<and> skip_gaps h' \<and> (\<forall>l. l \<noteq> loc \<longrightarrow> due h' l = due h l) \<and>
    (if seq < e then ret = Some False \<and> reps = [] \<and> due h' loc = Some e
     else ret = None \<and> due h' loc = Some (seq + 1) \<and>
       reps = (if e = seq then [] else [(loc, e, seq - 1)]))"
proof -
  consider "e = seq" | "seq < e" | "e < seq" by (meson linorder_neqE)
  then show ?thesis
  proof cases
    case 1
    then have "due h loc = None \<or> due h loc = Some seq" using e by simp
    from check_in_order [OF this, of None] c show ?thesis using ob skip 1 by auto
  next
    case 2
    from check_stale [OF e 2, of None] c show ?thesis using ob skip 2 e by auto
  next
    case 3
    from check_gap [OF e 3, of None] c skip ob show ?thesis
      using 3 by (auto simp: step_past_due expected_due gd.advances gap_reports_def)
  qed
qed


lemma check_skip_frame:
  assumes ob: "has_gap_observer h" and skip: "skip_gaps h" and max: "seq \<noteq> - 1"
    and c: "check_sequence None h loc seq = (ret, reps, h')"
  shows "has_gap_observer h' \<and> skip_gaps h' \<and> (\<forall>l. l \<noteq> loc \<longrightarrow> due h' l = due h l \<and> reported l reps = {})"
proof (cases "due h loc")
  case None
  then have "due h loc = None \<or> due h loc = Some seq" by simp
  from check_in_order [OF this, of None] c show ?thesis using ob skip by (auto simp: reported_def)
next
  case (Some e)
  from check_skip_step [OF ob skip max Some c] show ?thesis by (auto simp: reported_def split: if_splits)
qed

lemma skip_accounting:
  "has_gap_observer h \<Longrightarrow> skip_gaps h \<Longrightarrow> (\<forall>(rq, loc, seq) \<in> set as. rq = None \<and> seq \<noteq> - 1) \<Longrightarrow>
   due h l = Some e \<Longrightarrow>
   \<exists>e'. due (snd (snd (arrivals h as))) l = Some e' \<and> e \<le> e' \<and>
     set (passed_on l (fst (arrivals h as))) \<union> reported l (fst (snd (arrivals h as))) = {e..<e'} \<and>
     set (passed_on l (fst (arrivals h as))) \<inter> reported l (fst (snd (arrivals h as))) = {}"
proof (induction as arbitrary: h e)
  case Nil
  then show ?case by (auto simp: reported_def)
next
  case (Cons a as)
  obtain loc seq where a: "a = (None, loc, seq)" "seq \<noteq> - 1" using Cons.prems(3) by (cases a) auto
  obtain ret reps h' where c: "check_sequence None h loc seq = (ret, reps, h')" by (metis prod_cases3)
  have unfold: "fst (arrivals h (a # as)) = (if ret = None then [(loc, seq)] else []) @ fst (arrivals h' as)"
    "fst (snd (arrivals h (a # as))) = reps @ fst (snd (arrivals h' as))"
    "snd (snd (arrivals h (a # as))) = snd (snd (arrivals h' as))"
    by (simp_all add: a c case_prod_unfold Let_def)
  show ?case
  proof (cases "loc = l")
    case True
    note st = check_skip_step [OF Cons.prems(1,2) a(2) Cons.prems(4) c [unfolded True]]
    have IH: "\<exists>e'. due (snd (snd (arrivals h' as))) l = Some e' \<and> x \<le> e' \<and>
       set (passed_on l (fst (arrivals h' as))) \<union> reported l (fst (snd (arrivals h' as))) = {x..<e'} \<and>
       set (passed_on l (fst (arrivals h' as))) \<inter> reported l (fst (snd (arrivals h' as))) = {}"
      if "due h' l = Some x" for x
      using Cons.IH [of h' x] st Cons.prems(3) that by auto
    show ?thesis
    proof (cases "seq < e")
      case True
      with st have "ret = Some False" "reps = []" "due h' l = Some e" by auto
      with IH [of e] show ?thesis unfolding unfold by simp
    next
      case False
      with st have r: "ret = None" "due h' l = Some (seq + 1)"
        "reps = (if e = seq then [] else [(l, e, seq - 1)])" by auto
      have le: "e \<le> seq" using False by simp
      have last: "{e..<seq + 1} = {e..seq}"
        by (intro set_eqI) (simp only: atLeastLessThan_iff atLeastAtMost_iff less_succ_iff [OF a(2)])
      have rep: "reported l reps = {e..<seq}"
      proof (cases "e = seq")
        case False
        then have "reported l reps = {e..seq - 1}" by (simp add: r(3) reported_def)
        then show ?thesis using False le interval_pred [of e seq] by simp
      qed (simp add: r(3) reported_def)
      have "{seq} \<union> {e..<seq} = {e..seq}" using le by auto
      then have head: "set (passed_on l [(loc, seq)]) \<union> reported l reps = {e..<seq + 1}"
        "set (passed_on l [(loc, seq)]) \<inter> reported l reps = {}"
        by (simp_all add: True rep last)
      from IH [OF r(2)] obtain e' where e': "due (snd (snd (arrivals h' as))) l = Some e'" "seq + 1 \<le> e'"
       "set (passed_on l (fst (arrivals h' as))) \<union> reported l (fst (snd (arrivals h' as))) = {seq + 1..<e'}"
       "set (passed_on l (fst (arrivals h' as))) \<inter> reported l (fst (snd (arrivals h' as))) = {}"
        by blast
      have "{e..<seq + 1} \<union> {seq + 1..<e'} = {e..<e'}" "{e..<seq + 1} \<inter> {seq + 1..<e'} = {}"
        using le less_succ [OF a(2)] e'(2) by auto
      then have "set (passed_on l [(loc, seq)]) \<union> reported l reps \<union>
          (set (passed_on l (fst (arrivals h' as))) \<union> reported l (fst (snd (arrivals h' as)))) = {e..<e'}"
        "(set (passed_on l [(loc, seq)]) \<union> reported l reps) \<inter>
          (set (passed_on l (fst (arrivals h' as))) \<union> reported l (fst (snd (arrivals h' as)))) = {}"
        unfolding head(1) e'(3) by (simp_all only:)
      moreover have "e \<le> e'" using le less_succ [OF a(2)] e'(2) by simp
      ultimately show ?thesis
        unfolding unfold using r(1) e'(1,4) head(2)
        by (intro exI [of _ e']) (simp add: Int_Un_distrib Int_Un_distrib2 Un_ac, simp add: Int_commute)
    qed
  next
    case False
    note st = check_skip_frame [OF Cons.prems(1,2) a(2) c]
    then have "due h' l = Some e" "reported l reps = {}" using False Cons.prems(4) by auto
    moreover have "set (passed_on l (if ret = None then [(loc, seq)] else [])) = {}" using False by simp
    ultimately show ?thesis
      unfolding unfold using Cons.IH [of h' e] st Cons.prems(3) by auto
  qed
qed

end
