(* ===== verification/Feed_Properties.thy ===== *)
theory Feed_Properties
  imports Feed_Sequencing Book_Properties
begin

text \<open>
  The properties of the feed handler (\<^verbatim>\<open>src/core/feed_handler.cpp\<close>, \<^verbatim>\<open>src/recovery/gap_detector.cpp\<close>):
  safety on every input, delivery in order, recovery by snapshot and its limits.
\<close>

section \<open>Safety\<close>

lemma hdr_u16_read: "hdr_u16 = read_u16"
  by (simp add: fun_eq_iff hdr_u16_def read_u16_def)

lemma hdr_u64_loop_read: "hdr_u64_loop b p n v = read_be_loop b p n v"
  by (induction n arbitrary: p v) simp_all

lemma hdr_u64_read: "hdr_u64 = read_u64"
  by (simp add: fun_eq_iff hdr_u64_def read_u64_def hdr_u64_loop_read)

lemma apply_snapshot_wf: "db_wf (fh_book h) \<Longrightarrow> db_wf (fh_book (apply_snapshot h r))"
  using book_for_some [of "fh_book h" "resp_symbol r"]
  by (auto simp: apply_snapshot_def Let_def intro!: db_wf_put_book db_wf_book_for)

lemma check_sequence_book:
  "fh_book (snd (snd (check_sequence rq h loc seq))) = fh_book h \<or>
   (\<exists>r. fh_book (snd (snd (check_sequence rq h loc seq))) = fh_book (apply_snapshot h r))"
  by (auto simp: check_sequence_def case_prod_unfold Let_def apply_snapshot_def split: option.split)

lemma check_sequence_wf:
  "db_wf (fh_book h) \<Longrightarrow> db_wf (fh_book (snd (snd (check_sequence rq h loc seq))))"
  using check_sequence_book [of rq h loc seq] apply_snapshot_wf [of h] by auto

lemma apply_payload_wf:
  assumes "db_wf (fh_book h)"
  shows "\<exists>r snap h'. apply_payload h body = Some (r, snap, h') \<and> db_wf (fh_book h')"
proof -
  obtain pr where pr: "decode_frame body = Some pr" using decode_frame_safe [of body] by auto
  show ?thesis
  proof (cases "status pr = Ok \<and> message pr \<noteq> None")
    case True
    then obtain m where m: "status pr = Ok" "message pr = Some m" by auto
    obtain e d' where v: "visit_msg (fh_book h) m = Some (e, d')" "db_wf d'"
      using visit_msg_wf [OF assms] by blast
    then show ?thesis
      by (cases e) (auto simp: apply_payload_def pr m apply_msg_def)
  next
    case False
    then have "apply_payload h body = Some (False, None, parse_error h)"
      by (auto simp: apply_payload_def pr split: ParseStatus.split option.split)
    moreover have "db_wf (fh_book (parse_error h))" using assms by (simp add: parse_error_def)
    ultimately show ?thesis by blast
  qed
qed

lemma apply_payload_frame:
  assumes "apply_payload h b = Some (r, snap, h')"
  shows "fh_gap h' = fh_gap h \<and> skip_gaps h' = skip_gaps h \<and> has_gap_observer h' = has_gap_observer h"
proof -
  obtain pr where "decode_frame b = Some pr" using assms by (auto simp: apply_payload_def bind_eq_Some_conv)
  then show ?thesis using assms
    by (cases "status pr"; cases "message pr")
      (auto simp: apply_payload_def parse_error_def bind_eq_Some_conv Let_def split: if_splits)
qed

lemma hdr_in_bounds:
  "10 \<le> length data \<Longrightarrow> hdr_u16 data 0 = Some (be_word (take 2 data))"
  "10 \<le> length data \<Longrightarrow> hdr_u64 data 2 = Some (be_word (take 8 (drop 2 data)))"
  by (simp_all add: hdr_u16_read hdr_u64_read read_u16_bslice read_u64_bslice bslice_def)

definition counted :: "FeedHandler \<Rightarrow> byte list \<Rightarrow> FeedHandler" where
  "counted h data = h\<lparr>stats := (stats h)\<lparr>bytes_in := bytes_in (stats h) + of_nat (length data),
     datagrams_in := datagrams_in (stats h) + 1\<rparr>\<rparr>"

lemma counted_frame [simp]:
  "fh_book (counted h data) = fh_book h" "fh_gap (counted h data) = fh_gap h"
  "skip_gaps (counted h data) = skip_gaps h" "has_gap_observer (counted h data) = has_gap_observer h"
  by (simp_all add: counted_def)

lemma on_datagram_eq:
  assumes len: "12 \<le> length data"
    and hdr: "hdr_u16 data 0 = Some loc" "hdr_u64 data 2 = Some seq"
    and c: "(if seq \<noteq> 0 then check_sequence rq (counted h data) loc seq else (None, [], counted h data)) =
      (ret, reps, h1)"
  shows "on_datagram rq h data = (case ret of Some r \<Rightarrow> Some (r, reps, None, h1)
      | None \<Rightarrow> do { (r, snap, h) \<leftarrow> apply_payload h1 (drop 10 data); Some (r, reps, snap, h) })"
proof -
  have "\<not> length data < 10 + 2" using len by simp
  then show ?thesis
    unfolding on_datagram_def counted_def [symmetric] kTransportHeaderSize_def Let_def hdr bind.bind_lunit c
    by simp
qed

definition handler_step :: "FeedHandler \<Rightarrow> requester \<times> byte list \<Rightarrow> FeedHandler option" where
  "handler_step h x = map_option (\<lambda>(r, reps, snap, h'). h') (on_datagram (fst x) h (snd x))"

lemma handler_step_wf:
  assumes "db_wf (fh_book h)"
  shows "\<exists>h'. handler_step h x = Some h' \<and> db_wf (fh_book h')"
proof (cases "length (snd x) < 12")
  case True
  then show ?thesis
    using assms by (simp add: handler_step_def on_datagram_def kTransportHeaderSize_def Let_def parse_error_def)
next
  case False
  let ?data = "snd x"
  let ?loc = "be_word (take 2 ?data) :: u16" and ?seq = "be_word (take 8 (drop 2 ?data)) :: u64"
  obtain ret reps h1 where c: "(if ?seq \<noteq> 0 then check_sequence (fst x) (counted h ?data) ?loc ?seq
      else (None, [], counted h ?data)) = (ret, reps, h1)" by (metis prod_cases3)
  have "db_wf (fh_book h1)"
    using c check_sequence_wf [of "counted h ?data" "fst x" ?loc ?seq] assms by (auto split: if_splits)
  moreover have "on_datagram (fst x) h ?data = (case ret of Some r \<Rightarrow> Some (r, reps, None, h1)
      | None \<Rightarrow> do { (r, snap, h) \<leftarrow> apply_payload h1 (drop 10 ?data); Some (r, reps, snap, h) })"
    using False hdr_in_bounds [of ?data] by (intro on_datagram_eq [OF _ _ _ c]) auto
  ultimately show ?thesis
    using apply_payload_wf [of h1 "drop 10 ?data"] by (cases ret) (auto simp: handler_step_def)
qed

interpretation fh_safe: simulation "\<lambda>h. db_wf (fh_book h)" "\<lambda>h. ()" handler_step
  "\<lambda>g m. ()" "\<lambda>g m. True" "\<lambda>g. True"
  by unfold_locales (use handler_step_wf in blast)

text \<open>C33: no datagram, however short, malformed, stale or out of order, and no answer of the recovery
  server makes the handler read outside the datagram or use a missing book: a stream of any
  datagrams is processed to its end.\<close>

theorem handler_memory_safe:
  "run_steps handler_step ((set_skip_gaps (new_feed_handler n) sk)\<lparr>has_gap_observer := ob\<rparr>) xs \<noteq> None"
proof -
  have "admissible (\<lambda>g m. ()) (\<lambda>g m. True) (\<lambda>g. True) u xs" for u by (induction xs) simp_all
  moreover have "db_wf (fh_book ((set_skip_gaps (new_feed_handler n) sk)\<lparr>has_gap_observer := ob\<rparr>))"
    by (simp add: set_skip_gaps_def new_feed_handler_def db_wf_new)
  ultimately show ?thesis using fh_safe.run_total by blast
qed


section \<open>Delivery without recovery\<close>

text \<open>
  A delivery is the content of a datagram: locate, sequence number and message. \<^verbatim>\<open>carries\<close> says that
  the bytes are a datagram with that content.
\<close>

type_synonym delivery = "StockLocate \<times> SequenceNumber \<times> AnyMessage"

fun carries :: "byte list \<Rightarrow> delivery \<Rightarrow> bool" where
  "carries data (loc, seq, m) \<longleftrightarrow>
     12 \<le> length data \<and> take 2 data = be_bytes 2 loc \<and> take 8 (drop 2 data) = be_bytes 8 seq \<and>
     decode_frame (drop 10 data) =
       Some \<lparr>status = Ok, consumed = framed_size m, message = Some m\<rparr>"

text \<open>
  The intended effect: numbers due per locate and the market. A message with sequence 0 always
  applies; another one applies when it is due (or the first of its locate), and with gap skipping
  also when it is late; all others leave everything as it was.
\<close>

type_synonym feed_view = "(StockLocate \<rightharpoonup> SequenceNumber) \<times> market"

fun deliver :: "bool \<Rightarrow> feed_view \<Rightarrow> delivery \<Rightarrow> feed_view" where
  "deliver skip (dm, g) (loc, seq, m) =
     (if seq = 0 then (dm, feed_step g m)
      else case dm loc of
        None \<Rightarrow> (dm(loc \<mapsto> seq + 1), feed_step g m)
      | Some e \<Rightarrow>
          if seq = e \<or> skip \<and> e < seq then (dm(loc \<mapsto> seq + 1), feed_step g m) else (dm, g))"

definition handler_view :: "FeedHandler \<Rightarrow> feed_view" where
  "handler_view h = (expected_map (fh_gap h), global (fh_book h))"

definition handler_good :: "nat \<Rightarrow> bool \<Rightarrow> FeedHandler \<Rightarrow> bool" where
  "handler_good n sk h \<longleftrightarrow> db_inv (fh_book h) \<and> db_depth (fh_book h) = n \<and> skip_gaps h = sk"

lemma apply_payload_Ok:
  assumes d: "decode_frame body = Some \<lparr>status = Ok, consumed = k, message = Some m\<rparr>"
    and inv: "db_inv (fh_book h)" "msg_ok (global (fh_book h)) m"
      "market_fits (feed_step (global (fh_book h)) m)"
  shows "\<exists>snap h'. apply_payload h body = Some (True, snap, h') \<and> db_inv (fh_book h') \<and>
    global (fh_book h') = feed_step (global (fh_book h)) m \<and> fh_gap h' = fh_gap h \<and>
    skip_gaps h' = skip_gaps h \<and> db_depth (fh_book h') = db_depth (fh_book h)"
proof -
  obtain ch snap d' where a: "apply_msg (fh_book h) m = Some (ch, snap, d')" "db_inv d'"
      "global d' = feed_step (global (fh_book h)) m" "db_depth d' = db_depth (fh_book h)"
    using apply_msg_implements [OF inv] by blast
  then show ?thesis by (simp add: apply_payload_def d Let_def)
qed

lemma check_no_recovery:
  assumes "seq \<noteq> 0"
  shows "\<exists>ret reps h'. check_sequence None h loc seq = (ret, reps, h') \<and> fh_book h' = fh_book h \<and>
    skip_gaps h' = skip_gaps h \<and>
    (if (case expected_map (fh_gap h) loc of None \<Rightarrow> True | Some e \<Rightarrow> seq = e \<or> skip_gaps h \<and> e < seq)
     then ret = None \<and> expected_map (fh_gap h') = (expected_map (fh_gap h))(loc \<mapsto> seq + 1)
     else ret = Some False \<and> expected_map (fh_gap h') = expected_map (fh_gap h))"
proof -
  consider (ok) "expected_map (fh_gap h) loc = None \<or> expected_map (fh_gap h) loc = Some seq"
    | (stale) e where "expected_map (fh_gap h) loc = Some e" "seq < e"
    | (gap) e where "expected_map (fh_gap h) loc = Some e" "e < seq"
    by (cases "expected_map (fh_gap h) loc") (auto, meson linorder_neqE)
  then show ?thesis
  proof cases
    case ok
    from check_in_order [OF this, of None] show ?thesis using ok by (auto split: option.splits)
  next
    case stale
    then have "seq \<noteq> e" "\<not> e < seq" by auto
    with check_stale [OF stale, of None] show ?thesis using stale by auto
  next
    case gap
    from check_gap [OF gap, of None] obtain h1 where h1: "expected_map (fh_gap h1) = expected_map (fh_gap h)"
        "fh_book h1 = fh_book h" "skip_gaps h1 = skip_gaps h"
        "check_sequence None h loc seq = (if skip_gaps h
           then (None, gap_reports h loc e seq,
                 step_past (h1\<lparr>fh_gap := set_expected (fh_gap h1) loc seq\<rparr>) loc seq)
           else (Some False, gap_reports h loc e seq, h1))" by auto
    have "expected_map (fh_gap (step_past (h1\<lparr>fh_gap := set_expected (fh_gap h1) loc seq\<rparr>) loc seq)) =
        (expected_map (fh_gap h))(loc \<mapsto> seq + 1)"
      by (auto simp: fun_eq_iff step_past_due gd.advances h1)
    then show ?thesis using gap h1 by auto
  qed
qed

lemma handler_delivers:
  assumes good: "handler_good n sk h" and carry: "carries data dl"
    and ok: "msg_ok (snd (handler_view h)) (snd (snd dl))"
    and fit: "market_fits (feed_step (snd (handler_view h)) (snd (snd dl)))"
  shows "\<exists>h'. handler_step h (None, data) = Some h' \<and> handler_good n sk h' \<and>
    handler_view h' = deliver sk (handler_view h) dl"
proof -
  obtain loc seq m where dl: "dl = (loc, seq, m)" by (cases dl)
  have len: "12 \<le> length data" and hdr: "hdr_u16 data 0 = Some loc" "hdr_u64 data 2 = Some seq"
    and dec: "decode_frame (drop 10 data) = Some \<lparr>status = Ok, consumed = framed_size m, message = Some m\<rparr>"
    using carry hdr_in_bounds [of data] by (simp_all add: dl)
  have inv: "db_inv (fh_book h)" and n: "db_depth (fh_book h) = n" and sk: "skip_gaps h = sk"
    using good by (simp_all add: handler_good_def)
  let ?v = "expected_map (fh_gap h)" and ?g = "global (fh_book h)"
  have pay: "\<exists>snap h'. apply_payload h1 (drop 10 data) = Some (True, snap, h') \<and> handler_good n sk h' \<and>
      handler_view h' = (expected_map (fh_gap h1), feed_step ?g m)"
    if "fh_book h1 = fh_book h" "skip_gaps h1 = sk" for h1
    using apply_payload_Ok [OF dec, of h1] inv ok fit n that
    by (fastforce simp: handler_view_def handler_good_def dl)
  show ?thesis
  proof (cases "seq = 0")
    case True
    have "on_datagram None h data = do { (r, snap, h) \<leftarrow> apply_payload (counted h data) (drop 10 data); Some (r, [], snap, h) }"
      using on_datagram_eq [OF len hdr, of None h None "[]" "counted h data"] True by simp
    then show ?thesis using pay [of "counted h data"] sk True
      by (auto simp: handler_step_def dl handler_view_def)
  next
    case False
    obtain ret reps h1 where c: "check_sequence None (counted h data) loc seq = (ret, reps, h1)"
      and h1: "fh_book h1 = fh_book h" "skip_gaps h1 = sk"
        "if (case ?v loc of None \<Rightarrow> True | Some e \<Rightarrow> seq = e \<or> sk \<and> e < seq)
         then ret = None \<and> expected_map (fh_gap h1) = ?v(loc \<mapsto> seq + 1)
         else ret = Some False \<and> expected_map (fh_gap h1) = ?v"
      using check_no_recovery [OF False, of "counted h data" loc] unfolding counted_frame sk by blast
    note od = on_datagram_eq [OF len hdr, of None h ret reps h1]
    show ?thesis
    proof (cases "case ?v loc of None \<Rightarrow> True | Some e \<Rightarrow> seq = e \<or> sk \<and> e < seq")
      case True
      then have r: "ret = None" "expected_map (fh_gap h1) = ?v(loc \<mapsto> seq + 1)" using h1(3) by auto
      obtain snap h' where h': "apply_payload h1 (drop 10 data) = Some (True, snap, h')" "handler_good n sk h'"
          "handler_view h' = (expected_map (fh_gap h1), feed_step ?g m)" using pay [OF h1(1,2)] by blast
      have "deliver sk (handler_view h) dl = (?v(loc \<mapsto> seq + 1), feed_step ?g m)"
        using True False by (auto simp: dl handler_view_def split: option.splits)
      then show ?thesis using od c False r h' by (simp add: handler_step_def)
    next
      case no: False
      then have r: "ret = Some False" "expected_map (fh_gap h1) = ?v" using h1(3) by auto
      have "deliver sk (handler_view h) dl = (?v, ?g)"
        using no False by (auto simp: dl handler_view_def split: option.splits)
      moreover have "handler_good n sk h1" "handler_view h1 = (?v, ?g)"
        using h1 r inv n by (simp_all add: handler_good_def handler_view_def)
      ultimately show ?thesis using od c False r by (simp add: handler_step_def)
    qed
  qed
qed

definition deliver_step :: "FeedHandler \<Rightarrow> byte list \<times> delivery \<Rightarrow> FeedHandler option" where
  "deliver_step h x = handler_step h (None, fst x)"

definition delivery_ok :: "feed_view \<Rightarrow> byte list \<times> delivery \<Rightarrow> bool" where
  "delivery_ok v x \<longleftrightarrow> carries (fst x) (snd x) \<and> msg_ok (snd v) (snd (snd (snd x))) \<and>
     market_fits (feed_step (snd v) (snd (snd (snd x))))"

interpretation fh: simulation "handler_good n sk" handler_view deliver_step
  "\<lambda>v x. deliver sk v (snd x)" delivery_ok "\<lambda>v. True" for n sk
  by unfold_locales (use handler_delivers in \<open>fastforce simp: deliver_step_def delivery_ok_def\<close>)

lemma deliver_runs: "run_steps deliver_step h xs = run_steps handler_step h (map (\<lambda>x. (None, fst x)) xs)"
  by (induction xs arbitrary: h) (simp_all add: deliver_step_def split: option.split)

text \<open>A stream in which every sequence number is due when it comes.\<close>

fun in_order :: "(StockLocate \<rightharpoonup> SequenceNumber) \<Rightarrow> delivery list \<Rightarrow> bool" where
  "in_order dm [] \<longleftrightarrow> True"
| "in_order dm ((loc, seq, m) # ds) \<longleftrightarrow>
     (if seq = 0 then in_order dm ds
      else (dm loc = None \<or> dm loc = Some seq) \<and> in_order (dm(loc \<mapsto> seq + 1)) ds)"

lemma deliver_in_order:
  "in_order dm ds \<Longrightarrow> snd (foldl (deliver sk) (dm, g) ds) = foldl feed_step g (map (\<lambda>d. snd (snd d)) ds)"
proof (induction ds arbitrary: dm g)
  case (Cons d ds)
  obtain loc seq m where d: "d = (loc, seq, m)" by (cases d)
  show ?case using Cons by (auto simp: d split: option.splits if_splits)
qed simp

lemma admissible_deliveries:
  "in_order dm (map snd xs) \<Longrightarrow> (\<forall>x \<in> set xs. carries (fst x) (snd x)) \<Longrightarrow>
   admissible feed_step msg_ok market_fits g (map (\<lambda>x. snd (snd (snd x))) xs) \<Longrightarrow>
   admissible (\<lambda>v x. deliver sk v (snd x)) delivery_ok (\<lambda>v. True) (dm, g) xs"
proof (induction xs arbitrary: dm g)
  case (Cons x xs)
  obtain data loc seq m where x: "x = (data, loc, seq, m)" by (cases x)
  show ?case using Cons by (auto simp: x delivery_ok_def split: option.splits if_splits)
qed simp

lemma foldl_snd: "foldl (\<lambda>v x. f v (snd x)) v xs = foldl f v (map snd xs)"
  by (induction xs arbitrary: v) simp_all

text \<open>C3: datagrams in sequence, of any number of locates interleaved, take the handler through the feed:
  from their bytes alone its books hold the live orders the messages define and show, for every
  symbol, the best levels of those orders.\<close>

theorem handler_follows_feed:
  assumes "\<forall>x \<in> set xs. carries (fst x) (snd x)" and "in_order Map.empty (map snd xs)"
    and "admissible feed_step msg_ok market_fits Map.empty (map (\<lambda>x. snd (snd (snd x))) xs)"
  shows "\<exists>h t. run_steps handler_step (set_skip_gaps (new_feed_handler n) sk) (map (\<lambda>x. (None, fst x)) xs) = Some h \<and>
    (let g = foldl feed_step Map.empty (map (\<lambda>x. snd (snd (snd x))) xs) in
     global (fh_book h) = g \<and> snapshot (fh_book h) sy = market_snapshot g n sy t)"
proof -
  let ?h = "set_skip_gaps (new_feed_handler n) sk"
  have good: "handler_good n sk ?h" and view: "handler_view ?h = (Map.empty, Map.empty)"
    by (simp_all add: handler_good_def handler_view_def set_skip_gaps_def new_feed_handler_def
        db_inv_new new_gap_detector_def)
  obtain h where h: "run_steps deliver_step ?h xs = Some h" "handler_good n sk h"
      "handler_view h = foldl (\<lambda>v x. deliver sk v (snd x)) (Map.empty, Map.empty) xs"
    using fh.run_sim [OF good, of xs] admissible_deliveries [OF assms(2,1,3), of sk] view by auto
  have "global (fh_book h) = foldl feed_step Map.empty (map (\<lambda>x. snd (snd (snd x))) xs)"
    using h(3) deliver_in_order [OF assms(2), of sk Map.empty]
    by (simp add: handler_view_def foldl_snd comp_def) (metis snd_conv)
  then show ?thesis
    using h snapshot_eq [of "fh_book h" sy] by (auto simp: deliver_runs handler_good_def Let_def)
qed

definition sample_datagram :: "byte list" where
  "sample_datagram = [0, 3, 0, 0, 0, 0, 0, 0, 0, 1] @
     wire_bytes (MOrderDelete \<lparr>stock_locate = 3, tracking_number = 1, ts = 9, delete_order_id = 42\<rparr>)"

lemma sample_carries: "carries sample_datagram (3, 1,
    MOrderDelete \<lparr>stock_locate = 3, tracking_number = 1, ts = 9, delete_order_id = 42\<rparr>)"
proof -
  let ?m = "MOrderDelete \<lparr>stock_locate = 3, tracking_number = 1, ts = 9, delete_order_id = 42\<rparr>"
  have "decode_frame (wire_bytes ?m) = Some \<lparr>status = Ok, consumed = framed_size ?m, message = Some ?m\<rparr>"
    unfolding decode_frame_Ok by (simp add: framed_size_def length_wire_bytes bslice_def trunc_ts_def take_bit_eq_mod)
  moreover have "length sample_datagram = 31" by (simp add: sample_datagram_def length_wire_bytes framed_size_def)
  ultimately show ?thesis
    by (simp add: sample_datagram_def be_bytes_expand framed_size_def)
qed

theorem handler_follows_feed_witness:
  "\<exists>h. run_steps handler_step (set_skip_gaps (new_feed_handler 10) False) [(None, sample_datagram)] = Some h \<and>
     global (fh_book h) = Map.empty"
proof -
  let ?m = "MOrderDelete \<lparr>stock_locate = 3, tracking_number = 1, ts = 9, delete_order_id = 42\<rparr>"
  have a: "\<forall>x \<in> set [(sample_datagram, 3, 1, ?m)]. carries (fst x) (snd x)"
    using sample_carries by (simp del: carries.simps)
  have b: "in_order Map.empty (map snd [(sample_datagram, 3, 1, ?m)])"
    "admissible feed_step msg_ok market_fits Map.empty (map (\<lambda>x. snd (snd (snd x))) [(sample_datagram, 3, 1, ?m)])"
    by simp_all
  from handler_follows_feed [OF a b, of 10 False] show ?thesis by (auto simp: Let_def)
qed


text \<open>A datagram that repeats or precedes what was already passed is dropped: the return value is
  false, nothing is reported and neither the books nor the sequencing change, whatever recovery
  is set up.\<close>

theorem stale_datagram_dropped:
  assumes "carries data (loc, seq, m)" and "seq \<noteq> 0" and "due h loc = Some e" and "seq < e"
  shows "\<exists>h'. on_datagram rq h data = Some (False, [], None, h') \<and> fh_book h' = fh_book h \<and> due h' = due h"
proof -
  have len: "12 \<le> length data" and hdr: "hdr_u16 data 0 = Some loc" "hdr_u64 data 2 = Some seq"
    using assms(1) hdr_in_bounds [of data] by simp_all
  have "due (counted h data) loc = Some e" using assms(3) by simp
  from check_stale [OF this assms(4), of rq] obtain h' where
    "check_sequence rq (counted h data) loc seq = (Some False, [], h')" "fh_book h' = fh_book h" "due h' = due h"
    by auto
  then show ?thesis using on_datagram_eq [OF len hdr, of rq h "Some False" "[]" h'] assms(2) by simp
qed

theorem stale_datagram_dropped_witness:
  "\<exists>h'. on_datagram None (step_past (new_feed_handler 10) 3 1) sample_datagram = Some (False, [], None, h')"
proof -
  have "due (step_past (new_feed_handler 10) 3 1) 3 = Some 2"
    by (simp add: step_past_due expected_def new_feed_handler_def new_gap_detector_def)
  from stale_datagram_dropped [OF sample_carries _ this] show ?thesis by auto
qed

section \<open>Sequencing under recovery\<close>





section \<open>Recovery by snapshot\<close>

lemma snapshot_after_install:
  "books (fh_book (apply_snapshot h r)) k =
     (if k = symbol_key (resp_symbol r) then Some (snapshot_book r) else books (fh_book h) k)"
  by (simp add: apply_snapshot_def Let_def books_book_for)

text \<open>C7: installing a snapshot as a correct server takes it makes the book of its symbol show exactly the
  levels of the snapshot, prices, totals and order counts alike, leaves every other symbol alone
  and makes the number after the snapshot's the next one due.\<close>

theorem snapshot_installed:
  assumes "genuine_snapshot r"
  shows "let h' = apply_snapshot h r in
    snap_bids (snapshot (fh_book h') (resp_symbol r)) = resp_bids r \<and>
    snap_asks (snapshot (fh_book h') (resp_symbol r)) = resp_asks r \<and>
    (\<forall>sy. sy \<noteq> resp_symbol r \<longrightarrow> snapshot (fh_book h') sy = snapshot (fh_book h) sy) \<and>
    due h' (resp_locate r) = Some (last_applied_seq r + 1)"
  using snapshot_book_shows [OF assms]
  by (simp add: Let_def snapshot_def snapshot_after_install apply_snapshot_due)

definition sample_response :: SnapshotResponse where
  "sample_response = \<lparr>resp_locate = 1, last_applied_seq = 5, resp_symbol = make_symbol [0x41],
     resp_bids = [\<lparr>price = 1000, total_qty = 300, order_count = 1\<rparr>], resp_asks = []\<rparr>"

theorem snapshot_installed_witness:
  "snap_bids (snapshot (fh_book (apply_snapshot (new_feed_handler 10) sample_response)) (make_symbol [0x41])) =
     [\<lparr>price = 1000, total_qty = 300, order_count = 1\<rparr>]"
proof -
  have "genuine_snapshot sample_response"
    by (simp add: genuine_snapshot_def sample_response_def genuine_level_def order_total_def)
  from snapshot_installed [OF this, of "new_feed_handler 10"]
  show ?thesis by (simp add: Let_def sample_response_def)
qed

text \<open>A snapshot that stops short of the gap closes it all the same: when 5 is due, 9 arrives and the
  server answers with the state after 5, message 9 is passed on, 10 becomes due, and 6 to 8 are
  neither applied nor asked for again.\<close>

theorem short_snapshot_loses_messages:
  "let h = step_past (new_feed_handler 10) 1 4;
       (ret, reps, h') = check_sequence (Some (\<lambda>req. Some sample_response)) h 1 9 in
   due h 1 = Some 5 \<and> ret = None \<and> due h' 1 = Some 10 \<and>
   fst (check_sequence None h' 1 6) = Some False \<and> or_stale (fst (observe (fh_gap h') 1 6))"
  by code_simp

text \<open>After a snapshot the book no longer knows the orders behind its levels: the delete of an order
  that was live when the snapshot was taken is ignored, and its shares stay visible.\<close>

theorem delete_after_snapshot_ignored:
  "case run_steps apply_state (new_depth_book 10) [add_msg 7 0x41 300] of
     None \<Rightarrow> False
   | Some d \<Rightarrow>
      (let h = apply_snapshot ((new_feed_handler 10)\<lparr>fh_book := d\<rparr>) sample_response in
       case apply_msg (fh_book h)
         (MOrderDelete \<lparr>stock_locate = 1, tracking_number = 0, ts = 10, delete_order_id = 7\<rparr>) of
         None \<Rightarrow> False
       | Some (changed, snap, d') \<Rightarrow> \<not> changed \<and>
           snap_bids (snapshot d' (make_symbol [0x41])) = [\<lparr>price = 1000, total_qty = 300, order_count = 1\<rparr>])"
  by code_simp

text \<open>An empty snapshot wipes the book of its symbol and leaves it with depth 0, so that no later
  order of the symbol is ever shown.\<close>

theorem empty_snapshot_blinds_book:
  "let r = sample_response\<lparr>resp_bids := []\<rparr>; h = apply_snapshot (new_feed_handler 10) r in
   case run_steps apply_state (fh_book h) [add_msg 7 0x41 300] of
     None \<Rightarrow> False
   | Some d \<Rightarrow> global d 7 \<noteq> None \<and> snap_bids (snapshot d (make_symbol [0x41])) = []"
  by code_simp

end
