(* ===== verification/Publisher.thy ===== *)
theory Publisher
  imports Itch_Parser
begin

text \<open>
  \<^verbatim>\<open>MessageGenerator\<close> of \<^verbatim>\<open>src/sim/publisher.h\<close> and \<^verbatim>\<open>publisher.cpp\<close>: a random but valid message
  stream, framed for the multicast transport. The random engine is the standard library's: its
  state is the type \<^verbatim>\<open>'r\<close>, and a draw of \<^verbatim>\<open>uniform_int_distribution(a, b)\<close> is the argument \<^verbatim>\<open>u\<close>,
  applied to \<^verbatim>\<open>a\<close>, \<^verbatim>\<open>b\<close> and the engine's state. \<^verbatim>\<open>None\<close> is an index outside a vector.
\<close>

type_synonym 'r uniform = "nat \<Rightarrow> nat \<Rightarrow> 'r \<Rightarrow> nat \<times> 'r"

text \<open>What the standard documents of a draw: it lies between the two bounds, both included.\<close>

definition uniform_ok :: "'r uniform \<Rightarrow> bool" where
  "uniform_ok u \<longleftrightarrow> (\<forall>a b r. a \<le> b \<longrightarrow> a \<le> fst (u a b r) \<and> fst (u a b r) \<le> b)"

record TransportHeader =
  th_locate :: StockLocate
  th_sequence :: SequenceNumber

record 'r MessageGenerator =
  rng :: 'r
  symbols :: "Symbol list"
  live_orders :: "OrderId list"
  live_prices :: "Price list"
  live_qtys :: "Quantity list"
  live_sides :: "Side list"
  live_locs :: "StockLocate list"
  next_order_id :: OrderId
  next_seq :: "StockLocate \<rightharpoonup> SequenceNumber"
  base_locate :: StockLocate

definition kNames :: "byte list list" where
  "kNames = [[0x41,0x41,0x50,0x4C], [0x4D,0x53,0x46,0x54], [0x47,0x4F,0x4F,0x47],
     [0x41,0x4D,0x5A,0x4E], [0x4E,0x56,0x44,0x41], [0x4D,0x45,0x54,0x41], [0x54,0x53,0x4C,0x41],
     [0x41,0x4D,0x44], [0x49,0x4E,0x54,0x43], [0x4F,0x52,0x43,0x4C]]"

definition new_generator :: "'r \<Rightarrow> nat \<Rightarrow> 'r MessageGenerator" where
  "new_generator r num_symbols =
     \<lparr>rng = r, symbols = map make_symbol (take (min num_symbols (length kNames)) kNames),
      live_orders = [], live_prices = [], live_qtys = [], live_sides = [], live_locs = [],
      next_order_id = 1, next_seq = Map.empty, base_locate = 100\<rparr>"

section \<open>Vectors\<close>

definition vat :: "'a list \<Rightarrow> nat \<Rightarrow> 'a option" where
  "vat xs i = (if i < length xs then Some (xs ! i) else None)"

definition vset :: "'a list \<Rightarrow> nat \<Rightarrow> 'a \<Rightarrow> 'a list option" where
  "vset xs i x = (if i < length xs then Some (xs[i := x]) else None)"

definition verase :: "'a list \<Rightarrow> nat \<Rightarrow> 'a list option" where
  "verase xs i = (if i < length xs then Some (take i xs @ drop (Suc i) xs) else None)"

definition erase_live :: "'r MessageGenerator \<Rightarrow> nat \<Rightarrow> 'r MessageGenerator option" where
  "erase_live g oi = do {
     os \<leftarrow> verase (live_orders g) oi;
     ps \<leftarrow> verase (live_prices g) oi;
     qs \<leftarrow> verase (live_qtys g) oi;
     ss \<leftarrow> verase (live_sides g) oi;
     ls \<leftarrow> verase (live_locs g) oi;
     Some (g\<lparr>live_orders := os, live_prices := ps, live_qtys := qs, live_sides := ss, live_locs := ls\<rparr>) }"

section \<open>The actions\<close>

definition gen_add :: "'r uniform \<Rightarrow> StockLocate \<Rightarrow> Symbol \<Rightarrow> 'r MessageGenerator \<Rightarrow>
    AnyMessage \<times> 'r MessageGenerator" where
  "gen_add u loc sy g =
     (let t = next_order_id g;
          oid = next_order_id g;
          (s, r) = u 0 1 (rng g);
          side = (if s = 0 then Buy else Sell);
          (q, r) = u 100 1000 r;
          (p, r) = u 100000 200000 r;
          m = \<lparr>stock_locate = loc, tracking_number = 0, ts = t, add_order_id = oid, add_side = side,
               add_shares = of_nat q, add_symbol = sy, add_price = of_nat p\<rparr>
      in (MAddOrder m,
          g\<lparr>rng := r, next_order_id := next_order_id g + 1,
            live_orders := live_orders g @ [oid], live_prices := live_prices g @ [of_nat p],
            live_qtys := live_qtys g @ [of_nat q], live_sides := live_sides g @ [side],
            live_locs := live_locs g @ [loc]\<rparr>))"

definition gen_cancel :: "'r uniform \<Rightarrow> nat \<Rightarrow> OrderId \<Rightarrow> 'r MessageGenerator \<Rightarrow>
    (AnyMessage \<times> 'r MessageGenerator) option" where
  "gen_cancel u oi oid g = do {
     loc \<leftarrow> vat (live_locs g) oi;
     qty \<leftarrow> vat (live_qtys g) oi;
     let t = next_order_id g;
         (c, r) = u 1 (unat (max 1 qty)) (rng g);
         canceled = of_nat c;
         g = g\<lparr>rng := r, next_order_id := t + 1\<rparr>;
         m = MOrderCancel \<lparr>stock_locate = loc, tracking_number = 0, ts = t, cancel_order_id = oid,
               canceled_shares = canceled\<rparr> in
     if canceled \<ge> qty then do {
       qs \<leftarrow> vset (live_qtys g) oi 0;
       g \<leftarrow> erase_live (g\<lparr>live_qtys := qs\<rparr>) oi;
       Some (m, g) }
     else do {
       qs \<leftarrow> vset (live_qtys g) oi (qty - canceled);
       Some (m, g\<lparr>live_qtys := qs\<rparr>) } }"

definition gen_execute :: "'r uniform \<Rightarrow> nat \<Rightarrow> OrderId \<Rightarrow> 'r MessageGenerator \<Rightarrow>
    (AnyMessage \<times> 'r MessageGenerator) option" where
  "gen_execute u oi oid g = do {
     loc \<leftarrow> vat (live_locs g) oi;
     qty \<leftarrow> vat (live_qtys g) oi;
     let t = next_order_id g;
         (c, r) = u 1 (unat (max 1 qty)) (rng g);
         executed = of_nat c;
         g = g\<lparr>rng := r, next_order_id := t + 1\<rparr>;
         m = MOrderExecuted \<lparr>stock_locate = loc, tracking_number = 0, ts = t, exec_order_id = oid,
               executed_shares = executed, exec_match_number = next_order_id g\<rparr> in
     if executed \<ge> qty then do {
       g \<leftarrow> erase_live g oi;
       Some (m, g) }
     else do {
       qs \<leftarrow> vset (live_qtys g) oi (qty - executed);
       Some (m, g\<lparr>live_qtys := qs\<rparr>) } }"

definition gen_delete :: "nat \<Rightarrow> OrderId \<Rightarrow> 'r MessageGenerator \<Rightarrow>
    (AnyMessage \<times> 'r MessageGenerator) option" where
  "gen_delete oi oid g = do {
     loc \<leftarrow> vat (live_locs g) oi;
     let t = next_order_id g;
         m = MOrderDelete \<lparr>stock_locate = loc, tracking_number = 0, ts = t, delete_order_id = oid\<rparr>;
         g = g\<lparr>next_order_id := t + 1\<rparr> in
     do { g \<leftarrow> erase_live g oi; Some (m, g) } }"

definition gen_replace :: "'r uniform \<Rightarrow> nat \<Rightarrow> OrderId \<Rightarrow> 'r MessageGenerator \<Rightarrow>
    (AnyMessage \<times> 'r MessageGenerator) option" where
  "gen_replace u oi oid g = do {
     loc \<leftarrow> vat (live_locs g) oi;
     let t = next_order_id g;
         nid = t + 1;
         (q, r) = u 100 1000 (rng g);
         (p, r) = u 100000 200000 r;
         m = MOrderReplace \<lparr>stock_locate = loc, tracking_number = 0, ts = t, original_order_id = oid,
               new_order_id = nid, replace_shares = of_nat q, replace_price = of_nat p\<rparr>;
         g = g\<lparr>rng := r, next_order_id := nid + 1\<rparr> in
     do {
       os \<leftarrow> vset (live_orders g) oi nid;
       ps \<leftarrow> vset (live_prices g) oi (of_nat p);
       qs \<leftarrow> vset (live_qtys g) oi (of_nat q);
       Some (m, g\<lparr>live_orders := os, live_prices := ps, live_qtys := qs\<rparr>) } }"

section \<open>One datagram\<close>

definition put_u16 :: "byte list \<Rightarrow> u16 \<Rightarrow> byte list" where
  "put_u16 v x = v @ [ucast (drop_bit 8 x)] @ [ucast x]"

definition put_u64 :: "byte list \<Rightarrow> u64 \<Rightarrow> byte list" where
  "put_u64 v x = foldl (\<lambda>v i. v @ [ucast (drop_bit (56 - i * 8) x)]) v [0..<8]"

definition gen_message :: "'r uniform \<Rightarrow> 'r MessageGenerator \<Rightarrow>
    (StockLocate \<times> AnyMessage \<times> 'r MessageGenerator) option" where
  "gen_message u g =
     (let (si, r) = u 0 (if symbols g = [] then 0 else length (symbols g) - 1) (rng g) in do {
        sy \<leftarrow> vat (symbols g) si;
        let loc = base_locate g + of_nat si;
            (a, r) = u 0 99 r;
            g = g\<lparr>rng := r\<rparr> in
        if live_orders g = [] \<or> a < 50 then Some (loc, gen_add u loc sy g)
        else
          let (oi, r) = u 0 (length (live_orders g) - 1) (rng g);
              g = g\<lparr>rng := r\<rparr> in do {
          oid \<leftarrow> vat (live_orders g) oi;
          res \<leftarrow> (if a < 70 then gen_cancel u oi oid g
                 else if a < 85 then gen_execute u oi oid g
                 else if a < 95 then gen_delete oi oid g
                 else gen_replace u oi oid g);
          Some (loc, res) } })"

definition take_seq :: "'r MessageGenerator \<Rightarrow> StockLocate \<Rightarrow> SequenceNumber \<times> 'r MessageGenerator" where
  "take_seq g loc =
     (case next_seq g loc of
        None \<Rightarrow> (1, g\<lparr>next_seq := (next_seq g)(loc \<mapsto> 2)\<rparr>)
      | Some s \<Rightarrow> (s, g\<lparr>next_seq := (next_seq g)(loc \<mapsto> s + 1)\<rparr>))"

definition frame_datagram :: "StockLocate \<Rightarrow> SequenceNumber \<Rightarrow> AnyMessage \<Rightarrow> (nat \<times> byte list) option" where
  "frame_datagram loc seq m =
     (let out = put_u64 (put_u16 [] loc) seq;
          prefix = length out;
          out = out @ replicate (framed_size m) 0 in do {
        (n, body) \<leftarrow> encode_frame m (drop prefix out);
        let out = take prefix out @ body in
        if n = 0 then Some (0, [])
        else let out = take (prefix + n) out in Some (length out, out) })"

definition next_datagram :: "'r uniform \<Rightarrow> 'r MessageGenerator \<Rightarrow>
    (nat \<times> byte list \<times> TransportHeader \<times> 'r MessageGenerator) option" where
  "next_datagram u g = do {
     (loc, m, g) \<leftarrow> gen_message u g;
     let (seq, g) = take_seq g loc in do {
     (n, out) \<leftarrow> frame_datagram loc seq m;
     Some (n, out, \<lparr>th_locate = loc, th_sequence = seq\<rparr>, g) } }"

section \<open>The stock directory\<close>

definition directory_datagram :: "'r MessageGenerator \<Rightarrow> nat \<Rightarrow> byte list option option" where
  "directory_datagram g i = do {
     sy \<leftarrow> vat (symbols g) i;
     let m = \<lparr>stock_locate = base_locate g + of_nat i, tracking_number = 0, ts = 0, dir_symbol = sy,
              market_category = 0x51, financial_status = 0x4E, round_lot_size = 100\<rparr>;
         payload = replicate (10 + 2 + kWireSize StockDirectory) 0 in do {
     payload \<leftarrow> wr payload 0 [ucast (drop_bit 8 (stock_locate m))];
     payload \<leftarrow> wr payload 1 [ucast (stock_locate m)];
     payload \<leftarrow> wr payload 2 (map (\<lambda>j. ucast (drop_bit (56 - j * 8) (0 :: u64))) [0..<8]);
     (n, body) \<leftarrow> encode_frame (MStockDirectory m) (drop 10 payload);
     let payload = take 10 payload @ body in
     if n = 0 then Some None else Some (Some (take (10 + n) payload)) } }"

fun directory_from :: "'r MessageGenerator \<Rightarrow> nat list \<Rightarrow> byte list list option" where
  "directory_from g [] = Some []"
| "directory_from g (i # is) = do {
     d \<leftarrow> directory_datagram g i;
     ds \<leftarrow> directory_from g is;
     Some (case d of None \<Rightarrow> ds | Some x \<Rightarrow> x # ds) }"

definition directory_messages :: "'r MessageGenerator \<Rightarrow> byte list list option" where
  "directory_messages g = directory_from g [0..<length (symbols g)]"

end
