(* ===== verification/Publisher_Live.thy ===== *)
theory Publisher_Live
  imports Publisher Feed_Properties
begin

text \<open>
  The generator's record of its live orders (five parallel vectors) as one list of entries, and the
  feed the messages define: every action of the generator changes both alike.
\<close>

section \<open>Parallel vectors as one list\<close>

type_synonym entry = "StockLocate \<times> Side \<times> Price \<times> Quantity"

definition entries :: "'r MessageGenerator \<Rightarrow> (OrderId \<times> entry) list" where
  "entries g = zip (live_orders g) (zip (live_locs g) (zip (live_sides g) (zip (live_prices g) (live_qtys g))))"

definition parallel :: "'r MessageGenerator \<Rightarrow> bool" where
  "parallel g \<longleftrightarrow> length (live_prices g) = length (live_orders g) \<and> length (live_qtys g) = length (live_orders g) \<and>
     length (live_sides g) = length (live_orders g) \<and> length (live_locs g) = length (live_orders g)"

definition without :: "'a list \<Rightarrow> nat \<Rightarrow> 'a list" where
  "without xs i = take i xs @ drop (Suc i) xs"

lemma verase_Some: "i < length xs \<Longrightarrow> verase xs i = Some (without xs i)"
  by (simp add: verase_def without_def)

lemma length_without: "i < length xs \<Longrightarrow> length (without xs i) = length xs - 1"
  by (simp add: without_def)

lemma without_zip: "length xs = length ys \<Longrightarrow> without (zip xs ys) i = zip (without xs i) (without ys i)"
  by (simp add: without_def take_zip drop_zip zip_append)

lemma set_without: "set (without xs i) \<subseteq> set xs"
  by (auto simp: without_def dest: in_set_takeD in_set_dropD)

lemma map_without: "map f (without xs i) = without (map f xs) i"
  by (simp add: without_def take_map drop_map)

lemma distinct_without: "distinct xs \<Longrightarrow> distinct (without xs i)"
  using set_take_disj_set_drop_if_distinct [of xs i "Suc i"] by (auto simp: without_def)

lemma split_nth: "i < length xs \<Longrightarrow> xs = take i xs @ xs ! i # drop (Suc i) xs"
  by (simp add: id_take_nth_drop)

lemma map_of_without:
  assumes d: "distinct (map fst xs)" and i: "i < length xs"
  shows "map_of (without xs i) = (map_of xs)(fst (xs ! i) := None)"
proof -
  obtain ys y zs where xs: "xs = ys @ y # zs" "length ys = i" "y = xs ! i"
    using split_nth [OF i] i by (metis length_take min.absorb4)
  have w: "without xs i = ys @ zs" using xs(2) by (simp add: without_def xs(1))
  have n: "fst y \<notin> fst ` set ys" "fst y \<notin> fst ` set zs" using d by (auto simp: xs(1))
  have none: "map_of ys (fst y) = None" "map_of zs (fst y) = None"
    using n by (auto simp: map_of_eq_None_iff)
  show ?thesis
    unfolding w xs(3) [symmetric] by (auto simp: fun_eq_iff xs(1) map_add_def none split: option.split)
qed

lemma map_of_update:
  assumes d: "distinct (map fst xs)" and i: "i < length xs" and n: "fst e \<notin> fst ` set xs \<or> fst e = fst (xs ! i)"
  shows "map_of (xs[i := e]) = (map_of xs)(fst (xs ! i) := None, fst e \<mapsto> snd e)"
proof -
  obtain ys y zs where xs: "xs = ys @ y # zs" "length ys = i" "y = xs ! i"
    using split_nth [OF i] i by (metis length_take min.absorb4)
  obtain k v where y: "y = (k, v)" by (cases y)
  obtain k' v' where e: "e = (k', v')" by (cases e)
  have u: "xs[i := e] = ys @ e # zs" unfolding xs(1) xs(2) [symmetric] by (simp add: list_update_append)
  have none: "map_of ys k = None" "map_of zs k = None"
    using d by (auto simp: map_of_eq_None_iff xs(1) y)
  have "k' \<notin> fst ` set (ys @ zs) \<or> k' = k"
    using n unfolding xs(3) [symmetric] by (auto simp: xs(1) y e)
  then have none': "map_of ys k' = None" "map_of zs k' = None"
    using none by (auto simp: map_of_eq_None_iff)
  show ?thesis
    unfolding u xs(3) [symmetric]
    by (auto simp: fun_eq_iff xs(1) y e map_add_def none none' split: option.split)
qed

lemma map_of_append_new:
  "k \<notin> fst ` set xs \<Longrightarrow> map_of (xs @ [(k, v)]) = (map_of xs)(k \<mapsto> v)"
proof -
  assume "k \<notin> fst ` set xs"
  then have "map_of xs k = None" by (simp add: map_of_eq_None_iff)
  then show ?thesis by (auto simp: fun_eq_iff map_add_def split: option.split)
qed


section \<open>The invariant of the generator\<close>

definition key_at :: "'r MessageGenerator \<Rightarrow> StockLocate \<Rightarrow> SymbolKey" where
  "key_at g l = symbol_key (symbols g ! unat (l - base_locate g))"

definition live_view :: "'r MessageGenerator \<Rightarrow> OrderId \<rightharpoonup> (SymbolKey \<times> Side \<times> Price \<times> Quantity)" where
  "live_view g oid = map_option (\<lambda>(l, s, p, q). (key_at g l, s, p, q)) (map_of (entries g) oid)"

text \<open>The market without the time stamps of its orders, which the generator does not keep.\<close>

definition strip :: "market \<Rightarrow> OrderId \<rightharpoonup> (SymbolKey \<times> Side \<times> Price \<times> Quantity)" where
  "strip M oid = map_option (\<lambda>(k, st). (k, os_side st, os_price st, os_qty st)) (M oid)"

definition gen_inv :: "nat \<Rightarrow> 'r MessageGenerator \<Rightarrow> bool" where
  "gen_inv k g \<longleftrightarrow> parallel g \<and> symbols g \<noteq> [] \<and> length (symbols g) \<le> 10 \<and> base_locate g = 100 \<and>
     distinct (live_orders g) \<and> length (live_orders g) \<le> k \<and>
     (\<forall>x \<in> set (live_orders g). x < next_order_id g) \<and> unat (next_order_id g) \<le> 1 + 2 * k \<and>
     (\<forall>q \<in> set (live_qtys g). 1 \<le> unat q \<and> unat q \<le> 1000)"

lemma keys_entries: "parallel g \<Longrightarrow> map fst (entries g) = live_orders g"
  by (simp add: entries_def parallel_def)

lemma length_entries: "parallel g \<Longrightarrow> length (entries g) = length (live_orders g)"
  by (simp add: entries_def parallel_def)

lemma nth_entries:
  "parallel g \<Longrightarrow> i < length (live_orders g) \<Longrightarrow>
   entries g ! i = (live_orders g ! i, live_locs g ! i, live_sides g ! i, live_prices g ! i, live_qtys g ! i)"
  by (simp add: entries_def parallel_def)

lemma live_view_None: "parallel g \<Longrightarrow> live_view g oid = None \<longleftrightarrow> oid \<notin> set (live_orders g)"
  by (simp add: live_view_def map_of_eq_None_iff flip: set_map keys_entries)

lemma live_view_nth:
  assumes "parallel g" "distinct (live_orders g)" "i < length (live_orders g)"
  shows "live_view g (live_orders g ! i) =
    Some (key_at g (live_locs g ! i), live_sides g ! i, live_prices g ! i, live_qtys g ! i)"
proof -
  have "entries g ! i \<in> set (entries g)" using assms by (simp add: length_entries)
  then have "map_of (entries g) (live_orders g ! i) =
      Some (live_locs g ! i, live_sides g ! i, live_prices g ! i, live_qtys g ! i)"
    using assms by (intro map_of_is_SomeI) (auto simp: keys_entries nth_entries)
  then show ?thesis by (simp add: live_view_def)
qed

lemma strip_None: "strip M oid = None \<longleftrightarrow> M oid = None"
  by (simp add: strip_def)

lemma strip_upd: "strip (M(oid := x)) = (strip M)(oid := map_option (\<lambda>(k, st). (k, os_side st, os_price st, os_qty st)) x)"
  by (auto simp: strip_def fun_eq_iff)

lemma strip_Some: "strip M oid = Some (k, s, p, q) \<Longrightarrow>
    \<exists>st. M oid = Some (k, st) \<and> os_side st = s \<and> os_price st = p \<and> os_qty st = q"
  by (auto simp: strip_def)

text \<open>Few and small orders fit the book's totals.\<close>

lemma live_market_fits:
  assumes inv: "gen_inv k g" and k: "k \<le> 4000000" and M: "strip M = live_view g"
  shows "market_fits M"
proof (rule market_fits_small)
  have dom: "dom M = set (live_orders g)"
    using inv live_view_None [of g] strip_None [of M] unfolding M by (auto simp: gen_inv_def set_eq_iff domIff simp del: not_None_eq)
  then show "finite (dom M)" by simp
  have "unat (os_qty (snd (the (M oid)))) \<le> 1000" if "oid \<in> dom M" for oid
  proof -
    from that dom obtain i where i: "i < length (live_orders g)" "oid = live_orders g ! i"
      by (auto simp: in_set_conv_nth)
    then have "strip M oid = Some (key_at g (live_locs g ! i), live_sides g ! i, live_prices g ! i, live_qtys g ! i)"
      using live_view_nth [of g i] inv by (simp add: gen_inv_def M)
    moreover have "live_qtys g ! i \<in> set (live_qtys g)" using inv i by (simp add: gen_inv_def parallel_def)
    ultimately show ?thesis using inv by (fastforce simp: gen_inv_def strip_def)
  qed
  then have "(\<Sum>oid \<in> dom M. unat (os_qty (snd (the (M oid))))) \<le> (\<Sum>oid \<in> dom M. 1000)"
    by (rule sum_mono)
  also have "\<dots> = 1000 * card (dom M)" by simp
  also have "card (dom M) \<le> k"
    using inv card_length [of "live_orders g"] unfolding dom by (auto simp: gen_inv_def)
  finally show "(\<Sum>oid \<in> dom M. unat (os_qty (snd (the (M oid))))) < 2 ^ 32" using k by simp
qed


section \<open>The effect of each kind of change\<close>

lemma key_at_frame [simp]:
  "key_at (g\<lparr>rng := r\<rparr>) = key_at g" "key_at (g\<lparr>next_order_id := n\<rparr>) = key_at g"
  "key_at (g\<lparr>live_orders := a\<rparr>) = key_at g" "key_at (g\<lparr>live_prices := b\<rparr>) = key_at g"
  "key_at (g\<lparr>live_qtys := c\<rparr>) = key_at g" "key_at (g\<lparr>live_sides := e\<rparr>) = key_at g"
  "key_at (g\<lparr>live_locs := f\<rparr>) = key_at g" "key_at (g\<lparr>next_seq := s\<rparr>) = key_at g"
  by (simp_all add: key_at_def fun_eq_iff)

lemma live_view_frame [simp]:
  "live_view (g\<lparr>rng := r\<rparr>) = live_view g" "live_view (g\<lparr>next_order_id := n\<rparr>) = live_view g"
  "live_view (g\<lparr>next_seq := s\<rparr>) = live_view g"
  by (simp_all add: live_view_def entries_def fun_eq_iff)

definition erased :: "'r MessageGenerator \<Rightarrow> nat \<Rightarrow> 'r MessageGenerator" where
  "erased g i = g\<lparr>live_orders := without (live_orders g) i, live_prices := without (live_prices g) i,
     live_qtys := without (live_qtys g) i, live_sides := without (live_sides g) i,
     live_locs := without (live_locs g) i\<rparr>"

lemma erase_live_Some:
  "parallel g \<Longrightarrow> i < length (live_orders g) \<Longrightarrow> erase_live g i = Some (erased g i)"
  by (simp add: erase_live_def verase_Some parallel_def erased_def)

lemma live_view_erased:
  assumes "parallel g" "distinct (live_orders g)" "i < length (live_orders g)"
  shows "live_view (erased g i) = (live_view g)(live_orders g ! i := None)"
proof -
  have "entries (erased g i) = without (entries g) i"
    using assms(1) by (simp add: entries_def erased_def without_zip parallel_def)
  then have "map_of (entries (erased g i)) = (map_of (entries g))(live_orders g ! i := None)"
    using assms by (simp add: map_of_without keys_entries length_entries nth_entries)
  then show ?thesis by (simp add: live_view_def fun_eq_iff erased_def)
qed

lemma live_view_set:
  assumes "parallel g" "distinct (live_orders g)" "i < length (live_orders g)"
    and "nid \<notin> set (live_orders g) \<or> nid = live_orders g ! i"
  shows "live_view (g\<lparr>live_orders := (live_orders g)[i := nid], live_prices := (live_prices g)[i := p],
      live_qtys := (live_qtys g)[i := q]\<rparr>) =
    (live_view g)(live_orders g ! i := None, nid \<mapsto> (key_at g (live_locs g ! i), live_sides g ! i, p, q))"
    (is "live_view ?g = _")
proof -
  have "entries ?g = (entries g)[i := (nid, live_locs g ! i, live_sides g ! i, p, q)]"
  proof (rule nth_equalityI)
    show "length (entries ?g) = length ((entries g)[i := (nid, live_locs g ! i, live_sides g ! i, p, q)])"
      using assms(1) by (simp add: entries_def parallel_def)
    fix j assume "j < length (entries ?g)"
    then show "entries ?g ! j = (entries g)[i := (nid, live_locs g ! i, live_sides g ! i, p, q)] ! j"
      using assms(1,3) by (cases "j = i") (simp_all add: entries_def parallel_def)
  qed
  moreover have "fst ` set (entries g) = set (live_orders g)"
    using keys_entries [OF assms(1)] by (simp flip: set_map)
  ultimately have "map_of (entries ?g) =
      (map_of (entries g))(live_orders g ! i := None, nid \<mapsto> (live_locs g ! i, live_sides g ! i, p, q))"
    using assms by (simp add: map_of_update keys_entries length_entries nth_entries)
  then show ?thesis by (simp add: live_view_def fun_eq_iff)
qed

lemma live_view_append:
  assumes "parallel g" "oid \<notin> set (live_orders g)"
  shows "live_view (g\<lparr>live_orders := live_orders g @ [oid], live_prices := live_prices g @ [p],
      live_qtys := live_qtys g @ [q], live_sides := live_sides g @ [s], live_locs := live_locs g @ [l]\<rparr>) =
    (live_view g)(oid \<mapsto> (key_at g l, s, p, q))" (is "live_view ?g = _")
proof -
  have "entries ?g = entries g @ [(oid, l, s, p, q)]"
    using assms(1) by (simp add: entries_def parallel_def)
  moreover have "oid \<notin> fst ` set (entries g)"
    using assms by (simp flip: set_map add: keys_entries)
  ultimately have "map_of (entries ?g) = (map_of (entries g))(oid \<mapsto> (l, s, p, q))"
    by (metis map_of_append_new)
  then show ?thesis by (simp add: live_view_def fun_eq_iff)
qed

section \<open>The actions against the feed\<close>

definition good_action :: "nat \<Rightarrow> 'r MessageGenerator \<Rightarrow> market \<Rightarrow> AnyMessage \<Rightarrow> 'r MessageGenerator \<Rightarrow> bool" where
  "good_action k g M m g' \<longleftrightarrow> gen_inv (Suc k) g' \<and> strip (feed_step M m) = live_view g' \<and> msg_ok M m \<and>
     msg_ts m < 2 ^ 48 \<and> next_seq g' = next_seq g \<and> symbols g' = symbols g"

lemma unat_less_48: "unat (x :: u64) < 2 ^ 48 \<Longrightarrow> x < 2 ^ 48"
  by (simp add: word_less_nat_alt)

lemma next_id:
  assumes "gen_inv k g" "k \<le> 4000000"
  shows "unat (next_order_id g + 1) = unat (next_order_id g) + 1"
    "unat (next_order_id g + 1 + 1) = unat (next_order_id g) + 2"
    "next_order_id g < 2 ^ 48" "next_order_id g \<notin> set (live_orders g)"
    "next_order_id g + 1 \<notin> set (live_orders g)"
proof -
  have b: "unat (next_order_id g) \<le> 8000001" using assms by (simp add: gen_inv_def)
  show one: "unat (next_order_id g + 1) = unat (next_order_id g) + 1"
    using b by (intro unat_succ) simp
  then show "unat (next_order_id g + 1 + 1) = unat (next_order_id g) + 2"
    using b by (subst unat_succ) simp_all
  show "next_order_id g < 2 ^ 48" using b by (intro unat_less_48) simp
  show "next_order_id g \<notin> set (live_orders g)" "next_order_id g + 1 \<notin> set (live_orders g)"
    using assms(1) one by (auto simp: gen_inv_def word_less_nat_alt)
qed

lemma uniform_bounds:
  assumes "uniform_ok u" "u a b r = (x, r')" "a \<le> b"
  shows "a \<le> x" "x \<le> b"
  using assms by (metis fst_conv uniform_ok_def)+

lemma gen_add_good:
  assumes inv: "gen_inv k g" and k: "k \<le> 4000000" and M: "strip M = live_view g" and u: "uniform_ok u"
    and si: "si < length (symbols g)" and loc: "loc = base_locate g + of_nat si" "sy = symbols g ! si"
  shows "good_action k g M (fst (gen_add u loc sy g)) (snd (gen_add u loc sy g))"
proof -
  obtain s r1 where d1: "u 0 1 (rng g) = (s, r1)" by (cases "u 0 1 (rng g)")
  obtain q r2 where d2: "u 100 1000 r1 = (q, r2)" by (cases "u 100 1000 r1")
  obtain p r3 where d3: "u 100000 200000 r2 = (p, r3)" by (cases "u 100000 200000 r2")
  note qb = uniform_bounds [OF u d2, simplified]
  let ?oid = "next_order_id g" and ?side = "if s = 0 then Buy else Sell"
  let ?q = "of_nat q :: u32" and ?p = "of_nat p :: u32"
  have uq: "unat ?q = q" using qb by (intro unat_of_nat_small) simp
  note ids = next_id [OF inv k]
  have par: "parallel g" using inv by (simp add: gen_inv_def)
  have key: "key_at g loc = symbol_key sy"
  proof -
    have "si < 2 ^ 16" using si inv by (simp add: gen_inv_def)
    then show ?thesis by (simp add: key_at_def loc unat_of_nat_small)
  qed
  have fresh: "M ?oid = None" using live_view_None [OF par] ids M by (metis strip_None)
  have nz: "?q \<noteq> 0" using uq qb by (metis not_numeral_le_zero unat_0)
  define g' where "g' = g\<lparr>live_orders := live_orders g @ [?oid], live_prices := live_prices g @ [?p],
      live_qtys := live_qtys g @ [?q], live_sides := live_sides g @ [?side], live_locs := live_locs g @ [loc]\<rparr>"
  let ?m = "\<lparr>stock_locate = loc, tracking_number = 0, ts = ?oid, add_order_id = ?oid, add_side = ?side,
               add_shares = ?q, add_symbol = sy, add_price = ?p\<rparr>"
  have eq: "gen_add u loc sy g = (MAddOrder ?m, g'\<lparr>rng := r3, next_order_id := ?oid + 1\<rparr>)"
    unfolding gen_add_def d1 Let_def prod.case d2 d3 g'_def by simp
  have lv: "live_view g' = (live_view g)(?oid \<mapsto> (symbol_key sy, ?side, ?p, ?q))"
    using live_view_append [OF par ids(4), where p = ?p and q = ?q and s = ?side and l = loc] by (simp add: g'_def key)
  have "strip (feed_step M (MAddOrder ?m)) = live_view g'"
    using nz fresh by (simp add: market_add_def domIff strip_upd lv M)
  moreover have "gen_inv (Suc k) (g'\<lparr>rng := r3, next_order_id := ?oid + 1\<rparr>)"
    using inv ids uq qb
    by (auto simp: gen_inv_def g'_def parallel_def word_less_nat_alt)
  ultimately show ?thesis
    using fresh ids(3) by (simp add: eq good_action_def id_free_def) (simp add: g'_def)
qed


lemma vat_Some: "i < length xs \<Longrightarrow> vat xs i = Some (xs ! i)"
  by (simp add: vat_def)

lemma vset_Some: "i < length xs \<Longrightarrow> vset xs i x = Some (xs[i := x])"
  by (simp add: vset_def)

lemma erased_frame [simp]:
  "next_order_id (erased g i) = next_order_id g" "next_seq (erased g i) = next_seq g"
  "symbols (erased g i) = symbols g" "base_locate (erased g i) = base_locate g"
  by (simp_all add: erased_def)

text \<open>An update of an entry, and its removal, keep the invariant.\<close>

lemma gen_inv_erased:
  assumes inv: "gen_inv k g" and oi: "oi < length (live_orders g)" and k: "k \<le> 4000000"
  shows "gen_inv (Suc k) ((erased g oi)\<lparr>rng := r, next_order_id := next_order_id g + 1\<rparr>)"
  using inv oi next_id [OF inv k] set_without [of "live_orders g" oi] set_without [of "live_qtys g" oi]
  by (fastforce simp: gen_inv_def erased_def parallel_def length_without distinct_without word_less_nat_alt)

lemma live_entry:
  assumes inv: "gen_inv k g" and oi: "oi < length (live_orders g)" and M: "strip M = live_view g"
  shows "\<exists>st. M (live_orders g ! oi) = Some (key_at g (live_locs g ! oi), st) \<and> os_side st = live_sides g ! oi \<and>
      os_price st = live_prices g ! oi \<and> os_qty st = live_qtys g ! oi"
    and "1 \<le> unat (live_qtys g ! oi) \<and> unat (live_qtys g ! oi) \<le> 1000"
proof -
  have "strip M (live_orders g ! oi) = Some (key_at g (live_locs g ! oi), live_sides g ! oi,
      live_prices g ! oi, live_qtys g ! oi)"
    using live_view_nth [of g oi] inv oi by (simp add: gen_inv_def M)
  then show "\<exists>st. M (live_orders g ! oi) = Some (key_at g (live_locs g ! oi), st) \<and> os_side st = live_sides g ! oi \<and>
      os_price st = live_prices g ! oi \<and> os_qty st = live_qtys g ! oi"
    by (rule strip_Some)
  have "live_qtys g ! oi \<in> set (live_qtys g)" using inv oi by (simp add: gen_inv_def parallel_def)
  then show "1 \<le> unat (live_qtys g ! oi) \<and> unat (live_qtys g ! oi) \<le> 1000"
    using inv by (simp add: gen_inv_def)
qed

lemma reduce_good:
  fixes g :: "'r MessageGenerator" and r :: 'r
  assumes inv: "gen_inv k g" and k: "k \<le> 4000000" and M: "strip M = live_view g"
    and oi: "oi < length (live_orders g)" and c: "1 \<le> unat c"
  defines "g1 \<equiv> g\<lparr>rng := r, next_order_id := next_order_id g + 1\<rparr>"
  defines "g' \<equiv> (if live_qtys g ! oi \<le> c then erased g1 oi
    else g1\<lparr>live_qtys := (live_qtys g)[oi := live_qtys g ! oi - c]\<rparr>)"
  shows "gen_inv (Suc k) g'" and "strip (market_reduce M (live_orders g ! oi) c t) = live_view g'"
    and "next_seq g' = next_seq g" and "symbols g' = symbols g"
proof -
  have par: "parallel g" and dist: "distinct (live_orders g)" using inv by (simp_all add: gen_inv_def)
  obtain st where st: "M (live_orders g ! oi) = Some (key_at g (live_locs g ! oi), st)"
      "os_side st = live_sides g ! oi" "os_price st = live_prices g ! oi" "os_qty st = live_qtys g ! oi"
    using live_entry(1) [OF inv oi M] by blast
  note qb = live_entry(2) [OF inv oi M]
  show "next_seq g' = next_seq g" "symbols g' = symbols g" by (simp_all add: g'_def g1_def)
  show "gen_inv (Suc k) g'"
  proof (cases "live_qtys g ! oi \<le> c")
    case True
    have "g' = (erased g oi)\<lparr>rng := r, next_order_id := next_order_id g + 1\<rparr>"
      using True by (simp add: g'_def g1_def erased_def)
    then show ?thesis using gen_inv_erased [OF inv oi k] by simp
  next
    case False
    then have "unat (live_qtys g ! oi - c) = unat (live_qtys g ! oi) - unat c"
      by (intro unat_sub) simp
    moreover have "unat c < unat (live_qtys g ! oi)" using False by (metis not_le word_less_nat_alt)
    ultimately have new: "1 \<le> unat (live_qtys g ! oi - c) \<and> unat (live_qtys g ! oi - c) \<le> 1000" using qb by linarith
    have "\<forall>q \<in> set ((live_qtys g)[oi := live_qtys g ! oi - c]). 1 \<le> unat q \<and> unat q \<le> 1000"
      using new inv set_update_subset_insert [of "live_qtys g" oi] by (auto simp: gen_inv_def)
    then show ?thesis
      using False inv next_id [OF inv k] by (fastforce simp: g'_def g1_def gen_inv_def parallel_def word_less_nat_alt)
  qed
  show "strip (market_reduce M (live_orders g ! oi) c t) = live_view g'"
  proof (cases "live_qtys g ! oi \<le> c")
    case True
    have "live_view g' = (live_view g)(live_orders g ! oi := None)"
      using True live_view_erased [of g1 oi] par dist oi by (simp add: g'_def g1_def parallel_def)
    then show ?thesis using True by (simp add: market_reduce_def st strip_upd M)
  next
    case False
    have "live_view g' = live_view (g\<lparr>live_orders := (live_orders g)[oi := live_orders g ! oi],
        live_prices := (live_prices g)[oi := live_prices g ! oi],
        live_qtys := (live_qtys g)[oi := live_qtys g ! oi - c]\<rparr>)"
      using False by (simp add: g'_def g1_def live_view_def entries_def fun_eq_iff key_at_def)
    then show ?thesis
      using False live_view_set [OF par dist oi, where nid = "live_orders g ! oi" and p = "live_prices g ! oi"
          and q = "live_qtys g ! oi - c"]
      by (simp add: market_reduce_def st strip_upd M)
  qed
qed

lemma without_update: "without (xs[i := x]) i = without xs i"
  by (simp add: without_def)

lemma draw_amount:
  assumes u: "uniform_ok u" and d: "u 1 (unat (max 1 (qty :: u32))) r = (c, r')"
  shows "1 \<le> unat (of_nat c :: u32)"
proof -
  have "1 \<le> unat (max 1 qty)" by (simp add: max_def word_le_nat_alt)
  note b = uniform_bounds [OF u d this]
  have "unat (max 1 qty) < 2 ^ 32" by (rule unat_bound)
  then have "c < 2 ^ 32" using b(2) by linarith
  then show ?thesis using b(1) unat_of_nat_small by simp
qed

lemma gen_cancel_good:
  assumes inv: "gen_inv k g" and k: "k \<le> 4000000" and M: "strip M = live_view g" and u: "uniform_ok u"
    and oi: "oi < length (live_orders g)"
  shows "\<exists>m g'. gen_cancel u oi (live_orders g ! oi) g = Some (m, g') \<and> good_action k g M m g'"
proof -
  obtain c r where d: "u 1 (unat (max 1 (live_qtys g ! oi))) (rng g) = (c, r)" by fastforce
  have lens: "oi < length (live_locs g)" "oi < length (live_qtys g)"
    using inv oi by (simp_all add: gen_inv_def parallel_def)
  define g1 where "g1 = g\<lparr>rng := r, next_order_id := next_order_id g + 1\<rparr>"
  let ?c = "of_nat c :: u32"
  define g' where "g' = (if live_qtys g ! oi \<le> ?c then erased g1 oi
      else g1\<lparr>live_qtys := (live_qtys g)[oi := live_qtys g ! oi - ?c]\<rparr>)"
  let ?m = "MOrderCancel \<lparr>stock_locate = live_locs g ! oi, tracking_number = 0, ts = next_order_id g,
      cancel_order_id = live_orders g ! oi, canceled_shares = ?c\<rparr>"
  have er: "erase_live (g1\<lparr>live_qtys := (live_qtys g)[oi := 0]\<rparr>) oi = Some (erased g1 oi)"
    using inv oi by (subst erase_live_Some)
      (simp_all add: gen_inv_def parallel_def g1_def erased_def without_update)
  have "gen_cancel u oi (live_orders g ! oi) g = Some (?m, g')"
    using lens er
    unfolding gen_cancel_def vat_Some [OF lens(1)] vat_Some [OF lens(2)] bind.bind_lunit Let_def d prod.case
    by (simp add: g'_def g1_def vset_Some)
  moreover note red = reduce_good [OF inv k M oi draw_amount [OF u d], where r = r,
      folded g1_def, folded g'_def]
  have "good_action k g M ?m g'"
    using red next_id(3) [OF inv k] by (simp add: good_action_def)
  ultimately show ?thesis by blast
qed

lemma gen_execute_good:
  assumes inv: "gen_inv k g" and k: "k \<le> 4000000" and M: "strip M = live_view g" and u: "uniform_ok u"
    and oi: "oi < length (live_orders g)"
  shows "\<exists>m g'. gen_execute u oi (live_orders g ! oi) g = Some (m, g') \<and> good_action k g M m g'"
proof -
  obtain c r where d: "u 1 (unat (max 1 (live_qtys g ! oi))) (rng g) = (c, r)" by fastforce
  have lens: "oi < length (live_locs g)" "oi < length (live_qtys g)"
    using inv oi by (simp_all add: gen_inv_def parallel_def)
  define g1 where "g1 = g\<lparr>rng := r, next_order_id := next_order_id g + 1\<rparr>"
  let ?c = "of_nat c :: u32"
  define g' where "g' = (if live_qtys g ! oi \<le> ?c then erased g1 oi
      else g1\<lparr>live_qtys := (live_qtys g)[oi := live_qtys g ! oi - ?c]\<rparr>)"
  let ?m = "MOrderExecuted \<lparr>stock_locate = live_locs g ! oi, tracking_number = 0, ts = next_order_id g,
      exec_order_id = live_orders g ! oi, executed_shares = ?c, exec_match_number = next_order_id g + 1\<rparr>"
  have er: "erase_live g1 oi = Some (erased g1 oi)"
    using inv oi by (intro erase_live_Some) (simp_all add: gen_inv_def parallel_def g1_def)
  have "gen_execute u oi (live_orders g ! oi) g = Some (?m, g')"
    using lens er
    unfolding gen_execute_def vat_Some [OF lens(1)] vat_Some [OF lens(2)] bind.bind_lunit Let_def d prod.case
    by (simp add: g'_def g1_def vset_Some)
  moreover note red = reduce_good [OF inv k M oi draw_amount [OF u d], where r = r,
      folded g1_def, folded g'_def]
  have "good_action k g M ?m g'"
    using red next_id(3) [OF inv k] by (simp add: good_action_def)
  ultimately show ?thesis by blast
qed


lemma gen_delete_good:
  assumes inv: "gen_inv k g" and k: "k \<le> 4000000" and M: "strip M = live_view g"
    and oi: "oi < length (live_orders g)"
  shows "\<exists>m g'. gen_delete oi (live_orders g ! oi) g = Some (m, g') \<and> good_action k g M m g'"
proof -
  have lens: "oi < length (live_locs g)" using inv oi by (simp add: gen_inv_def parallel_def)
  have par: "parallel g" and dist: "distinct (live_orders g)" using inv by (simp_all add: gen_inv_def)
  define g1 where "g1 = g\<lparr>next_order_id := next_order_id g + 1\<rparr>"
  let ?m = "MOrderDelete \<lparr>stock_locate = live_locs g ! oi, tracking_number = 0, ts = next_order_id g,
      delete_order_id = live_orders g ! oi\<rparr>"
  have er: "erase_live g1 oi = Some (erased g1 oi)"
    using inv oi by (intro erase_live_Some) (simp_all add: gen_inv_def parallel_def g1_def)
  have "gen_delete oi (live_orders g ! oi) g = Some (?m, erased g1 oi)"
    using er unfolding gen_delete_def vat_Some [OF lens] bind.bind_lunit Let_def by (simp add: g1_def)
  moreover have "erased g1 oi = (erased g oi)\<lparr>rng := rng g, next_order_id := next_order_id g + 1\<rparr>"
    by (simp add: erased_def g1_def)
  then have "gen_inv (Suc k) (erased g1 oi)" using gen_inv_erased [OF inv oi k, of "rng g"] by simp
  moreover have "live_view (erased g1 oi) = (live_view g)(live_orders g ! oi := None)"
    using live_view_erased [of g1 oi] par dist oi by (simp add: g1_def parallel_def)
  then have "strip (feed_step M ?m) = live_view (erased g1 oi)" by (simp add: strip_upd M)
  ultimately show ?thesis using next_id(3) [OF inv k] by (simp add: good_action_def) (simp add: g1_def)
qed

lemma gen_replace_good:
  assumes inv: "gen_inv k g" and k: "k \<le> 4000000" and M: "strip M = live_view g" and u: "uniform_ok u"
    and oi: "oi < length (live_orders g)"
  shows "\<exists>m g'. gen_replace u oi (live_orders g ! oi) g = Some (m, g') \<and> good_action k g M m g'"
proof -
  obtain q r1 where d1: "u 100 1000 (rng g) = (q, r1)" by fastforce
  obtain p r2 where d2: "u 100000 200000 r1 = (p, r2)" by fastforce
  note qb = uniform_bounds [OF u d1, simplified]
  let ?q = "of_nat q :: u32" and ?p = "of_nat p :: u32"
  have uq: "unat ?q = q" using qb by (intro unat_of_nat_small) simp
  have nz: "?q \<noteq> 0" using uq qb by (metis not_numeral_le_zero unat_0)
  note ids = next_id [OF inv k]
  have par: "parallel g" and dist: "distinct (live_orders g)" using inv by (simp_all add: gen_inv_def)
  have lens: "oi < length (live_locs g)" "oi < length (live_prices g)" "oi < length (live_qtys g)"
    using par oi by (simp_all add: parallel_def)
  let ?nid = "next_order_id g + 1" and ?oid = "live_orders g ! oi"
  define g' where "g' = g\<lparr>live_orders := (live_orders g)[oi := ?nid], live_prices := (live_prices g)[oi := ?p],
      live_qtys := (live_qtys g)[oi := ?q]\<rparr>"
  let ?m = "MOrderReplace \<lparr>stock_locate = live_locs g ! oi, tracking_number = 0, ts = next_order_id g,
      original_order_id = ?oid, new_order_id = ?nid, replace_shares = ?q, replace_price = ?p\<rparr>"
  have eq: "gen_replace u oi ?oid g = Some (?m, g'\<lparr>rng := r2, next_order_id := ?nid + 1\<rparr>)"
    unfolding gen_replace_def vat_Some [OF lens(1)] bind.bind_lunit Let_def d1 prod.case d2
    using oi lens by (simp add: vset_Some g'_def)
  obtain st where st: "M ?oid = Some (key_at g (live_locs g ! oi), st)" "os_side st = live_sides g ! oi"
    using live_entry(1) [OF inv oi M] by blast
  have fresh: "M ?nid = None" using live_view_None [OF par] ids M by (metis strip_None)
  have lv: "live_view g' = (live_view g)(?oid := None, ?nid \<mapsto> (key_at g (live_locs g ! oi), live_sides g ! oi, ?p, ?q))"
    using live_view_set [OF par dist oi, where nid = ?nid and p = ?p and q = ?q] ids(5) by (simp add: g'_def)
  have "strip (feed_step M ?m) = live_view g'"
    using nz fresh st by (simp add: market_replace_def market_add_def domIff strip_upd lv M)
  moreover have "msg_ok M ?m" using fresh st by (simp add: id_free_def)
  moreover have "gen_inv (Suc k) (g'\<lparr>rng := r2, next_order_id := ?nid + 1\<rparr>)"
  proof -
    have "distinct ((live_orders g)[oi := ?nid])" using dist ids(5) by (simp add: distinct_list_update)
    moreover have "\<forall>x \<in> set ((live_orders g)[oi := ?nid]). x < ?nid + 1"
      using inv ids set_update_subset_insert [of "live_orders g" oi ?nid]
      by (fastforce simp: gen_inv_def word_less_nat_alt)
    moreover have "\<forall>x \<in> set ((live_qtys g)[oi := ?q]). 1 \<le> unat x \<and> unat x \<le> 1000"
      using inv uq qb set_update_subset_insert [of "live_qtys g" oi ?q] by (fastforce simp: gen_inv_def)
    ultimately show ?thesis using inv ids by (simp add: gen_inv_def g'_def parallel_def)
  qed
  ultimately show ?thesis
    using ids(3) by (simp add: eq good_action_def) (simp add: g'_def)
qed

text \<open>Whatever the draws, the generator produces a message the feed admits.\<close>

lemma gen_message_good:
  assumes inv: "gen_inv k g" and k: "k \<le> 4000000" and M: "strip M = live_view g" and u: "uniform_ok u"
  shows "\<exists>loc m g'. gen_message u g = Some (loc, m, g') \<and> good_action k g M m g'"
proof -
  have ne: "symbols g \<noteq> []" using inv by (simp add: gen_inv_def)
  obtain si r1 where d1: "u 0 (length (symbols g) - 1) (rng g) = (si, r1)" by fastforce
  have si: "si < length (symbols g)" using uniform_bounds(2) [OF u d1] ne by (cases "symbols g") auto
  obtain a r2 where d2: "u 0 99 r1 = (a, r2)" by fastforce
  let ?g = "g\<lparr>rng := r2\<rparr>" and ?loc = "base_locate g + of_nat si"
  have inv2: "gen_inv k ?g" and M2: "strip M = live_view ?g"
    using inv M by (simp_all add: gen_inv_def parallel_def)
  have start: "gen_message u g = (if live_orders g = [] \<or> a < 50 then Some (?loc, gen_add u ?loc (symbols g ! si) ?g)
      else let (oi, r) = u 0 (length (live_orders g) - 1) r2; g = ?g\<lparr>rng := r\<rparr> in do {
          oid \<leftarrow> vat (live_orders g) oi;
          res \<leftarrow> (if a < 70 then gen_cancel u oi oid g
                 else if a < 85 then gen_execute u oi oid g
                 else if a < 95 then gen_delete oi oid g
                 else gen_replace u oi oid g);
          Some (?loc, res) })"
    unfolding gen_message_def if_not_P [OF ne] Let_def d1 prod.case vat_Some [OF si] bind.bind_lunit d2
    by simp
  show ?thesis
  proof (cases "live_orders g = [] \<or> a < 50")
    case True
    have "good_action k ?g M (fst (gen_add u ?loc (symbols g ! si) ?g)) (snd (gen_add u ?loc (symbols g ! si) ?g))"
      using si by (intro gen_add_good [OF inv2 k M2 u]) simp_all
    moreover have "gen_message u g = Some (?loc, gen_add u ?loc (symbols g ! si) ?g)"
      using True by (simp add: start)
    ultimately show ?thesis by (cases "gen_add u ?loc (symbols g ! si) ?g") (auto simp: good_action_def)
  next
    case False
    obtain oi r3 where d3: "u 0 (length (live_orders g) - 1) r2 = (oi, r3)" by fastforce
    have oi: "oi < length (live_orders g)" using uniform_bounds(2) [OF u d3] False by (cases "live_orders g") auto
    let ?h = "?g\<lparr>rng := r3\<rparr>"
    have inv3: "gen_inv k ?h" and M3: "strip M = live_view ?h" and oi3: "oi < length (live_orders ?h)"
      using inv2 M2 oi by (simp_all add: gen_inv_def parallel_def)
    let ?act = "if a < 70 then gen_cancel u oi (live_orders ?h ! oi) ?h
                 else if a < 85 then gen_execute u oi (live_orders ?h ! oi) ?h
                 else if a < 95 then gen_delete oi (live_orders ?h ! oi) ?h
                 else gen_replace u oi (live_orders ?h ! oi) ?h"
    have "\<exists>m g'. ?act = Some (m, g') \<and> good_action k ?h M m g'"
      using gen_cancel_good [OF inv3 k M3 u oi3] gen_execute_good [OF inv3 k M3 u oi3]
        gen_delete_good [OF inv3 k M3 oi3] gen_replace_good [OF inv3 k M3 u oi3]
      by (simp only: split: if_split) blast
    then obtain m g' where act: "?act = Some (m, g')" "good_action k ?h M m g'" by blast
    have "gen_message u g = Some (?loc, m, g')"
      unfolding start d3 Let_def prod.case vat_Some [OF oi3] bind.bind_lunit act(1) using False by simp
    then show ?thesis using act(2) by (auto simp: good_action_def)
  qed
qed

text \<open>A message that is not an add names a live order, which is in the market.\<close>

lemma gen_message_target:
  assumes inv: "gen_inv k g" and M: "strip M = live_view g" and gm: "gen_message u g = Some (loc, m, g')"
  shows "msg_target M m \<noteq> None"
proof -
  have par: "parallel g" using inv by (simp add: gen_inv_def)
  have live: "M (live_orders g ! i) \<noteq> None" if "i < length (live_orders g)" for i
    using live_view_None [OF par, of "live_orders g ! i"] that M by (metis nth_mem strip_None)
  show ?thesis
    using gm live
    by (auto simp: gen_message_def gen_add_def gen_cancel_def gen_execute_def gen_delete_def gen_replace_def
        vat_def Let_def case_prod_unfold bind_eq_Some_conv split: if_splits)
qed

end
