(* ===== verification/Publisher_Correct.thy ===== *)
theory Publisher_Correct
  imports Publisher_Live
begin

text \<open>
  The generator end to end: its datagrams, fed to the feed handler, make the books hold exactly the
  generator's own live orders.
\<close>

section \<open>Framing\<close>

lemma gen_put_alt:
  "Publisher.put_u16 v x = v @ be_bytes 2 x" "Publisher.put_u64 v y = v @ be_bytes 8 y"
  by (simp_all add: Publisher.put_u16_def Publisher.put_u64_def be_bytes_expand upt_rec)

lemma frame_datagram_carries:
  assumes "on_wire m = m"
  shows "\<exists>out. frame_datagram loc seq m = Some (length out, out) \<and> carries out (loc, seq, m) \<and>
    length out = 10 + framed_size m"
proof -
  let ?w = "wire_bytes m @ replicate (framed_size m - length (wire_bytes m)) 0"
  let ?out = "be_bytes 2 loc @ be_bytes 8 seq @ ?w"
  have len: "length (wire_bytes m) \<le> framed_size m" "2 \<le> framed_size m"
    by (simp_all add: framed_size_def length_wire_bytes)
  have e: "encode_frame m (replicate (framed_size m) 0) = Some (framed_size m, ?w)"
    using len by (simp add: encode_frame_alt wr_def)
  have l: "length ?w = framed_size m" using len by simp
  have "frame_datagram loc seq m = Some (length ?out, ?out)"
    using len l unfolding frame_datagram_def gen_put_alt Let_def by (simp add: e)
  moreover have "decode_frame ?w = Some \<lparr>status = Ok, consumed = framed_size m, message = Some m\<rparr>"
    unfolding decode_frame_Ok using assms l by (simp add: bslice_def)
  then have "carries ?out (loc, seq, m)" using len l by simp
  moreover have "length ?out = 10 + framed_size m" using l by simp
  ultimately show ?thesis by blast
qed

section \<open>The stream\<close>

fun gen_stream :: "'r uniform \<Rightarrow> nat \<Rightarrow> 'r MessageGenerator \<Rightarrow> (byte list list \<times> 'r MessageGenerator) option" where
  "gen_stream u 0 g = Some ([], g)"
| "gen_stream u (Suc n) g = do {
     (len, out, hdr, g) \<leftarrow> next_datagram u g;
     (rest, g) \<leftarrow> gen_stream u n g;
     Some (out # rest, g) }"

definition in_step :: "nat \<Rightarrow> 'r MessageGenerator \<Rightarrow> feed_view \<Rightarrow> bool" where
  "in_step k g v \<longleftrightarrow> gen_inv k g \<and> strip (snd v) = live_view g \<and> fst v = next_seq g \<and>
     (\<forall>l s. next_seq g l = Some s \<longrightarrow> 1 \<le> unat s \<and> unat s \<le> k + 1)"

lemma gen_inv_seq: "gen_inv k (g\<lparr>next_seq := s\<rparr>) = gen_inv k g"
  by (simp add: gen_inv_def parallel_def)

lemma next_datagram_step:
  assumes st: "in_step k g v" and k: "k < 4000000" and u: "uniform_ok u"
  shows "\<exists>out hdr m g'. next_datagram u g = Some (length out, out, hdr, g') \<and>
    delivery_ok v (out, th_locate hdr, th_sequence hdr, m) \<and>
    in_step (Suc k) g' (deliver sk v (th_locate hdr, th_sequence hdr, m)) \<and>
    length out = 10 + framed_size m \<and>
    th_sequence hdr = (case next_seq g (th_locate hdr) of None \<Rightarrow> 1 | Some s \<Rightarrow> s) \<and>
    next_seq g' = (next_seq g)(th_locate hdr \<mapsto> th_sequence hdr + 1) \<and> msg_target (snd v) m \<noteq> None"
proof -
  have inv: "gen_inv k g" and M: "strip (snd v) = live_view g" and due: "fst v = next_seq g"
    and seqs: "\<And>l s. next_seq g l = Some s \<Longrightarrow> 1 \<le> unat s \<and> unat s \<le> k + 1"
    using st by (auto simp: in_step_def)
  have k': "k \<le> 4000000" using k by simp
  obtain loc m g1 where gm: "gen_message u g = Some (loc, m, g1)" and ga: "good_action k g (snd v) m g1"
    using gen_message_good [OF inv k' M u] by blast
  have tgt: "msg_target (snd v) m \<noteq> None" using inv M gm by (rule gen_message_target)
  from ga have inv1: "gen_inv (Suc k) g1" and M1: "strip (feed_step (snd v) m) = live_view g1"
    and ok: "msg_ok (snd v) m" and ts: "msg_ts m < 2 ^ 48" and ns: "next_seq g1 = next_seq g"
    by (auto simp: good_action_def)
  define seq where "seq = (case next_seq g loc of None \<Rightarrow> 1 | Some s \<Rightarrow> s)"
  have s1: "1 \<le> unat seq" "unat seq \<le> k + 1"
    using seqs [of loc] by (auto simp: seq_def split: option.splits)
  then have s0: "seq \<noteq> 0" by auto
  have s2: "unat (seq + 1) = unat seq + 1" using s1 k by (intro unat_succ) simp
  let ?g = "g1\<lparr>next_seq := (next_seq g)(loc \<mapsto> seq + 1)\<rparr>"
  have ts': "take_seq g1 loc = (seq, ?g)"
    by (auto simp: take_seq_def ns seq_def split: option.split)
  obtain out where out: "frame_datagram loc seq m = Some (length out, out)" "carries out (loc, seq, m)"
      "length out = 10 + framed_size m"
    using frame_datagram_carries [OF on_wire_id [OF ts]] by blast
  have "next_datagram u g = Some (length out, out, \<lparr>th_locate = loc, th_sequence = seq\<rparr>, ?g)"
    by (simp add: next_datagram_def gm ts' out(1))
  moreover have "market_fits (feed_step (snd v) m)"
    using live_market_fits [OF inv1 _ M1] k by simp
  then have "delivery_ok v (out, loc, seq, m)" using out(2) ok by (simp add: delivery_ok_def del: carries.simps)
  moreover have "deliver sk v (loc, seq, m) = ((next_seq g)(loc \<mapsto> seq + 1), feed_step (snd v) m)"
    using s0 due by (cases v) (auto simp: seq_def split: option.splits)
  then have "in_step (Suc k) ?g (deliver sk v (loc, seq, m))"
    using inv1 M1 seqs s1 s2 by (auto simp: in_step_def gen_inv_seq dest: seqs)
  ultimately show ?thesis
    using out(3) tgt by (intro exI [of _ out] exI [of _ "\<lparr>th_locate = loc, th_sequence = seq\<rparr>"] exI [of _ m] exI [of _ ?g])
      (simp add: seq_def)
qed

lemma gen_stream_run:
  assumes u: "uniform_ok u"
  shows "in_step k g v \<Longrightarrow> k + n \<le> 4000000 \<Longrightarrow>
    \<exists>xs g'. gen_stream u n g = Some (map fst xs, g') \<and>
      admissible (\<lambda>v x. deliver sk v (snd x)) delivery_ok (\<lambda>v. True) v xs \<and>
      in_step (k + n) g' (foldl (\<lambda>v x. deliver sk v (snd x)) v xs)"
proof (induction n arbitrary: k g v)
  case 0
  then show ?case by (intro exI [of _ "[]"]) simp
next
  case (Suc n)
  have k: "k < 4000000" using Suc.prems by simp
  obtain out hdr dl g1 where st: "next_datagram u g = Some (length out, out, hdr, g1)"
      "delivery_ok v (out, dl)" "in_step (Suc k) g1 (deliver sk v dl)"
    using next_datagram_step [OF Suc.prems(1) k u, of sk] by metis
  obtain xs g' where xs: "gen_stream u n g1 = Some (map fst xs, g')"
      "admissible (\<lambda>v x. deliver sk v (snd x)) delivery_ok (\<lambda>v. True) (deliver sk v dl) xs"
      "in_step (Suc k + n) g' (foldl (\<lambda>v x. deliver sk v (snd x)) (deliver sk v dl) xs)"
    using Suc.IH [OF st(3)] Suc.prems(2) by auto
  show ?case
    using st xs by (intro exI [of _ "(out, dl) # xs"] exI [of _ g']) simp
qed

lemma in_step_new:
  assumes "0 < num"
  shows "in_step 0 (new_generator r num) (Map.empty, Map.empty)"
proof -
  have "length kNames = 10" by (simp add: kNames_def)
  then have "take (min num (length kNames)) kNames \<noteq> []" using assms by auto
  then show ?thesis
    by (simp add: in_step_def gen_inv_def new_generator_def parallel_def fun_eq_iff strip_def
        live_view_def entries_def kNames_def)
qed

section \<open>The stock directory\<close>

definition directory_message :: "'r MessageGenerator \<Rightarrow> nat \<Rightarrow> AnyMessage" where
  "directory_message g i = MStockDirectory
     \<lparr>stock_locate = base_locate g + of_nat i, tracking_number = 0, ts = 0, dir_symbol = symbols g ! i,
      market_category = 0x51, financial_status = 0x4E, round_lot_size = 100\<rparr>"

lemma directory_header:
  "wr (replicate (10 + n) 0) 0 [ucast (drop_bit 8 (l :: u16))] \<bind> (\<lambda>p. wr p 1 [ucast l] \<bind> (\<lambda>p.
     wr p 2 (map (\<lambda>j. ucast (drop_bit (56 - j * 8) (0 :: u64))) [0..<8]) \<bind> f)) =
   f (be_bytes 2 l @ be_bytes 8 (0 :: u64) @ replicate n 0)"
proof -
  have z: "map (\<lambda>j. ucast (drop_bit (56 - j * 8) (0 :: u64))) [0..<8] = be_bytes 8 (0 :: u64)"
    by (simp add: be_bytes_expand upt_rec)
  have "wr (replicate (10 + n) 0) 0 ([ucast (drop_bit 8 l)] @ [ucast l] @ be_bytes 8 (0 :: u64)) =
      Some (be_bytes 2 l @ be_bytes 8 (0 :: u64) @ replicate n 0)"
    by (simp add: wr_def be_bytes_expand)
  then show ?thesis unfolding z by (simp add: wr_wr wr_wr_bind flip: bind_assoc)
qed

lemma directory_datagram_carries:
  assumes "i < length (symbols g)"
  shows "\<exists>out. directory_datagram g i = Some (Some out) \<and>
    carries out (base_locate g + of_nat i, 0, directory_message g i) \<and> length out = 51"
proof -
  let ?l = "base_locate g + of_nat i" and ?m = "directory_message g i"
  obtain out where out: "frame_datagram ?l 0 ?m = Some (length out, out)" "carries out (?l, 0, ?m)"
      "length out = 10 + framed_size ?m"
    using frame_datagram_carries [of ?m ?l 0] by (auto simp: directory_message_def trunc_ts_def)
  have fs: "framed_size ?m = 41" by (simp add: directory_message_def framed_size_def)
  let ?p = "be_bytes 2 ?l @ be_bytes 8 (0 :: u64) @ replicate 41 0"
  obtain n body where e: "encode_frame ?m (replicate 41 0) = Some (n, body)"
    using out(1) fs unfolding frame_datagram_def gen_put_alt Let_def by (auto simp: bind_eq_Some_conv)
  have o: "(if n = 0 then (0, []) else (length (take (10 + n) (take 10 ?p @ body)), take (10 + n) (take 10 ?p @ body))) =
      (length out, out)"
    using out(1) fs e unfolding frame_datagram_def gen_put_alt Let_def by (auto split: if_splits)
  have "n \<noteq> 0"
  proof
    assume "n = 0"
    then have "out = []" using o by simp
    then show False using out(3) by simp
  qed
  then have "take (10 + n) (take 10 ?p @ body) = out" using o by simp
  moreover have "10 + 2 + kWireSize StockDirectory = 10 + (41 :: nat)" by simp
  then have "directory_datagram g i = (if n = 0 then Some None else Some (Some (take (10 + n) (take 10 ?p @ body))))"
    unfolding directory_datagram_def vat_Some [OF assms] bind.bind_lunit Let_def
    using e by (simp only: directory_message_def select_convs directory_header) simp
  ultimately show ?thesis using \<open>n \<noteq> 0\<close> out fs by auto
qed

section \<open>Properties\<close>

text \<open>C4: from the generator through the wire to the books: whatever the random draws, every one of up to
  four million datagrams is produced without an access out of bounds, and a feed handler that
  receives them holds exactly the generator's own live orders, with their symbols, sides, prices
  and remaining shares.\<close>

theorem generator_to_books:
  assumes "uniform_ok u" and "0 < num" and "n \<le> 4000000"
  shows "\<exists>out g' h. gen_stream u n (new_generator r num) = Some (out, g') \<and>
    run_steps handler_step (set_skip_gaps (new_feed_handler dep) sk) (map (\<lambda>d. (None, d)) out) = Some h \<and>
    strip (global (fh_book h)) = live_view g'"
proof -
  let ?h = "set_skip_gaps (new_feed_handler dep) sk"
  obtain xs g' where xs: "gen_stream u n (new_generator r num) = Some (map fst xs, g')"
      "admissible (\<lambda>v x. deliver sk v (snd x)) delivery_ok (\<lambda>v. True) (Map.empty, Map.empty) xs"
      "in_step n g' (foldl (\<lambda>v x. deliver sk v (snd x)) (Map.empty, Map.empty) xs)"
    using gen_stream_run [OF assms(1) in_step_new [OF assms(2)], where n = n and sk = sk and r1 = r] assms(3) by auto
  have good: "handler_good dep sk ?h" and view: "handler_view ?h = (Map.empty, Map.empty)"
    by (simp_all add: handler_good_def handler_view_def set_skip_gaps_def new_feed_handler_def
        db_inv_new new_gap_detector_def)
  obtain h where h: "run_steps deliver_step ?h xs = Some h"
      "handler_view h = foldl (\<lambda>v x. deliver sk v (snd x)) (Map.empty, Map.empty) xs"
    using fh.run_sim [OF good, of xs] xs(2) view by auto
  have "strip (global (fh_book h)) = live_view g'"
    using xs(3) h(2) by (simp add: in_step_def handler_view_def flip: h(2))
  then show ?thesis using xs(1) h(1) by (auto simp: deliver_runs comp_def)
qed

definition sample_uniform :: "nat uniform" where
  "sample_uniform a b r = (a + r mod (b - a + 1), r + 17)"

lemma sample_uniform_ok: "uniform_ok sample_uniform"
proof -
  have "r mod Suc (b - a) \<le> b - a" for a b r :: nat using mod_less_divisor [of "Suc (b - a)" r] by simp
  then have "a \<le> b \<Longrightarrow> a + r mod Suc (b - a) \<le> b" for a b r :: nat
    using le_diff_conv2 [of a b] by (metis add.commute le_diff_conv2)
  then show ?thesis by (simp add: uniform_ok_def sample_uniform_def)
qed

theorem generator_to_books_witness:
  "\<exists>out g' h. gen_stream sample_uniform 3 (new_generator 5 2) = Some (out, g') \<and>
    run_steps handler_step (set_skip_gaps (new_feed_handler 10) False) (map (\<lambda>d. (None, d)) out) = Some h \<and>
    strip (global (fh_book h)) = live_view g'"
  using sample_uniform_ok by (rule generator_to_books) simp_all

end
