(* ===== verification/Snapshot_Codec.thy ===== *)
theory Snapshot_Codec
  imports Snapshot_Client
begin

text \<open>
  Laws of the recovery frames: their layout as the concatenation of encoded fields, and the
  decoder against that layout.
\<close>

section \<open>Encoders append encoded fields\<close>

lemma put_alt [codec_simps]:
  "put_u16 v x = v @ be_bytes 2 x" "put_u32 v y = v @ be_bytes 4 y"
  by (simp_all add: put_u16_def put_u32_def be_bytes_expand)

lemma upt_8: "[0..<8] = [0, 1, 2, 3, 4, 5, 6, 7 :: nat]"
  by (simp add: upt_rec)

lemma put_u64_alt [codec_simps]: "put_u64 v x = v @ be_bytes 8 x"
  by (simp add: put_u64_def be_bytes_expand upt_8)

lemma put_symbol_alt [codec_simps]: "put_symbol v s = v @ sym_bytes s"
  by (cases s) (simp add: put_symbol_def kSymbolLen_def upt_8)

definition level_bytes :: "PriceLevel \<Rightarrow> byte list" where
  "level_bytes l = be_bytes 4 (price l) @ be_bytes 4 (total_qty l) @ be_bytes 4 (order_count l)"

lemma length_level_bytes [simp, bounds_simps]: "length (level_bytes l) = 12"
  by (simp add: level_bytes_def)

lemma put_level_alt [codec_simps]: "put_level v l = v @ level_bytes l"
  by (simp add: put_level_def put_alt level_bytes_def)

definition levels_bytes :: "PriceLevel list \<Rightarrow> byte list" where
  "levels_bytes ls = concat (map level_bytes ls)"

lemma levels_bytes_simps [simp]:
  "levels_bytes [] = []" "levels_bytes (l # ls) = level_bytes l @ levels_bytes ls"
  by (simp_all add: levels_bytes_def)

lemma length_levels_bytes [simp, bounds_simps]: "length (levels_bytes ls) = 12 * length ls"
  by (induction ls) simp_all

lemma put_levels_alt [codec_simps]: "foldl put_level v ls = v @ levels_bytes ls"
  by (induction ls arbitrary: v) (simp_all add: put_level_alt)

definition frame_bytes :: "byte \<Rightarrow> byte list \<Rightarrow> byte list" where
  "frame_bytes op body = be_bytes 4 (of_nat (1 + length body) :: u32) @ [op] @ body"

definition request_body :: "SnapshotRequest \<Rightarrow> byte list" where
  "request_body r = be_bytes 2 (req_locate r) @ be_bytes 8 (from_seq r)"

definition fault_body :: "SnapshotFault \<Rightarrow> byte list" where
  "fault_body f = be_bytes 2 (fault_locate f) @ [fault_code f]"

definition response_body :: "SnapshotResponse \<Rightarrow> byte list" where
  "response_body r = be_bytes 2 (resp_locate r) @ be_bytes 8 (last_applied_seq r) @
     sym_bytes (resp_symbol r) @
     be_bytes 4 (of_nat (length (resp_bids r)) :: u32) @ levels_bytes (resp_bids r) @
     be_bytes 4 (of_nat (length (resp_asks r)) :: u32) @ levels_bytes (resp_asks r)"

lemma frame_with_header_alt: "frame_with_header op body = frame_bytes op body"
  by (simp add: frame_with_header_def frame_bytes_def put_alt)

lemma encode_alt:
  "encode_request r = frame_bytes 0x51 (request_body r)"
  "encode_fault f = frame_bytes 0x46 (fault_body f)"
  "encode_response s = frame_bytes 0x53 (response_body s)"
  by (simp_all add: encode_request_def encode_fault_def encode_response_def codec_simps
      frame_with_header_alt request_body_def fault_body_def response_body_def)

lemma length_bodies [bounds_simps]:
  "length (request_body r) = 10" "length (fault_body f) = 3"
  "length (response_body s) = 26 + 12 * length (resp_bids s) + 12 * length (resp_asks s)"
  by (simp_all add: request_body_def fault_body_def response_body_def)

lemma length_frame_bytes [bounds_simps]: "length (frame_bytes op body) = 5 + length body"
  by (simp add: frame_bytes_def)

section \<open>Decoders\<close>

lemma take_u16_read: "take_u16 = read_u16"
  by (simp add: fun_eq_iff take_u16_def read_u16_def)

lemma take_u32_read: "take_u32 = read_u32"
  by (simp add: fun_eq_iff take_u32_def read_u32_def)

lemma take_u64_loop_read: "take_u64_loop b p n v = read_be_loop b p n v"
  by (induction n arbitrary: p v) simp_all

lemma take_u64_read: "take_u64 = read_u64"
  by (simp add: fun_eq_iff take_u64_def read_u64_def take_u64_loop_read)

lemmas take_read = take_u16_read take_u32_read take_u64_read

lemma take_levels_Suc:
  "take_levels b p (Suc n) acc = Option.bind (bslice p 12 b) (\<lambda>x. take_levels b (p + 12) n
     (acc @ [\<lparr>price = be_word (take 4 x), total_qty = be_word (take 4 (drop 4 x)),
              order_count = be_word (take 4 (drop 8 x))\<rparr>]))"
  by (auto simp: take_read read_u32_bslice bslice_def take_drop add.commute [of _ p])

lemma take_levels_safe: "p + 12 * n \<le> length b \<Longrightarrow> take_levels b p n acc \<noteq> None"
proof (induction n arbitrary: p acc)
  case (Suc n)
  have "p + 12 + 12 * n \<le> length b" using Suc.prems by simp
  from Suc.IH [OF this] show ?case using Suc.prems by (simp add: take_levels_Suc bslice_def del: take_levels.simps)
qed simp

lemma take_levels_length: "take_levels b p n acc = Some xs \<Longrightarrow> length xs = length acc + n"
  by (induction n arbitrary: p acc)
     (auto simp: take_levels_Suc bind_eq_Some_conv simp del: take_levels.simps(2))

lemma take_levels_bytes:
  "bslice p (12 * length ls) b = Some (levels_bytes ls) \<Longrightarrow>
   take_levels b p (length ls) acc = Some (acc @ ls)"
proof (induction ls arbitrary: p acc)
  case (Cons l ls)
  have "bslice p 12 b = Some (level_bytes l)" "bslice (p + 12) (12 * length ls) b = Some (levels_bytes ls)"
    using Cons.prems by (simp_all add: bslice_append_iff)
  then show ?case
    using Cons.IH [of "p + 12" "acc @ [l]"]
    by (cases l) (simp add: take_levels_Suc level_bytes_def del: take_levels.simps)
qed simp


section \<open>Frames\<close>

lemma bslice_frame:
  "bslice 0 (length (frame_bytes op body)) b = Some (frame_bytes op body) \<longleftrightarrow>
     bslice 0 4 b = Some (be_bytes 4 (of_nat (1 + length body) :: u32)) \<and> rd8 b 4 = Some op \<and>
     bslice 5 (length body) b = Some body"
  unfolding frame_bytes_def bslice_append by (simp add: rd8_bslice)

lemma decode_frame_bytes:
  assumes b: "bslice 0 (length (frame_bytes op body)) b = Some (frame_bytes op body)"
    and small: "5 + length body < 2 ^ 32"
    and body: "decode_body_by_op op b 5 (5 + int (length body)) = Some (out, True)"
  shows "decode_snap_frame b = Some (out, 5 + length body)"
proof -
  have l: "take_u32 b 0 = Some (of_nat (1 + length body))" and op: "rd8 b 4 = Some op"
    using b by (simp_all add: bslice_frame take_read read_u32_Some)
  have len: "5 + length body \<le> length b"
    using b by (auto simp: bslice_def length_frame_bytes split: if_splits)
  have "(4 + of_nat (1 + length body) :: u32) = of_nat (5 + length body)" by simp
  then have n: "unat (4 + of_nat (1 + length body) :: u32) = 5 + length body"
    using small by (simp only: unat_of_nat_small)
  have m: "unat (of_nat (1 + length body) :: u32) = 1 + length body"
    using small by (intro unat_of_nat_small) simp
  have e: "4 + int (1 + length body) = 5 + int (length body)" by simp
  show ?thesis
    using len unfolding decode_snap_frame_def l op bind.bind_lunit
    by (simp only: n m e body bind.bind_lunit prod.case if_True) simp
qed

lemma decode_request_body:
  assumes "bslice p 10 b = Some (request_body r)"
  shows "decode_request_body b p (int p + 10) = Some (empty_frame\<lparr>kind := KRequest, request := r\<rparr>, True)"
  using assms
  by (cases r) (simp add: decode_request_body_def request_body_def bslice_append_iff take_read
      read_u16_bslice read_u64_bslice)

lemma decode_fault_body:
  assumes "bslice p 3 b = Some (fault_body f)"
  shows "decode_fault_body b p (int p + 3) = Some (empty_frame\<lparr>kind := KFault, fault := f\<rparr>, True)"
  using assms
  by (cases f) (simp add: decode_fault_body_def fault_body_def bslice_append_iff bslice_Cons_iff take_read
      read_u16_bslice)

lemma decode_response_body:
  assumes b: "bslice p (length (response_body r)) b = Some (response_body r)"
    and small: "length (resp_bids r) < 2 ^ 32" "length (resp_asks r) < 2 ^ 32"
  shows "decode_response_body b p (int (p + length (response_body r))) =
    Some (empty_frame\<lparr>kind := KResponse, response := r\<rparr>, True)"
proof -
  let ?n = "length (resp_bids r)" and ?m = "length (resp_asks r)"
  have f: "take_u16 b p = Some (resp_locate r)" "take_u64 b (p + 2) = Some (last_applied_seq r)"
    "bslice (p + 10) kSymbolLen b = Some (sym_bytes (resp_symbol r))"
    "take_u32 b (p + 18) = Some (of_nat ?n)"
    "bslice (p + 22) (12 * ?n) b = Some (levels_bytes (resp_bids r))"
    "take_u32 b (p + 22 + ?n * 12) = Some (of_nat ?m)"
    "bslice (p + 22 + ?n * 12 + 4) (12 * ?m) b = Some (levels_bytes (resp_asks r))"
    using b unfolding response_body_def take_read read_u16_Some read_u64_Some read_u32_Some kSymbolLen_def
    by (simp_all add: bslice_append_iff ac_simps)
  have u: "unat (of_nat ?n :: u32) = ?n" "unat (of_nat ?m :: u32) = ?m"
    using small by (simp_all only: unat_of_nat_small)
  have t: "take_levels b (p + 22) ?n [] = Some (resp_bids r)"
    "take_levels b (p + 22 + ?n * 12 + 4) ?m [] = Some (resp_asks r)"
    using take_levels_bytes [OF f(5)] take_levels_bytes [OF f(7)] by simp_all
  show ?thesis
    unfolding decode_response_body_def f option.map bind.bind_lunit u Let_def t length_bodies
    by (simp add: kSymbolLen_def)
qed


section \<open>Memory safety\<close>

lemma take_in_bounds:
  "p + 2 \<le> length b \<Longrightarrow> \<exists>v. take_u16 b p = Some v"
  "p + 4 \<le> length b \<Longrightarrow> \<exists>w. take_u32 b p = Some w"
  "p + 8 \<le> length b \<Longrightarrow> \<exists>x. take_u64 b p = Some x"
  "p < length b \<Longrightarrow> \<exists>y. rd8 b p = Some y"
  by (auto simp: take_read read_u16_bslice read_u32_bslice read_u64_bslice bslice_def rd8_def)

lemma decode_response_body_safe:
  assumes e: "e \<le> int (length b)"
  shows "decode_response_body b p e \<noteq> None"
proof (cases "e - int p < 22")
  case True
  then show ?thesis by (simp add: decode_response_body_def kSymbolLen_def)
next
  case False
  then have h: "p + 22 \<le> length b" using e by simp
  obtain loc sq bn where f: "take_u16 b p = Some loc" "take_u64 b (p + 2) = Some sq"
      "take_u32 b (p + 18) = Some bn"
    using h take_in_bounds(1) [of p b] take_in_bounds(3) [of "p + 2" b] take_in_bounds(2) [of "p + 18" b] by auto
  have sy: "bslice (p + 10) kSymbolLen b = Some (take 8 (drop (p + 10) b))"
    using h by (simp add: bslice_def kSymbolLen_def)
  note out = decode_response_body_def kSymbolLen_def f sy [unfolded kSymbolLen_def]
  define n where "n = unat bn"
  show ?thesis
  proof (cases "e - int (p + 22) < int n * 12 + 4")
    case True
    then show ?thesis using False unfolding out n_def Let_def by simp
  next
    case fits: False
    then have nb: "p + 22 + 12 * n + 4 \<le> length b" using e by simp
    then obtain bids where bids: "take_levels b (p + 22) n [] = Some bids"
      using take_levels_safe [of "p + 22" n b "[]"] by auto
    obtain an where an: "take_u32 b (p + 22 + n * 12) = Some an"
      using nb take_in_bounds(2) [of "p + 22 + n * 12" b] by auto
    define m where "m = unat an"
    show ?thesis
    proof (cases "e - int (p + 22 + n * 12 + 4) < int m * 12")
      case True
      then show ?thesis
        using False fits unfolding out Let_def option.map bind.bind_lunit n_def [symmetric] bids an m_def [symmetric]
        by simp
    next
      case fits2: False
      then have "p + 22 + n * 12 + 4 + 12 * m \<le> length b" using e by simp
      then obtain asks where asks: "take_levels b (p + 22 + n * 12 + 4) m [] = Some asks"
        using take_levels_safe [of "p + 22 + n * 12 + 4" m b "[]"] by auto
      show ?thesis
        using False fits fits2
        unfolding out Let_def option.map bind.bind_lunit n_def [symmetric] bids an m_def [symmetric] asks
        by simp
    qed
  qed
qed

lemma decode_body_by_op_safe:
  assumes e: "e \<le> int (length b)"
  shows "decode_body_by_op op b p e \<noteq> None"
proof -
  have "decode_request_body b p e \<noteq> None"
    using e take_in_bounds(1) [of p b] take_in_bounds(3) [of "p + 2" b]
    by (cases "e - int p < 10") (fastforce simp: decode_request_body_def simp del: add_2_eq_Suc')+
  moreover have "decode_fault_body b p e \<noteq> None"
    using e take_in_bounds(1) [of p b] take_in_bounds(4) [of "p + 2" b]
    by (cases "e - int p < 3") (fastforce simp: decode_fault_body_def simp del: add_2_eq_Suc')+
  ultimately show ?thesis
    using decode_response_body_safe [OF e] by (auto simp: decode_body_by_op_def simp del: not_None_eq)
qed

text \<open>The length check protects the reads as long as the 32-bit sum does not wrap.\<close>

lemma decode_snap_frame_safe:
  assumes "unat (be_word (take 4 b) :: u32) < 2 ^ 32 - 4"
  shows "decode_snap_frame b \<noteq> None"
proof (cases "length b < 5")
  case True
  then show ?thesis by (simp add: decode_snap_frame_def)
next
  case False
  let ?len = "be_word (take 4 b) :: u32"
  have l: "take_u32 b 0 = Some ?len" using False by (simp add: take_read read_u32_bslice bslice_def)
  obtain op where op: "rd8 b 4 = Some op" using False by (simp add: rd8_def)
  have s: "unat (4 + ?len) = 4 + unat ?len"
    using assms by (subst unat_add_lem [THEN iffD1]) simp_all
  show ?thesis
  proof (cases "length b < 4 + unat ?len")
    case True
    then show ?thesis using False unfolding decode_snap_frame_def l bind.bind_lunit s by simp
  next
    case fits: False
    then have "4 + int (unat ?len) \<le> int (length b)" by linarith
    then have "decode_body_by_op op b 5 (4 + int (unat ?len)) \<noteq> None"
      by (rule decode_body_by_op_safe)
    then show ?thesis using False fits unfolding decode_snap_frame_def l bind.bind_lunit s op by auto
  qed
qed


lemma decode_response_frame:
  assumes "31 + 12 * (length (resp_bids r) + length (resp_asks r)) < 2 ^ 32"
  shows "decode_snap_frame (encode_response r @ rest) =
    Some (empty_frame\<lparr>kind := KResponse, response := r\<rparr>, length (encode_response r))"
proof -
  have b: "bslice 0 (length (frame_bytes 0x53 (response_body r))) (frame_bytes 0x53 (response_body r) @ rest) =
      Some (frame_bytes 0x53 (response_body r))" by (simp add: bslice_def)
  then have "bslice 5 (length (response_body r)) (frame_bytes 0x53 (response_body r) @ rest) = Some (response_body r)"
    unfolding bslice_frame by simp
  note d = decode_response_body [OF this]
  have "decode_body_by_op 0x53 (frame_bytes 0x53 (response_body r) @ rest) 5 (5 + int (length (response_body r))) =
      Some (empty_frame\<lparr>kind := KResponse, response := r\<rparr>, True)"
    using d assms by (simp add: decode_body_by_op_def)
  from decode_frame_bytes [OF b _ this] show ?thesis
    using assms by (simp add: encode_alt length_frame_bytes length_bodies)
qed

section \<open>Properties\<close>

text \<open>A snapshot response survives the wire: what is encoded decodes to the same response whatever
  follows it in the stream, and exactly its bytes are consumed.\<close>

theorem response_roundtrip:
  assumes "31 + 12 * (length (resp_bids r) + length (resp_asks r)) < 2 ^ 32"
  shows "decode_snap_frame (encode_response r @ rest) =
    Some (empty_frame\<lparr>kind := KResponse, response := r\<rparr>, length (encode_response r))"
  using assms by (rule decode_response_frame)

theorem response_roundtrip_witness:
  "let r = \<lparr>resp_locate = 3, last_applied_seq = 12, resp_symbol = make_symbol [0x41],
      resp_bids = [\<lparr>price = 100, total_qty = 5, order_count = 2\<rparr>], resp_asks = []\<rparr> in
   decode_snap_frame (encode_response r @ [1, 2]) =
     Some (empty_frame\<lparr>kind := KResponse, response := r\<rparr>, length (encode_response r))"
  unfolding Let_def by (rule response_roundtrip) simp

text \<open>A snapshot request and a fault survive the wire likewise.\<close>

lemma request_fault_roundtrip:
  "decode_snap_frame (encode_request q @ rest) = Some (empty_frame\<lparr>kind := KRequest, request := q\<rparr>, 15) \<and>
   decode_snap_frame (encode_fault f @ rest) = Some (empty_frame\<lparr>kind := KFault, fault := f\<rparr>, 8)"
proof
  have b: "bslice 0 (length (frame_bytes op body)) (frame_bytes op body @ rest) = Some (frame_bytes op body)"
    for op body by (simp add: bslice_def)
  have body: "bslice 5 (length body) (frame_bytes op body @ rest) = Some body" for op body
    using b [of op body] unfolding bslice_frame by simp
  have "decode_body_by_op 0x51 (frame_bytes 0x51 (request_body q) @ rest) 5 (5 + int (length (request_body q))) =
      Some (empty_frame\<lparr>kind := KRequest, request := q\<rparr>, True)"
    using decode_request_body [of 5 "frame_bytes 0x51 (request_body q) @ rest" q]
      body [of "request_body q" "0x51"]
    by (simp add: decode_body_by_op_def length_bodies)
  from decode_frame_bytes [OF b _ this]
  show "decode_snap_frame (encode_request q @ rest) = Some (empty_frame\<lparr>kind := KRequest, request := q\<rparr>, 15)"
    by (simp add: encode_alt length_bodies)
  have "decode_body_by_op 0x46 (frame_bytes 0x46 (fault_body f) @ rest) 5 (5 + int (length (fault_body f))) =
      Some (empty_frame\<lparr>kind := KFault, fault := f\<rparr>, True)"
    using decode_fault_body [of 5 "frame_bytes 0x46 (fault_body f) @ rest" f]
      body [of "fault_body f" "0x46"]
    by (simp add: decode_body_by_op_def length_bodies)
  from decode_frame_bytes [OF b _ this]
  show "decode_snap_frame (encode_fault f @ rest) = Some (empty_frame\<lparr>kind := KFault, fault := f\<rparr>, 8)"
    by (simp add: encode_alt length_bodies)
qed

text \<open>Decoding a recovery frame stays inside the bytes received whenever the announced length does
  not exceed \<^verbatim>\<open>2^32 - 5\<close>.\<close>

theorem snap_frame_memory_safe:
  assumes "unat (be_word (take 4 b) :: u32) < 2 ^ 32 - 4"
  shows "decode_snap_frame b \<noteq> None"
  using assms by (rule decode_snap_frame_safe)

theorem snap_frame_memory_safe_witness: "decode_snap_frame [0, 0, 0, 9, 0x51] \<noteq> None"
  by (rule snap_frame_memory_safe) (simp add: be_word_def)

text \<open>The bound is needed: a five-byte frame that announces \<^verbatim>\<open>2^32 - 1\<close> bytes passes the length check,
  because \<^verbatim>\<open>4 + len\<close> wraps to 3 in 32 bits, and the decoder reads past the end of the buffer.\<close>

theorem snap_frame_overread: "decode_snap_frame [0xFF, 0xFF, 0xFF, 0xFF, 0x51] = None"
  by (simp add: decode_snap_frame_def take_u32_def rd8_def decode_body_by_op_def decode_request_body_def
      take_u16_def)

text \<open>A response whose announced ask levels are missing is reported as a response, with the bids it
  has and no bytes consumed, so a caller that tests the kind takes a truncated book for a whole one.\<close>

theorem truncated_response_reported:
  "case decode_snap_frame (frame_bytes 0x53 (be_bytes 2 (7 :: u16) @ be_bytes 8 (9 :: u64) @
      sym_bytes (make_symbol [0x41]) @ be_bytes 4 (0 :: u32) @ be_bytes 4 (1 :: u32))) of
     None \<Rightarrow> False
   | Some (out, used) \<Rightarrow> kind out = KResponse \<and> last_applied_seq (response out) = 9 \<and>
       resp_asks (response out) = [] \<and> used = 0"
  by code_simp

end
