(* ===== verification/Crc32.thy ===== *)
theory Crc32
  imports Prelude
begin

text \<open>
  The CRC-32 of \<^verbatim>\<open>src/sim/book_snapshot.cpp\<close> (\<^verbatim>\<open>crc_table\<close>, \<^verbatim>\<open>crc32\<close>): the table-driven routine, its
  equivalence with the bit-serial definition, and the bursts of corruption it detects.
\<close>

section \<open>The routine\<close>

definition crc_bit :: "u32 \<Rightarrow> u32" where
  "crc_bit c = (if c AND 1 \<noteq> 0 then 0xEDB88320 XOR drop_bit 1 c else drop_bit 1 c)"

definition crc_entry :: "nat \<Rightarrow> u32" where
  "crc_entry i = (crc_bit ^^ 8) (of_nat i)"

definition crc_table :: "u32 list" where
  "crc_table = map crc_entry [0..<256]"

definition crc_update :: "u32 \<Rightarrow> byte \<Rightarrow> u32" where
  "crc_update c x = crc_table ! unat ((c XOR ucast x) AND 0xFF) XOR drop_bit 8 c"

definition crc32 :: "byte list \<Rightarrow> u32" where
  "crc32 xs = foldl crc_update 0xFFFFFFFF xs XOR 0xFFFFFFFF"

section \<open>The bit-serial reference\<close>

text \<open>The table-free CRC-32: eight one-bit steps per byte, least significant bit first.\<close>

definition crc_step :: "u32 \<Rightarrow> byte \<Rightarrow> u32" where
  "crc_step c x = (crc_bit ^^ 8) (c XOR ucast x)"

definition crc32_bitwise :: "byte list \<Rightarrow> u32" where
  "crc32_bitwise xs = foldl crc_step 0xFFFFFFFF xs XOR 0xFFFFFFFF"

lemma crc_bit_alt: "crc_bit c = (if bit c 0 then 0xEDB88320 XOR drop_bit 1 c else drop_bit 1 c)"
  by (simp add: crc_bit_def and_one_eq odd_iff_mod_2_eq_one even_iff_mod_2_eq_zero bit_0)

lemma crc_bit_xor: "crc_bit (a XOR b) = crc_bit a XOR crc_bit b"
  by (simp add: crc_bit_alt bit_xor_iff drop_bit_xor xor.assoc xor.left_commute)

lemma crc_bits_xor: "(crc_bit ^^ n) (a XOR b) = (crc_bit ^^ n) a XOR (crc_bit ^^ n) b"
  by (induction n) (simp_all add: crc_bit_xor)

lemma crc_bit_top: "bit (crc_bit c) 31 \<longleftrightarrow> bit c 0"
proof -
  have "bit (0xEDB88320 :: u32) 31" by (simp add: bit_numeral_rec)
  moreover have "\<not> bit (drop_bit 1 c) 31" using bit_imp_le_length [of c 32] by (auto simp: bit_simps)
  ultimately show ?thesis by (simp add: crc_bit_alt bit_xor_iff)
qed

lemma crc_bit_zero: assumes "crc_bit c = 0" shows "c = 0"
proof (rule bit_word_eqI)
  have 0: "\<not> bit c 0" using assms crc_bit_top [of c] by simp
  then have d: "drop_bit 1 c = 0" using assms by (simp add: crc_bit_alt)
  fix k assume "k < LENGTH(32)"
  show "bit c k = bit 0 k"
  proof (cases k)
    case (Suc j)
    have "bit (drop_bit 1 c) j = bit c k" by (simp add: bit_drop_bit_eq Suc)
    then show ?thesis using d by simp
  qed (use 0 in simp)
qed

lemma crc_bits_zero: "(crc_bit ^^ n) c = 0 \<Longrightarrow> c = 0"
  by (induction n) (auto dest: crc_bit_zero)

lemma xor_zero_eq: "a XOR b = 0 \<Longrightarrow> a = (b :: 'a::len word)"
  by (rule bit_word_eqI) (metis bit_xor_iff bit_0_eq bot_apply bot_bool_def)

lemma crc_bits_inj: "(crc_bit ^^ n) a = (crc_bit ^^ n) b \<Longrightarrow> a = b"
  using crc_bits_zero [of n "a XOR b"] by (auto simp: crc_bits_xor intro: xor_zero_eq)

text \<open>A value whose low bits are clear is only shifted.\<close>

lemma crc_bits_shift:
  fixes w :: u32
  assumes "\<And>k. 32 - n \<le> k \<Longrightarrow> \<not> bit w k" "n \<le> 32"
  shows "(crc_bit ^^ n) (push_bit n w) = w"
  using assms
proof (induction n)
  case (Suc n)
  have "\<not> bit (push_bit (Suc n) w) 0" by (simp only: bit_push_bit_iff) simp
  then have "crc_bit (push_bit (Suc n) w) = drop_bit 1 (push_bit (Suc n) w)"
    by (simp only: crc_bit_alt if_False)
  also have "\<dots> = push_bit n w"
  proof (rule bit_word_eqI)
    fix k assume k: "k < LENGTH(32)"
    have "\<not> bit w (k - n)" if "\<not> 1 + k < 32"
      using Suc.prems(1) [of "k - n"] that by simp
    then show "bit (drop_bit 1 (push_bit (Suc n) w)) k = bit (push_bit n w) k"
      using k by (simp only: bit_drop_bit_eq o_def bit_push_bit_iff) auto
  qed
  finally show ?case using Suc by (simp del: funpow.simps add: funpow_Suc_right)
qed simp

text \<open>The table holds eight steps of every byte, so one lookup is eight steps of the whole state.\<close>

lemma crc_bits_high:
  assumes "\<And>k. k < 8 \<Longrightarrow> \<not> bit c k"
  shows "(crc_bit ^^ 8) c = drop_bit 8 c"
proof -
  have "c = push_bit 8 (drop_bit 8 c)"
  proof (rule bit_word_eqI)
    fix k assume "k < LENGTH(32)"
    then show "bit c k = bit (push_bit 8 (drop_bit 8 c)) k"
      using assms [of k] by (cases "k < 8") (simp_all add: bit_simps)
  qed
  moreover have "(crc_bit ^^ 8) (push_bit 8 (drop_bit 8 c)) = drop_bit 8 c"
    by (rule crc_bits_shift) (auto simp: bit_simps dest: bit_imp_le_length)
  ultimately show ?thesis by simp
qed

lemma unat_low_byte: "unat (y AND (0xFF :: u32)) < 256"
proof -
  have "y AND 0xFF \<le> 0xFF" by (rule word_and_le1)
  then show ?thesis by (simp add: word_le_nat_alt)
qed

lemma mask_byte: "bit (y AND (0xFF :: u32)) k \<longleftrightarrow> k < 8 \<and> bit y k"
proof -
  have m: "(0xFF :: u32) = mask 8" by (simp add: mask_eq_exp_minus_1)
  show ?thesis unfolding m by (auto simp: bit_and_iff bit_mask_iff dest: bit_imp_le_length)
qed

lemma crc_update_step: "crc_update c x = crc_step c x"
proof -
  define y where "y = c XOR (ucast x :: u32)"
  define lo where "lo = y AND 0xFF"
  define hi where "hi = y XOR lo"
  have y: "y = lo XOR hi" by (simp add: hi_def xor.left_commute [of lo y lo])
  have hi8: "\<not> bit hi k" if "k < 8" for k
    using that by (simp add: hi_def lo_def bit_xor_iff mask_byte)
  have "drop_bit 8 hi = drop_bit 8 c"
    by (rule bit_word_eqI)
      (auto simp: hi_def lo_def y_def bit_simps mask_byte bit_xor_iff dest: bit_imp_le_length)
  then have "(crc_bit ^^ 8) y = (crc_bit ^^ 8) lo XOR drop_bit 8 c"
    using crc_bits_high [OF hi8] by (simp only: y crc_bits_xor)
  moreover have "crc_table ! unat lo = (crc_bit ^^ 8) lo"
    using unat_low_byte [of y] by (simp add: lo_def crc_table_def crc_entry_def)
  ultimately show ?thesis by (simp add: crc_update_def crc_step_def lo_def y_def)
qed

lemma crc_update_fun: "crc_update = crc_step"
  by (intro ext crc_update_step)

text \<open>C18: the table-driven CRC of the code is the bit-serial reflected CRC-32 with polynomial
  EDB88320, initial value and final inversion FFFFFFFF, on every input.\<close>

theorem crc32_is_bitwise: "crc32 xs = crc32_bitwise xs"
  by (simp add: crc32_def crc32_bitwise_def crc_update_fun)

section \<open>Detection of bursts\<close>

text \<open>At most four bytes enter the state as one little-endian number.\<close>

lemma crc_steps_burst:
  "length xs \<le> 4 \<Longrightarrow> foldl crc_step c xs = (crc_bit ^^ (8 * length xs)) (c XOR be_word (rev xs))"
proof (induction xs arbitrary: c)
  case (Cons x xs)
  let ?w = "be_word (rev xs) :: u32"
  have sh: "(crc_bit ^^ 8) (push_bit 8 ?w) = ?w"
    by (rule crc_bits_shift) (use Cons.prems in \<open>auto simp: bit_be_word\<close>)
  have or: "be_word (rev (x # xs)) = push_bit 8 ?w XOR (ucast x :: u32)"
    unfolding rev.simps be_word_snoc
    by (rule bit_word_eqI) (auto simp: bit_simps dest: bit_imp_le_length)
  have "foldl crc_step c (x # xs) = (crc_bit ^^ (8 * length xs)) (crc_step c x XOR ?w)"
    using Cons by simp
  also have "crc_step c x XOR ?w = (crc_bit ^^ 8) (c XOR be_word (rev (x # xs)))"
    unfolding or crc_step_def crc_bits_xor sh by (simp add: ac_simps)
  finally show ?case by (simp add: funpow_add [symmetric, THEN fun_cong, unfolded o_def] add.commute)
qed simp

lemma crc_steps_inj: "foldl crc_step a xs = foldl crc_step b xs \<Longrightarrow> a = b"
proof (induction xs arbitrary: a b)
  case (Cons x xs)
  have "crc_step a x = crc_step b x" using Cons by simp
  then have "a XOR ucast x = b XOR ucast x" unfolding crc_step_def by (rule crc_bits_inj)
  then have "(a XOR ucast x) XOR ucast x = (b XOR ucast x) XOR ucast x" by simp
  then show ?case by (simp add: xor.assoc)
qed simp

text \<open>The checksum detects every burst of up to four corrupted bytes, wherever it falls.\<close>

lemma crc_burst:
  assumes "length es = length fs" "length es \<le> 4" "es \<noteq> fs"
  shows "crc32 (xs @ es @ ys) \<noteq> crc32 (xs @ fs @ ys)"
proof
  define c where "c = foldl crc_step 0xFFFFFFFF xs"
  assume "crc32 (xs @ es @ ys) = crc32 (xs @ fs @ ys)"
  then have "crc32_bitwise (xs @ es @ ys) = crc32_bitwise (xs @ fs @ ys)"
    by (simp add: crc32_def crc32_bitwise_def crc_update_fun)
  then have "(foldl crc_step (foldl crc_step c es) ys XOR 0xFFFFFFFF) XOR 0xFFFFFFFF =
      (foldl crc_step (foldl crc_step c fs) ys XOR 0xFFFFFFFF) XOR 0xFFFFFFFF"
    by (simp add: crc32_bitwise_def c_def)
  then have "foldl crc_step (foldl crc_step c es) ys = foldl crc_step (foldl crc_step c fs) ys"
    by (simp only: xor.assoc xor_self_eq xor.right_neutral)
  then have "foldl crc_step c es = foldl crc_step c fs" by (rule crc_steps_inj)
  then have "(crc_bit ^^ (8 * length fs)) (c XOR be_word (rev es)) =
      (crc_bit ^^ (8 * length fs)) (c XOR be_word (rev fs))"
    using assms by (simp add: crc_steps_burst)
  then have "c XOR be_word (rev es) = c XOR be_word (rev fs)" by (rule crc_bits_inj)
  then have "c XOR (c XOR be_word (rev es)) = c XOR (c XOR be_word (rev fs))" by simp
  then have "(be_word (rev es) :: u32) = be_word (rev fs)" by (simp flip: xor.assoc)
  then show False using be_word_inj [where 'a = 32, of "rev es" "rev fs"] assms by simp
qed

end
