(* ===== verification/Book_Snapshot.thy ===== *)
theory Book_Snapshot
  imports Depth_Book Snapshot_Codec Crc32
begin

text \<open>
  \<^verbatim>\<open>src/sim/book_snapshot.h\<close> and \<^verbatim>\<open>book_snapshot.cpp\<close>: a snapshot of all symbols, its capture from
  the books and its frame with a CRC-32. Offsets are absolute, \<^verbatim>\<open>None\<close> is an access outside the
  bytes.
\<close>

section \<open>Data\<close>

record BookSnapshotSymbol =
  bs_symbol :: Symbol
  bs_bids :: "PriceLevel list"
  bs_asks :: "PriceLevel list"

record BookSnapshot =
  bs_sequence :: u64
  bs_symbols :: "BookSnapshotSymbol list"

definition kSnapshotMagic :: "byte list" where
  "kSnapshotMagic = [0x42, 0x53, 0x4E, 0x31]"

definition kSnapshotMaxLevels :: nat where
  "kSnapshotMaxLevels = 10"

definition no_snapshot :: BookSnapshot where
  "no_snapshot = \<lparr>bs_sequence = 0, bs_symbols = []\<rparr>"

section \<open>Capture\<close>

definition capture_symbol :: "DepthBook \<Rightarrow> Symbol \<Rightarrow> BookSnapshotSymbol option" where
  "capture_symbol d sy =
     (case find_book d sy of
        None \<Rightarrow> None
      | Some sb \<Rightarrow>
          let nb = (if length (top_bids sb) < kSnapshotMaxLevels then length (top_bids sb) else kSnapshotMaxLevels);
              na = (if length (top_asks sb) < kSnapshotMaxLevels then length (top_asks sb) else kSnapshotMaxLevels)
          in Some \<lparr>bs_symbol = sy, bs_bids = take nb (top_bids sb), bs_asks = take na (top_asks sb)\<rparr>)"

text \<open>\<^verbatim>\<open>iter\<close> is the order in which the library enumerates the symbols, as in \<^verbatim>\<open>all_symbols\<close>.\<close>

definition capture_book_snapshot ::
  "((SymbolKey \<rightharpoonup> Symbol) \<Rightarrow> SymbolKey list) \<Rightarrow> DepthBook \<Rightarrow> u64 \<Rightarrow> BookSnapshot" where
  "capture_book_snapshot iter d sequence =
     foldl (\<lambda>snap sy. case capture_symbol d sy of
         None \<Rightarrow> snap
       | Some r \<Rightarrow> snap\<lparr>bs_symbols := bs_symbols snap @ [r]\<rparr>)
       \<lparr>bs_sequence = sequence, bs_symbols = []\<rparr> (all_symbols iter d)"

section \<open>Encoding\<close>

definition bs_put_u8 :: "byte list \<Rightarrow> byte \<Rightarrow> byte list" where
  "bs_put_u8 v x = v @ [x]"

definition bs_put_u32 :: "byte list \<Rightarrow> u32 \<Rightarrow> byte list" where
  "bs_put_u32 v x = v @ [ucast (drop_bit 24 x)] @ [ucast (drop_bit 16 x)] @ [ucast (drop_bit 8 x)] @ [ucast x]"

definition bs_put_u64 :: "byte list \<Rightarrow> u64 \<Rightarrow> byte list" where
  "bs_put_u64 v x = foldl (\<lambda>v i. v @ [ucast (drop_bit (56 - i * 8) x)]) v [0..<8]"

definition bs_put_level :: "byte list \<Rightarrow> PriceLevel \<Rightarrow> byte list" where
  "bs_put_level v l = bs_put_u32 (bs_put_u32 (bs_put_u32 v (price l)) (total_qty l)) (order_count l)"

definition put_symbol_record :: "byte list \<Rightarrow> BookSnapshotSymbol \<Rightarrow> byte list" where
  "put_symbol_record body r =
     (let body = body @ sym_bytes (bs_symbol r);
          body = bs_put_u8 body (of_nat (length (bs_bids r)));
          body = foldl bs_put_level body (bs_bids r);
          body = bs_put_u8 body (of_nat (length (bs_asks r)))
      in foldl bs_put_level body (bs_asks r))"

definition encode_book_snapshot :: "BookSnapshot \<Rightarrow> byte list" where
  "encode_book_snapshot snap =
     (let body = kSnapshotMagic;
          body = bs_put_u64 body (bs_sequence snap);
          body = bs_put_u32 body (of_nat (length (bs_symbols snap)));
          body = foldl put_symbol_record body (bs_symbols snap);
          body = bs_put_u32 body (crc32 body);
          frame = bs_put_u32 [] (of_nat (length body))
      in frame @ body)"

section \<open>Decoding\<close>

definition bs_take_u32 :: "byte list \<Rightarrow> nat \<Rightarrow> u32 option" where
  "bs_take_u32 b p = do {
     b0 \<leftarrow> rd8 b p; b1 \<leftarrow> rd8 b (p + 1); b2 \<leftarrow> rd8 b (p + 2); b3 \<leftarrow> rd8 b (p + 3);
     Some (((push_bit 24 (ucast b0) OR push_bit 16 (ucast b1)) OR push_bit 8 (ucast b2)) OR ucast b3) }"

fun bs_take_u64_loop :: "byte list \<Rightarrow> nat \<Rightarrow> nat \<Rightarrow> u64 \<Rightarrow> u64 option" where
  "bs_take_u64_loop b p 0 v = Some v"
| "bs_take_u64_loop b p (Suc n) v = do {
     x \<leftarrow> rd8 b p;
     bs_take_u64_loop b (p + 1) n (push_bit 8 v OR ucast x) }"

definition bs_take_u64 :: "byte list \<Rightarrow> nat \<Rightarrow> u64 option" where
  "bs_take_u64 b p = bs_take_u64_loop b p 8 0"

fun bs_take_levels :: "byte list \<Rightarrow> nat \<Rightarrow> nat \<Rightarrow> PriceLevel list \<Rightarrow> PriceLevel list option" where
  "bs_take_levels b p 0 acc = Some acc"
| "bs_take_levels b p (Suc n) acc = do {
     pr \<leftarrow> bs_take_u32 b p;
     tq \<leftarrow> bs_take_u32 b (p + 4);
     oc \<leftarrow> bs_take_u32 b (p + 8);
     bs_take_levels b (p + 12) n (acc @ [\<lparr>price = pr, total_qty = tq, order_count = oc\<rparr>]) }"

text \<open>One turn of the loop over the symbols: the record and the next offset, or an early return.\<close>

definition take_symbol_record :: "byte list \<Rightarrow> nat \<Rightarrow> nat \<Rightarrow> (BookSnapshotSymbol \<times> nat) option option" where
  "take_symbol_record b p crc_start =
     (if int crc_start - int p < int kSymbolLen + 1 then Some None
      else do {
        sy \<leftarrow> map_option sym_of_bytes (bslice p kSymbolLen b);
        nb \<leftarrow> rd8 b (p + 8);
        let n = unat nb; p = p + 9 in
        if n > kSnapshotMaxLevels then Some None
        else if int crc_start - int p < int n * 12 + 1 then Some None
        else do {
          bids \<leftarrow> bs_take_levels b p n [];
          let p = p + n * 12 in do {
          na \<leftarrow> rd8 b p;
          let m = unat na; p = p + 1 in
          if m > kSnapshotMaxLevels then Some None
          else if int crc_start - int p < int m * 12 then Some None
          else do {
            asks \<leftarrow> bs_take_levels b p m [];
            Some (Some (\<lparr>bs_symbol = sy, bs_bids = bids, bs_asks = asks\<rparr>, p + m * 12)) } } } })"

text \<open>The loop; the second component is the final offset, or \<^verbatim>\<open>None\<close> after an early return.\<close>

fun take_symbol_records :: "byte list \<Rightarrow> nat \<Rightarrow> nat \<Rightarrow> nat \<Rightarrow> BookSnapshot \<Rightarrow> (BookSnapshot \<times> nat option) option" where
  "take_symbol_records b p crc_start 0 snap = Some (snap, Some p)"
| "take_symbol_records b p crc_start (Suc n) snap = do {
     r \<leftarrow> take_symbol_record b p crc_start;
     case r of
       None \<Rightarrow> Some (snap, None)
     | Some (r, p) \<Rightarrow>
         take_symbol_records b p crc_start n (snap\<lparr>bs_symbols := bs_symbols snap @ [r]\<rparr>) }"

definition decode_book_snapshot :: "byte list \<Rightarrow> (BookSnapshot \<times> bool) option" where
  "decode_book_snapshot b =
     (if length b < 4 then Some (no_snapshot, False)
      else do {
        body_len \<leftarrow> bs_take_u32 b 0;
        let n = unat body_len in
        if length b < 4 + n then Some (no_snapshot, False)
        else if n < 20 then Some (no_snapshot, False)
        else do {
          magic \<leftarrow> bslice 4 4 b;
          if magic \<noteq> kSnapshotMagic then Some (no_snapshot, False)
          else do {
            stored_crc \<leftarrow> bs_take_u32 b (4 + n - 4);
            covered \<leftarrow> bslice 4 (n - 4) b;
            if stored_crc \<noteq> crc32 covered then Some (no_snapshot, False)
            else do {
              sq \<leftarrow> bs_take_u64 b 8;
              cnt \<leftarrow> bs_take_u32 b 16;
              (snap, fin) \<leftarrow> take_symbol_records b 20 (4 + n - 4) (unat cnt)
                (no_snapshot\<lparr>bs_sequence := sq\<rparr>);
              Some (snap, fin = Some (4 + n - 4)) } } } })"

end
