(* ===== verification/Book_Snapshot_Codec.thy ===== *)
theory Book_Snapshot_Codec
  imports Book_Snapshot
begin

text \<open>
  Laws of the book snapshot frames: their layout, the decoder against that layout in both
  directions, memory safety on every input, and the corruption the checksum rejects.
\<close>

section \<open>Layout\<close>

lemma bs_put_alt [codec_simps]:
  "bs_put_u8 v x = v @ [x]" "bs_put_u32 v y = v @ be_bytes 4 y" "bs_put_u64 v z = v @ be_bytes 8 z"
  by (simp_all add: bs_put_u8_def bs_put_u32_def bs_put_u64_def be_bytes_expand upt_8)

lemma bs_put_level_alt [codec_simps]: "bs_put_level v l = v @ level_bytes l"
  by (simp add: bs_put_level_def bs_put_alt level_bytes_def)

lemma bs_put_levels_alt [codec_simps]: "foldl bs_put_level v ls = v @ levels_bytes ls"
  by (induction ls arbitrary: v) (simp_all add: bs_put_level_alt)

definition record_bytes :: "BookSnapshotSymbol \<Rightarrow> byte list" where
  "record_bytes r = sym_bytes (bs_symbol r) @
     [of_nat (length (bs_bids r))] @ levels_bytes (bs_bids r) @
     [of_nat (length (bs_asks r))] @ levels_bytes (bs_asks r)"

definition covered_bytes :: "BookSnapshot \<Rightarrow> byte list" where
  "covered_bytes s = kSnapshotMagic @ be_bytes 8 (bs_sequence s) @
     be_bytes 4 (of_nat (length (bs_symbols s)) :: u32) @ concat (map record_bytes (bs_symbols s))"

definition snapshot_frame :: "byte list \<Rightarrow> byte list" where
  "snapshot_frame cov = be_bytes 4 (of_nat (length cov + 4) :: u32) @ cov @ be_bytes 4 (crc32 cov)"

text \<open>What the format can carry: one-byte level counts up to ten and 32-bit sizes.\<close>

definition record_ok :: "BookSnapshotSymbol \<Rightarrow> bool" where
  "record_ok r \<longleftrightarrow> length (bs_bids r) \<le> kSnapshotMaxLevels \<and> length (bs_asks r) \<le> kSnapshotMaxLevels"

definition snapshot_ok :: "BookSnapshot \<Rightarrow> bool" where
  "snapshot_ok s \<longleftrightarrow> list_all record_ok (bs_symbols s) \<and> length (covered_bytes s) + 4 < 2 ^ 32"

lemma put_symbol_record_alt [codec_simps]: "put_symbol_record v r = v @ record_bytes r"
  by (simp add: put_symbol_record_def codec_simps record_bytes_def)

lemma put_symbol_records_alt [codec_simps]:
  "foldl put_symbol_record v rs = v @ concat (map record_bytes rs)"
  by (induction rs arbitrary: v) (simp_all add: put_symbol_record_alt)

lemma encode_book_snapshot_alt: "encode_book_snapshot s = snapshot_frame (covered_bytes s)"
  by (simp add: encode_book_snapshot_def codec_simps snapshot_frame_def covered_bytes_def)

lemma length_record_bytes [bounds_simps]:
  "length (record_bytes r) = 10 + 12 * length (bs_bids r) + 12 * length (bs_asks r)"
  by (simp add: record_bytes_def)

lemma length_magic [simp]: "length kSnapshotMagic = 4"
  by (simp add: kSnapshotMagic_def)

lemma length_covered_bytes:
  "length (covered_bytes s) = 16 + length (concat (map record_bytes (bs_symbols s)))"
  by (simp add: covered_bytes_def)

lemma symbols_bound: "snapshot_ok s \<Longrightarrow> length (bs_symbols s) < 2 ^ 32"
proof -
  have "length xs \<le> length (concat (map record_bytes xs))" for xs
    by (induction xs) (simp_all add: bounds_simps)
  from this [of "bs_symbols s"] show "snapshot_ok s \<Longrightarrow> length (bs_symbols s) < 2 ^ 32"
    by (simp add: snapshot_ok_def length_covered_bytes)
qed

section \<open>Readers\<close>

lemma bs_take_alt: "bs_take_u32 = take_u32" "bs_take_u64 = take_u64"
proof -
  have "bs_take_u64_loop b p n v = take_u64_loop b p n v" for b p n v
    by (induction n arbitrary: p v) simp_all
  then show "bs_take_u32 = take_u32" "bs_take_u64 = take_u64"
    by (simp_all add: fun_eq_iff bs_take_u32_def take_u32_def bs_take_u64_def take_u64_def)
qed

lemma bs_take_levels_alt: "bs_take_levels b p n acc = take_levels b p n acc"
  by (induction n arbitrary: p acc) (simp_all add: bs_take_alt)

lemma split_thirds: "take 4 x @ take 4 (drop 4 x) @ drop 8 x = x"
proof -
  have "drop 8 x = drop 4 (drop 4 x)" by simp
  then show ?thesis by (simp only: append_take_drop_id)
qed

text \<open>The bytes the level loop has read are the encoding of the levels it returns.\<close>

lemma take_levels_sound:
  "take_levels b p n acc = Some xs \<Longrightarrow>
   \<exists>ls. xs = acc @ ls \<and> length ls = n \<and> (n = 0 \<or> bslice p (12 * n) b = Some (levels_bytes ls))"
proof (induction n arbitrary: p acc)
  case (Suc n)
  then obtain x where x: "bslice p 12 b = Some x"
    and r: "take_levels b (p + 12) n (acc @ [\<lparr>price = be_word (take 4 x),
      total_qty = be_word (take 4 (drop 4 x)), order_count = be_word (take 4 (drop 8 x))\<rparr>]) = Some xs"
    by (auto simp: take_levels_Suc bind_eq_Some_conv simp del: take_levels.simps)
  let ?l = "\<lparr>price = be_word (take 4 x), total_qty = be_word (take 4 (drop 4 x)),
    order_count = be_word (take 4 (drop 8 x))\<rparr>"
  have "length x = 12" using x by (rule bslice_length)
  then have lx: "level_bytes ?l = x" by (simp add: level_bytes_def split_thirds)
  obtain ls where ls: "xs = (acc @ [?l]) @ ls" "length ls = n"
      "n = 0 \<or> bslice (p + 12) (12 * n) b = Some (levels_bytes ls)"
    using Suc.IH [OF r] by blast
  have "bslice p (12 + 12 * n) b = Some (levels_bytes (?l # ls))"
  proof (cases "n = 0")
    case True
    then show ?thesis using ls(2) x lx by simp
  next
    case False
    then show ?thesis using ls bslice_join [OF x, of "12 * n"] lx by simp
  qed
  then show ?case using ls by (intro exI [of _ "?l # ls"]) simp
qed simp

lemma take_levels_iff:
  "take_levels b p n [] = Some ls \<and> 0 < n \<longleftrightarrow>
     length ls = n \<and> 0 < n \<and> bslice p (12 * n) b = Some (levels_bytes ls)"
  using take_levels_sound [of b p n "[]" ls] take_levels_bytes [of p ls b "[]"] by auto

section \<open>One record\<close>

lemma level_count [simp]: "n \<le> kSnapshotMaxLevels \<Longrightarrow> unat (of_nat n :: byte) = n"
  by (simp add: kSnapshotMaxLevels_def unsigned_of_nat take_bit_nat_eq_self)

lemma bslice_levels_bytes_0: "p \<le> length b \<Longrightarrow> bslice p 0 b = Some []"
  by (simp add: bslice_def)

text \<open>What the turn of the loop reads is one encoded record that fits.\<close>

definition record_at :: "byte list \<Rightarrow> nat \<Rightarrow> nat \<Rightarrow> BookSnapshotSymbol \<Rightarrow> nat \<Rightarrow> bool" where
  "record_at b p e r q \<longleftrightarrow> record_ok r \<and> q = p + length (record_bytes r) \<and> q \<le> e \<and>
     bslice p (length (record_bytes r)) b = Some (record_bytes r)"

lemma take_symbol_record_complete:
  assumes r: "record_at b p e r q" and e: "e \<le> length b"
  shows "take_symbol_record b p e = Some (Some (r, q))"
proof -
  let ?n = "length (bs_bids r)" and ?m = "length (bs_asks r)"
  have ok: "?n \<le> kSnapshotMaxLevels" "?m \<le> kSnapshotMaxLevels" and q: "q = p + (10 + 12 * ?n + 12 * ?m)" "q \<le> e"
    using r by (simp_all add: record_at_def record_ok_def length_record_bytes)
  have b: "bslice p (length (record_bytes r)) b = Some (record_bytes r)" using r by (simp add: record_at_def)
  have f: "bslice p 8 b = Some (sym_bytes (bs_symbol r))" "rd8 b (p + 8) = Some (of_nat ?n)"
      "bslice (p + 9) (12 * ?n) b = Some (levels_bytes (bs_bids r))"
      "rd8 b (p + 9 + ?n * 12) = Some (of_nat ?m)"
      "bslice (p + 9 + ?n * 12 + 1) (12 * ?m) b = Some (levels_bytes (bs_asks r))"
    using b unfolding record_bytes_def bslice_append
    by (simp_all add: rd8_bslice ac_simps)
  have t: "bs_take_levels b (p + 9) ?n [] = Some (bs_bids r)"
      "bs_take_levels b (p + 9 + ?n * 12 + 1) ?m [] = Some (bs_asks r)"
    using take_levels_bytes [OF f(3)] take_levels_bytes [OF f(5)] by (simp_all add: bs_take_levels_alt)
  have sy: "bslice p kSymbolLen b = Some (sym_bytes (bs_symbol r))" using f(1) by (simp add: kSymbolLen_def)
  show ?thesis
    unfolding take_symbol_record_def sy option.map f(2,4) bind.bind_lunit Let_def level_count [OF ok(1)]
      level_count [OF ok(2)] t
    using ok q e by (simp add: kSymbolLen_def)
qed

lemma take_symbol_record_cases:
  assumes e: "e \<le> length b" "p \<le> e"
  shows "take_symbol_record b p e = Some None \<or>
    (\<exists>r q. take_symbol_record b p e = Some (Some (r, q)) \<and> record_at b p e r q)"
proof (cases "int e - int p < 9")
  case True
  then show ?thesis by (simp add: take_symbol_record_def kSymbolLen_def)
next
  case False
  then have h: "p + 9 \<le> e" by simp
  obtain s where s: "bslice p kSymbolLen b = Some (sym_bytes s)"
    using h e sym_bytes_sym_of_bytes [of "take 8 (drop p b)"]
    by (intro that [of "sym_of_bytes (take 8 (drop p b))"]) (simp add: bslice_def kSymbolLen_def)
  obtain nb where nb: "rd8 b (p + 8) = Some nb" using h e by (simp add: rd8_def)
  define n where "n = unat nb"
  note out = take_symbol_record_def s option.map sym_of_bytes_sym_bytes nb bind.bind_lunit Let_def n_def [symmetric]
  show ?thesis
  proof (cases "n \<le> kSnapshotMaxLevels \<and> int n * 12 + 1 \<le> int e - int (p + 9)")
    case False
    then show ?thesis using h unfolding out by (auto simp: kSymbolLen_def)
  next
    case fits: True
    then have p2: "p + 9 + 12 * n + 1 \<le> e" by linarith
    then obtain bids where bids: "bs_take_levels b (p + 9) n [] = Some bids"
      using take_levels_safe [of "p + 9" n b "[]"] e by (auto simp: bs_take_levels_alt)
    obtain na where na: "rd8 b (p + 9 + n * 12) = Some na" using p2 e by (simp add: rd8_def)
    define m where "m = unat na"
    note out = out bids na m_def [symmetric]
    show ?thesis
    proof (cases "m \<le> kSnapshotMaxLevels \<and> int m * 12 \<le> int e - int (p + 9 + n * 12 + 1)")
      case False
      then show ?thesis using h fits unfolding out by (auto simp: kSymbolLen_def)
    next
      case fits2: True
      then have p3: "p + 9 + n * 12 + 1 + 12 * m \<le> e" by linarith
      then obtain asks where asks: "bs_take_levels b (p + 9 + n * 12 + 1) m [] = Some asks"
        using take_levels_safe [of "p + 9 + n * 12 + 1" m b "[]"] e by (auto simp: bs_take_levels_alt)
      define r where "r = \<lparr>bs_symbol = s, bs_bids = bids, bs_asks = asks\<rparr>"
      have res: "take_symbol_record b p e = Some (Some (r, p + 9 + n * 12 + 1 + m * 12))"
        using h fits fits2 unfolding out asks r_def by (simp add: kSymbolLen_def)
      have len: "length bids = n" "length asks = m"
        using bids asks take_levels_length by (fastforce simp: bs_take_levels_alt)+
      have lb: "bslice (p + 9) (12 * n) b = Some (levels_bytes bids)"
        using take_levels_sound [OF bids [unfolded bs_take_levels_alt]] p2 e
        by (cases "n = 0") (auto simp: bslice_levels_bytes_0)
      have la: "bslice (p + 9 + n * 12 + 1) (12 * m) b = Some (levels_bytes asks)"
        using take_levels_sound [OF asks [unfolded bs_take_levels_alt]] p3 e
        by (cases "m = 0") (auto simp: bslice_levels_bytes_0)
      have c: "nb = of_nat n" "na = of_nat m" by (simp_all add: n_def m_def)
      have "bslice p (length (record_bytes r)) b = Some (record_bytes r)"
        unfolding record_bytes_def bslice_append
        using s nb na lb la by (simp add: r_def len c rd8_bslice kSymbolLen_def ac_simps)
      then have "record_at b p e r (p + 9 + n * 12 + 1 + m * 12)"
        using p3 fits fits2 by (simp add: record_at_def record_ok_def r_def len length_record_bytes)
      then show ?thesis using res by blast
    qed
  qed
qed

section \<open>All records\<close>

abbreviation add_records :: "BookSnapshot \<Rightarrow> BookSnapshotSymbol list \<Rightarrow> BookSnapshot" where
  "add_records s rs \<equiv> s\<lparr>bs_symbols := bs_symbols s @ rs\<rparr>"

definition records_at :: "byte list \<Rightarrow> nat \<Rightarrow> nat \<Rightarrow> BookSnapshotSymbol list \<Rightarrow> nat \<Rightarrow> bool" where
  "records_at b p e rs q \<longleftrightarrow> list_all record_ok rs \<and> q = p + length (concat (map record_bytes rs)) \<and> q \<le> e \<and>
     bslice p (length (concat (map record_bytes rs))) b = Some (concat (map record_bytes rs))"

lemma records_at_Nil [simp]: "e \<le> length b \<Longrightarrow> records_at b p e [] q \<longleftrightarrow> q = p \<and> p \<le> e"
  by (auto simp: records_at_def bslice_def)

lemma records_at_Cons:
  "records_at b p e (r # rs) q \<longleftrightarrow> (\<exists>m. record_at b p e r m \<and> records_at b m e rs q)"
  unfolding records_at_def record_at_def list.map concat.simps bslice_append by auto

lemma take_symbol_records_complete:
  "e \<le> length b \<Longrightarrow> records_at b p e rs q \<Longrightarrow>
   take_symbol_records b p e (length rs) s = Some (add_records s rs, Some q)"
proof (induction rs arbitrary: p s)
  case (Cons r rs)
  then obtain m where m: "record_at b p e r m" "records_at b m e rs q" by (auto simp: records_at_Cons)
  show ?case
    using take_symbol_record_complete [OF m(1) Cons.prems(1)] Cons.IH [OF Cons.prems(1) m(2)] by simp
qed simp

lemma take_symbol_records_cases:
  "p \<le> e \<Longrightarrow> e \<le> length b \<Longrightarrow>
   \<exists>s' fin. take_symbol_records b p e n s = Some (s', fin) \<and>
     (\<forall>q. fin = Some q \<longrightarrow> (\<exists>rs. s' = add_records s rs \<and> length rs = n \<and> records_at b p e rs q))"
proof (induction n arbitrary: p s)
  case (Suc n)
  consider "take_symbol_record b p e = Some None"
    | r m where "take_symbol_record b p e = Some (Some (r, m))" "record_at b p e r m"
    using take_symbol_record_cases [OF Suc.prems(2,1)] by blast
  then show ?case
  proof cases
    case 1
    then show ?thesis by simp
  next
    case 2
    then have "m \<le> e" by (simp add: record_at_def)
    from Suc.IH [OF this Suc.prems(2), of "add_records s [r]"] obtain s' fin where
      ih: "take_symbol_records b m e n (add_records s [r]) = Some (s', fin)"
        "\<forall>q. fin = Some q \<longrightarrow> (\<exists>rs. s' = add_records (add_records s [r]) rs \<and> length rs = n \<and> records_at b m e rs q)"
      by blast
    have "\<exists>rs. s' = add_records s rs \<and> length rs = Suc n \<and> records_at b p e rs q" if q: "fin = Some q" for q
    proof -
      obtain rs where rs: "s' = add_records (add_records s [r]) rs" "length rs = n" "records_at b m e rs q"
        using ih(2) q by blast
      then show ?thesis using 2 by (intro exI [of _ "r # rs"]) (auto simp: records_at_Cons)
    qed
    then show ?thesis using 2 ih(1) by simp
  qed
qed simp

section \<open>The frame\<close>

text \<open>The part of the decoder behind the length check, once the header fields are known.\<close>

lemma decode_frame_fields:
  assumes "length covd + 4 < 2 ^ 32" "length crcb = 4"
  shows "decode_book_snapshot (be_bytes 4 (of_nat (length covd + 4) :: u32) @ covd @ crcb @ rest) =
    (if length covd < 16 \<or> take 4 covd \<noteq> kSnapshotMagic \<or> (be_word crcb :: u32) \<noteq> crc32 covd then Some (no_snapshot, False)
     else do {
       (s, fin) \<leftarrow> take_symbol_records (be_bytes 4 (of_nat (length covd + 4) :: u32) @ covd @ crcb @ rest)
          20 (4 + length covd) (unat (be_word (take 4 (drop 12 covd)) :: u32))
          (no_snapshot\<lparr>bs_sequence := be_word (take 8 (drop 4 covd))\<rparr>);
       Some (s, fin = Some (4 + length covd)) })"
proof -
  let ?b = "be_bytes 4 (of_nat (length covd + 4) :: u32) @ covd @ crcb @ rest"
  have len: "bs_take_u32 ?b 0 = Some (of_nat (length covd + 4))"
    by (simp add: bs_take_alt take_read read_u32_Some bslice_def)
  have n: "unat (of_nat (length covd + 4) :: u32) = length covd + 4"
    using assms(1) by (simp only: unat_of_nat_small)
  have crc: "bs_take_u32 ?b (4 + length covd) = Some (be_word crcb)"
    using assms(2) by (simp add: bs_take_alt take_read read_u32_bslice bslice_def)
  have cov: "bslice 4 (length covd + 4 - 4) ?b = Some covd"
    by (simp add: bslice_def)
  have magic: "bslice 4 4 ?b = Some (take 4 covd)" if "\<not> length covd < 16"
    using that by (simp add: bslice_def)
  have sq: "bs_take_u64 ?b 8 = Some (be_word (take 8 (drop 4 covd)))" if "\<not> length covd < 16"
    using that by (simp add: bs_take_alt take_read read_u64_bslice bslice_def)
  have cnt: "bs_take_u32 ?b 16 = Some (be_word (take 4 (drop 12 covd)))" if "\<not> length covd < 16"
    using that by (simp add: bs_take_alt take_read read_u32_bslice bslice_def)
  have pre: "\<not> length ?b < 4" "\<not> length ?b < 4 + (length covd + 4)" using assms(2) by simp_all
  have e: "4 + (length covd + 4) - 4 = 4 + length covd" by simp
  show ?thesis
  proof (cases "length covd < 16")
    case True
    then show ?thesis using pre unfolding decode_book_snapshot_def len bind.bind_lunit Let_def n by simp
  next
    case False
    have "\<not> length covd + 4 < 20" using False by simp
    then show ?thesis
      using pre False unfolding decode_book_snapshot_def len bind.bind_lunit Let_def n magic [OF False]
        sq [OF False] cnt [OF False] crc cov e
      by simp
  qed
qed

lemma kSnapshotMagic_bytes: "take 4 (covered_bytes s) = kSnapshotMagic"
  by (simp add: covered_bytes_def)

lemma covered_fields:
  "be_word (take 8 (drop 4 (covered_bytes s))) = bs_sequence s"
  "be_word (take 4 (drop 12 (covered_bytes s))) = (of_nat (length (bs_symbols s)) :: u32)"
  by (simp_all add: covered_bytes_def)

text \<open>An encoded snapshot decodes to itself, whatever follows it.\<close>

lemma decode_encoded:
  assumes ok: "snapshot_ok s"
  shows "decode_book_snapshot (encode_book_snapshot s @ rest) = Some (s, True)"
proof -
  let ?c = "covered_bytes s" and ?rs = "bs_symbols s"
  let ?b = "be_bytes 4 (of_nat (length ?c + 4) :: u32) @ ?c @ be_bytes 4 (crc32 ?c) @ rest"
  have b: "encode_book_snapshot s @ rest = ?b" by (simp add: encode_book_snapshot_alt snapshot_frame_def)
  have small: "length ?c + 4 < 2 ^ 32" and recs: "list_all record_ok ?rs" using ok by (simp_all add: snapshot_ok_def)
  have n: "unat (of_nat (length ?rs) :: u32) = length ?rs"
    using symbols_bound [OF ok] by (simp only: unat_of_nat_small)
  have at: "records_at ?b 20 (4 + length ?c) ?rs (4 + length ?c)"
    using recs by (simp add: records_at_def length_covered_bytes) (simp add: covered_bytes_def bslice_def)
  have "take_symbol_records ?b 20 (4 + length ?c) (length ?rs) (no_snapshot\<lparr>bs_sequence := bs_sequence s\<rparr>) =
      Some (s, Some (4 + length ?c))"
    by (subst take_symbol_records_complete [OF _ at]) (simp_all add: no_snapshot_def)
  then show ?thesis
    unfolding b decode_frame_fields [OF small length_be_bytes] covered_fields kSnapshotMagic_bytes n
    by (simp add: length_covered_bytes)
qed

text \<open>An accepted input is an encoded snapshot followed by the rest of the bytes.\<close>

lemma decode_split:
  assumes "4 \<le> length b" and n: "n = unat (be_word (take 4 b) :: u32)" and "4 + n \<le> length b" "20 \<le> n"
  obtains covd crcb rest where "b = be_bytes 4 (of_nat (length covd + 4) :: u32) @ covd @ crcb @ rest"
    "length crcb = 4" "length covd + 4 = n" "n < 2 ^ 32"
proof
  let ?covd = "take (n - 4) (drop 4 b)" and ?crcb = "take 4 (drop n b)"
  have l: "length ?covd = n - 4" using assms by simp
  have w: "of_nat (length ?covd + 4) = (be_word (take 4 b) :: u32)"
    using assms(4) l by (simp add: n flip: of_nat_add)
  have "be_bytes 4 (of_nat (length ?covd + 4) :: u32) = take 4 b"
    unfolding w using assms(1) by simp
  moreover have "drop 4 b = ?covd @ drop n b"
    using append_take_drop_id [of "n - 4" "drop 4 b"] assms(4) by simp
  moreover have "drop n b = ?crcb @ drop (n + 4) b"
    using append_take_drop_id [of 4 "drop n b"] by (simp add: add.commute)
  ultimately show "b = be_bytes 4 (of_nat (length ?covd + 4) :: u32) @ ?covd @ ?crcb @ drop (n + 4) b"
    by (metis append_take_drop_id)
  show "length ?crcb = 4" "length ?covd + 4 = n" using assms l by simp_all
  show "n < 2 ^ 32" unfolding n using unsigned_less [of "be_word (take 4 b) :: u32"] by simp
qed

lemma decode_short:
  assumes "length b < 4 \<or> length b < 4 + unat (be_word (take 4 b) :: u32) \<or> unat (be_word (take 4 b) :: u32) < 20"
  shows "decode_book_snapshot b = Some (no_snapshot, False)"
proof (cases "length b < 4")
  case False
  then have "bs_take_u32 b 0 = Some (be_word (take 4 b))"
    by (simp add: bs_take_alt take_read read_u32_bslice bslice_def)
  then show ?thesis using assms False by (auto simp: decode_book_snapshot_def Let_def)
qed (simp add: decode_book_snapshot_def)

lemma take_drop_join: "take n (drop m xs) @ drop (m + n) xs = drop m xs"
  by (metis append_take_drop_id drop_drop add.commute)

lemma covered_of_records:
  assumes l: "16 \<le> length covd" and magic: "take 4 covd = kSnapshotMagic"
    and n: "length rs = unat (be_word (take 4 (drop 12 covd)) :: u32)"
    and at: "records_at (be_bytes 4 (w :: u32) @ covd @ crcb @ rest) 20 (4 + length covd) rs (4 + length covd)"
  shows "covered_bytes (add_records (no_snapshot\<lparr>bs_sequence := be_word (take 8 (drop 4 covd))\<rparr>) rs) = covd"
proof -
  have rs: "concat (map record_bytes rs) = drop 16 covd"
    using at by (auto simp: records_at_def bslice_def)
  have seq: "be_bytes 8 (be_word (take 8 (drop 4 covd)) :: u64) = take 8 (drop 4 covd)" using l by simp
  have cnt: "be_bytes 4 (be_word (take 4 (drop 12 covd)) :: u32) = take 4 (drop 12 covd)" using l by simp
  have "take 4 covd @ take 8 (drop 4 covd) @ take 4 (drop 12 covd) @ drop 16 covd = covd"
    using take_drop_join [of 4 12 covd] take_drop_join [of 8 4 covd] by simp
  then show ?thesis by (simp add: covered_bytes_def no_snapshot_def rs seq cnt magic n)
qed

lemma decode_result:
  obtains s ok where "decode_book_snapshot b = Some (s, ok)"
    "ok \<Longrightarrow> snapshot_ok s \<and> (\<exists>rest. b = encode_book_snapshot s @ rest)"
proof (cases "length b < 4 \<or> length b < 4 + unat (be_word (take 4 b) :: u32) \<or> unat (be_word (take 4 b) :: u32) < 20")
  case True
  then show ?thesis using decode_short that by blast
next
  case False
  define n where "n = unat (be_word (take 4 b) :: u32)"
  have h: "4 \<le> length b" "4 + n \<le> length b" "20 \<le> n" using False by (simp_all add: n_def)
  obtain covd crcb rest where b: "b = be_bytes 4 (of_nat (length covd + 4) :: u32) @ covd @ crcb @ rest"
    and n: "length crcb = 4" "length covd + 4 = n" "n < 2 ^ 32"
    by (rule decode_split [OF h(1) n_def h(2,3)])
  have l: "length crcb = 4" "length covd + 4 < 2 ^ 32" "16 \<le> length covd" using n h by simp_all
  note fields = decode_frame_fields [OF l(2,1), of rest, folded b]
  show ?thesis
  proof (cases "take 4 covd \<noteq> kSnapshotMagic \<or> (be_word crcb :: u32) \<noteq> crc32 covd")
    case True
    then have "decode_book_snapshot b = Some (no_snapshot, False)" by (simp add: fields)
    then show ?thesis using that by blast
  next
    case False
    let ?s0 = "no_snapshot\<lparr>bs_sequence := be_word (take 8 (drop 4 covd))\<rparr>"
    let ?n = "unat (be_word (take 4 (drop 12 covd)) :: u32)"
    obtain s fin where run: "take_symbol_records b 20 (4 + length covd) ?n ?s0 = Some (s, fin)"
      and snd: "\<And>q. fin = Some q \<Longrightarrow> \<exists>rs. s = add_records ?s0 rs \<and> length rs = ?n \<and>
          records_at b 20 (4 + length covd) rs q"
      using take_symbol_records_cases [of 20 "4 + length covd" b ?n ?s0] l(3) unfolding b by auto
    have dec: "decode_book_snapshot b = Some (s, fin = Some (4 + length covd))"
      using False l(3) by (simp add: fields run)
    have "snapshot_ok s \<and> (\<exists>rest. b = encode_book_snapshot s @ rest)" if "fin = Some (4 + length covd)"
    proof -
      obtain rs where rs: "s = add_records ?s0 rs" "length rs = ?n"
          "records_at b 20 (4 + length covd) rs (4 + length covd)" using snd \<open>fin = _\<close> by blast
      have cov: "covered_bytes s = covd"
        unfolding rs(1) using covered_of_records [OF l(3) _ rs(2)] rs(3) False unfolding b by blast
      have "be_bytes 4 (be_word crcb :: u32) = crcb" using l(1) by simp
      then have crc: "crcb = be_bytes 4 (crc32 covd)" using False by simp
      have "snapshot_ok s" using rs l(2) cov by (simp add: snapshot_ok_def records_at_def no_snapshot_def)
      moreover have "b = encode_book_snapshot s @ rest"
        unfolding encode_book_snapshot_alt cov snapshot_frame_def by (subst b) (simp add: crc)
      ultimately show ?thesis by blast
    qed
    then show ?thesis using that dec by blast
  qed
qed

section \<open>Corruption\<close>

lemma decode_bad_crc:
  assumes "length covd + 4 < 2 ^ 32" "length crcb = 4" "(be_word crcb :: u32) \<noteq> crc32 covd"
  shows "decode_book_snapshot (be_bytes 4 (of_nat (length covd + 4) :: u32) @ covd @ crcb @ rest) =
    Some (no_snapshot, False)"
  unfolding decode_frame_fields [OF assms(1,2)] using assms(3) by simp

text \<open>A burst in the covered bytes, or one in the stored checksum.\<close>

lemma burst_in_covered:
  assumes "covd = xs @ es @ ys" "length es = length fs" "length es \<le> 4" "es \<noteq> fs" "length covd + 4 < 2 ^ 32"
  shows "decode_book_snapshot (be_bytes 4 (of_nat (length covd + 4) :: u32) @ (xs @ fs @ ys) @ be_bytes 4 (crc32 covd) @ rest) =
    Some (no_snapshot, False)"
proof -
  have "length covd = length (xs @ fs @ ys)" using assms(1,2) by simp
  then show ?thesis
    using crc_burst [OF assms(2-4), of xs ys] assms(1,5)
    by (simp only: decode_bad_crc length_be_bytes be_word_be_bytes_std not_False_eq_True)
qed

lemma burst_in_crc:
  assumes "be_bytes 4 (crc32 covd) = xs @ es @ ys" "length es = length fs" "es \<noteq> fs" "length covd + 4 < 2 ^ 32"
  shows "decode_book_snapshot (be_bytes 4 (of_nat (length covd + 4) :: u32) @ covd @ (xs @ fs @ ys) @ rest) =
    Some (no_snapshot, False)"
proof -
  have l: "length (xs @ fs @ ys) = 4" using arg_cong [OF assms(1), of length] assms(2) by simp
  have "(be_word (xs @ fs @ ys) :: u32) \<noteq> crc32 covd"
  proof
    assume "be_word (xs @ fs @ ys) = crc32 covd"
    then have "xs @ fs @ ys = xs @ es @ ys"
      using be_bytes_be_word_std(2) [OF l] assms(1) by simp
    then show False using assms(3) by simp
  qed
  then show ?thesis using decode_bad_crc [OF assms(4) l] by simp
qed

section \<open>Properties\<close>

text \<open>C13: the snapshot decoder accepts exactly the encodings: it reports success with a snapshot when, and
  only when, the bytes start with the encoding of that snapshot, whatever follows.\<close>

theorem snapshot_decoder_exact:
  "decode_book_snapshot b = Some (s, True) \<longleftrightarrow>
     snapshot_ok s \<and> (\<exists>rest. b = encode_book_snapshot s @ rest)"
proof
  assume d: "decode_book_snapshot b = Some (s, True)"
  obtain s' k where "decode_book_snapshot b = Some (s', k)"
      "k \<Longrightarrow> snapshot_ok s' \<and> (\<exists>rest. b = encode_book_snapshot s' @ rest)"
    by (rule decode_result [of b]) blast
  then show "snapshot_ok s \<and> (\<exists>rest. b = encode_book_snapshot s @ rest)" using d by simp
qed (auto simp: decode_encoded)

text \<open>No bytes make the snapshot decoder read outside them, and it always returns.\<close>

theorem snapshot_decoder_safe: "decode_book_snapshot b \<noteq> None"
  by (rule decode_result [of b]) simp

text \<open>C16: a frame of a snapshot in which up to four consecutive bytes of the body or of the checksum have
  been altered is rejected, wherever the alteration is.\<close>

theorem snapshot_corruption_rejected:
  assumes ok: "snapshot_ok s" and frame: "encode_book_snapshot s = xs @ es @ ys"
    and burst: "length es = length fs" "length es \<le> 4" "es \<noteq> fs"
    and place: "4 \<le> length xs" "4 \<le> length ys \<or> length es + length ys \<le> 4"
  shows "decode_book_snapshot (xs @ fs @ ys @ rest) = Some (no_snapshot, False)"
proof -
  let ?c = "covered_bytes s" and ?pre = "be_bytes 4 (of_nat (length (covered_bytes s) + 4) :: u32)"
  have small: "length ?c + 4 < 2 ^ 32" using ok by (simp add: snapshot_ok_def)
  have f: "?pre @ ?c @ be_bytes 4 (crc32 ?c) = xs @ es @ ys"
    using frame by (simp add: encode_book_snapshot_alt snapshot_frame_def)
  define us where "us = drop 4 xs"
  have pre: "xs = ?pre @ us"
    using arg_cong [OF f, of "take 4"] place(1) by (simp add: us_def)
  then have body: "?c @ be_bytes 4 (crc32 ?c) = us @ es @ ys" using f by simp
  show ?thesis
  proof (cases "4 \<le> length ys")
    case True
    define vs where "vs = take (length ys - 4) ys"
    have "drop (length ys - 4) ys = be_bytes 4 (crc32 ?c)"
      using arg_cong [OF body, of "\<lambda>zs. drop (length zs - 4) zs"] True by simp
    then have ys: "ys = vs @ be_bytes 4 (crc32 ?c)" by (metis append_take_drop_id vs_def)
    then have "?c = us @ es @ vs" using body by simp
    from burst_in_covered [OF this burst small] show ?thesis unfolding pre ys by simp
  next
    case False
    then have "length es + length ys \<le> 4" using place(2) by simp
    then have "take (length ?c) us = ?c"
      using arg_cong [OF body, of "take (length ?c)"] arg_cong [OF body, of length] by simp
    then have us: "us = ?c @ drop (length ?c) us" by (metis append_take_drop_id)
    define vs where "vs = drop (length ?c) us"
    have "be_bytes 4 (crc32 ?c) = vs @ es @ ys" using body us unfolding vs_def by (metis append.assoc same_append_eq)
    from burst_in_crc [OF this burst(1,3) small] show ?thesis
      unfolding pre using us vs_def by (metis append.assoc)
  qed
qed

definition flipped_magic :: "byte list" where
  "flipped_magic = be_bytes 4 (20 :: u32) @ [0x43] @
     [0x53, 0x4E, 0x31] @ replicate 12 0 @ be_bytes 4 (crc32 (covered_bytes no_snapshot))"

theorem snapshot_corruption_rejected_witness:
  "decode_book_snapshot flipped_magic = Some (no_snapshot, False)"
proof -
  let ?xs = "be_bytes 4 (20 :: u32)"
  let ?ys = "[0x53, 0x4E, 0x31] @ replicate 12 0 @ be_bytes 4 (crc32 (covered_bytes no_snapshot))"
  have z: "be_bytes 8 (0 :: u64) = replicate 8 0" "be_bytes 4 (0 :: u32) = replicate 4 0"
    by (simp_all add: be_bytes_def map_replicate_const)
  have cov: "covered_bytes no_snapshot = [0x42, 0x53, 0x4E, 0x31] @ replicate 12 0"
    by (simp add: covered_bytes_def no_snapshot_def kSnapshotMagic_def z flip: replicate_add)
  have ok: "snapshot_ok no_snapshot" by (simp add: snapshot_ok_def cov) (simp add: no_snapshot_def)
  have f: "encode_book_snapshot no_snapshot = ?xs @ [0x42] @ ?ys"
    by (simp add: encode_book_snapshot_alt snapshot_frame_def cov)
  show ?thesis
    using snapshot_corruption_rejected [OF ok f, where fs = "[0x43]" and rest = "[]"]
    by (simp add: flipped_magic_def)
qed

end
