(* ===== verification/Tcp_Framing.thy ===== *)
theory Tcp_Framing
  imports Snapshot_Codec
begin

text \<open>
  \<^verbatim>\<open>tcp_send_all\<close> and \<^verbatim>\<open>tcp_recv_frame\<close> of \<^verbatim>\<open>src/net/tcp_recovery.cpp\<close>: whole buffers over a stream
  socket. The system calls \<^verbatim>\<open>send\<close> and \<^verbatim>\<open>recv\<close> are parameters over a connection state \<^verbatim>\<open>'c\<close>; a
  loop may be interrupted for ever, so the loops are partial functions and \<^verbatim>\<open>None\<close> is a call that
  never returns.
\<close>

section \<open>System calls\<close>

datatype Errno = EINTR | EAGAIN | EWOULDBLOCK | EINPROGRESS | EBADF | EOTHER

text \<open>The bytes received (none at the end of the stream), or a negative return and its \<^verbatim>\<open>errno\<close>.\<close>

datatype recv_result = Received "byte list" | RecvError Errno

datatype send_result = Accepted nat | SendError Errno

type_synonym 'c recv = "'c \<Rightarrow> nat \<Rightarrow> recv_result \<times> 'c"
type_synonym 'c send = "'c \<Rightarrow> byte list \<Rightarrow> send_result \<times> 'c"

section \<open>Receiving\<close>

text \<open>The loop that fills a buffer up to \<^verbatim>\<open>n\<close> bytes; the result \<^verbatim>\<open>None\<close> is the return of false.\<close>

partial_function (option) recv_fill ::
  "'c recv \<Rightarrow> nat \<Rightarrow> byte list \<Rightarrow> 'c \<Rightarrow> (byte list option \<times> 'c) option" where
  "recv_fill recv n buf c =
     (if length buf < n
      then (let (r, c') = recv c (n - length buf) in
            case r of
              Received xs \<Rightarrow> if xs = [] then Some (None, c') else recv_fill recv n (buf @ xs) c'
            | RecvError e \<Rightarrow> if e = EINTR then recv_fill recv n buf c' else Some (None, c'))
      else Some (Some buf, c))"

definition kMaxFrame :: nat where
  "kMaxFrame = 16 * 1024 * 1024"

definition frame_length :: "byte list \<Rightarrow> u32" where
  "frame_length hdr =
     ((push_bit 24 (ucast (hdr ! 0)) OR push_bit 16 (ucast (hdr ! 1))) OR push_bit 8 (ucast (hdr ! 2)))
       OR ucast (hdr ! 3)"

definition tcp_recv_frame :: "'c recv \<Rightarrow> 'c \<Rightarrow> (byte list option \<times> 'c) option" where
  "tcp_recv_frame recv c = do {
     (h, c) \<leftarrow> recv_fill recv 4 [] c;
     case h of
       None \<Rightarrow> Some (None, c)
     | Some hdr \<Rightarrow>
         let len = unat (frame_length hdr) in
         if len = 0 \<or> len > kMaxFrame then Some (None, c)
         else recv_fill recv (4 + len) hdr c }"

section \<open>Sending\<close>

partial_function (option) tcp_send_all ::
  "'c send \<Rightarrow> byte list \<Rightarrow> 'c \<Rightarrow> (bool \<times> 'c) option" where
  "tcp_send_all send data c =
     (if data \<noteq> []
      then (let (r, c') = send c data in
            case r of
              SendError e \<Rightarrow> if e = EINTR then tcp_send_all send data c' else Some (False, c')
            | Accepted n \<Rightarrow> if n = 0 then Some (False, c') else tcp_send_all send (drop n data) c')
      else Some (True, c))"

section \<open>What the system documents\<close>

text \<open>
  \<^verbatim>\<open>recv\<close> returns at most the bytes asked for, in the order of the stream \<^verbatim>\<open>pending\<close>, and takes
  nothing from it otherwise.
\<close>

definition recv_ok :: "'c recv \<Rightarrow> ('c \<Rightarrow> byte list) \<Rightarrow> bool" where
  "recv_ok recv pending \<longleftrightarrow>
     (\<forall>c n xs c'. recv c n = (Received xs, c') \<longrightarrow> length xs \<le> n \<and> pending c = xs @ pending c') \<and>
     (\<forall>c n e c'. recv c n = (RecvError e, c') \<longrightarrow> pending c' = pending c)"

text \<open>
  A live peer: while bytes are pending a call returns some of them, unless it is interrupted, and
  \<^verbatim>\<open>stalls\<close> bounds the interruptions in a row.
\<close>

definition recv_live :: "'c recv \<Rightarrow> ('c \<Rightarrow> byte list) \<Rightarrow> ('c \<Rightarrow> nat) \<Rightarrow> bool" where
  "recv_live recv pending stalls \<longleftrightarrow> (\<forall>c n. 0 < n \<longrightarrow> pending c \<noteq> [] \<longrightarrow>
     (\<forall>xs c'. recv c n = (Received xs, c') \<longrightarrow> xs \<noteq> []) \<and>
     (\<forall>e c'. recv c n = (RecvError e, c') \<longrightarrow> e = EINTR \<and> stalls c' < stalls c))"

text \<open>\<^verbatim>\<open>send\<close> takes a prefix of the data, appends it to the stream \<^verbatim>\<open>sent\<close>, or takes nothing.\<close>

definition send_ok :: "'c send \<Rightarrow> ('c \<Rightarrow> byte list) \<Rightarrow> bool" where
  "send_ok send sent \<longleftrightarrow>
     (\<forall>c d n c'. send c d = (Accepted n, c') \<longrightarrow> n \<le> length d \<and> sent c' = sent c @ take n d) \<and>
     (\<forall>c d e c'. send c d = (SendError e, c') \<longrightarrow> sent c' = sent c)"

definition send_stalls :: "'c send \<Rightarrow> ('c \<Rightarrow> nat) \<Rightarrow> bool" where
  "send_stalls send stalls \<longleftrightarrow>
     (\<forall>c d c'. send c d = (SendError EINTR, c') \<longrightarrow> stalls c' < stalls c)"

lemma recv_okD:
  assumes "recv_ok recv pending"
  shows "recv c n = (Received xs, c') \<Longrightarrow> length xs \<le> n \<and> pending c = xs @ pending c'"
    and "recv c n = (RecvError e, c') \<Longrightarrow> pending c' = pending c"
  using assms unfolding recv_ok_def by blast+

lemma recv_liveD:
  assumes "recv_live recv pending stalls" "0 < n" "pending c \<noteq> []"
  shows "recv c n = (Received xs, c') \<Longrightarrow> xs \<noteq> []"
    and "recv c n = (RecvError e, c') \<Longrightarrow> e = EINTR \<and> stalls c' < stalls c"
  using assms unfolding recv_live_def by blast+

lemma send_okD:
  assumes "send_ok send sent"
  shows "send c d = (Accepted n, c') \<Longrightarrow> n \<le> length d \<and> sent c' = sent c @ take n d"
    and "send c d = (SendError e, c') \<Longrightarrow> sent c' = sent c"
  using assms unfolding send_ok_def by blast+

text \<open>The two directions of one connection: a call on a part \<^verbatim>\<open>g c\<close> of the state, put back by \<^verbatim>\<open>u\<close>.\<close>

definition on_part :: "('c \<Rightarrow> 'd) \<Rightarrow> ('c \<Rightarrow> 'd \<Rightarrow> 'c) \<Rightarrow> ('d \<Rightarrow> 'x \<Rightarrow> 'r \<times> 'd) \<Rightarrow> 'c \<Rightarrow> 'x \<Rightarrow> 'r \<times> 'c" where
  "on_part g u call c x = (let (r, d) = call (g c) x in (r, u c d))"

lemma on_part_call:
  "on_part g u call c x = (r, c') \<longleftrightarrow> (\<exists>d. call (g c) x = (r, d) \<and> c' = u c d)"
  by (auto simp: on_part_def split: prod.split)

lemma on_part_ok:
  assumes "\<And>c d. g (u c d) = d"
  shows "recv_ok recv pending \<Longrightarrow> recv_ok (on_part g u recv) (pending \<circ> g)"
    and "recv_live recv pending stalls \<Longrightarrow> recv_live (on_part g u recv) (pending \<circ> g) (stalls \<circ> g)"
    and "send_ok send sent \<Longrightarrow> send_ok (on_part g u send) (sent \<circ> g)"
    and "send_stalls send stalls \<Longrightarrow> send_stalls (on_part g u send) (stalls \<circ> g)"
  unfolding recv_ok_def recv_live_def send_ok_def send_stalls_def on_part_call o_def
  by (metis assms)+

section \<open>The receive loop\<close>

lemma recv_fill_full: "n \<le> length buf \<Longrightarrow> recv_fill recv n buf c = Some (Some buf, c)"
  by (subst recv_fill.simps) simp

lemma recv_fill_step:
  assumes "length buf < n"
  shows "recv c (n - length buf) = (Received xs, c') \<Longrightarrow> xs \<noteq> [] \<Longrightarrow>
      recv_fill recv n buf c = recv_fill recv n (buf @ xs) c'"
    and "recv c (n - length buf) = (RecvError EINTR, c') \<Longrightarrow> recv_fill recv n buf c = recv_fill recv n buf c'"
  using assms by (subst recv_fill.simps; simp)+

text \<open>Whatever the system does, a buffer that is returned is the next bytes of the stream.\<close>

lemma recv_fill_sound:
  assumes "recv_fill recv n buf c = Some res" "recv_ok recv pending" "length buf \<le> n"
  shows "\<exists>xs. pending c = xs @ pending (snd res) \<and> length buf + length xs \<le> n \<and>
    (case fst res of None \<Rightarrow> True | Some out \<Rightarrow> length out = n \<and> out = buf @ xs)"
  using assms
proof (induction rule: recv_fill.raw_induct [rotated, consumes 1, case_names step])
  case (step f recv n buf c res)
  show ?case
  proof (cases "length buf < n")
    case True
    obtain r c1 where r: "recv c (n - length buf) = (r, c1)" by force
    show ?thesis
    proof (cases r)
      case (Received xs)
      note doc = recv_okD(1) [OF step.prems(1) r [unfolded Received]]
      show ?thesis
      proof (cases "xs = []")
        case False
        have len: "length (buf @ xs) \<le> n" using doc True by auto
        have "f recv n (buf @ xs) c1 = Some res" using False step.hyps True r Received by simp
        then obtain ys where "pending c1 = ys @ pending (snd res)" "length (buf @ xs) + length ys \<le> n"
            "case fst res of None \<Rightarrow> True | Some out \<Rightarrow> length out = n \<and> out = (buf @ xs) @ ys"
          using step.IH [of recv n "buf @ xs" c1 res] step.prems len by auto
        then show ?thesis using doc by (intro exI [of _ "xs @ ys"]) (auto split: option.splits)
      qed (use step.hyps True r Received doc step.prems in auto)
    next
      case (RecvError e)
      note doc = recv_okD(2) [OF step.prems(1) r [unfolded RecvError]]
      show ?thesis
      proof (cases "e = EINTR")
        case e: True
        then have "f recv n buf c1 = Some res" using step.hyps True r RecvError by simp
        from step.IH [OF this step.prems] show ?thesis using doc by simp
      qed (use step.hyps True r RecvError doc step.prems in auto)
    qed
  qed (use step in auto)
qed

text \<open>With a live peer and the bytes on their way, the buffer is filled and the call returns.\<close>

lemma recv_fill_live:
  assumes ok: "recv_ok recv pending" and live: "recv_live recv pending stalls"
  shows "length buf \<le> n \<Longrightarrow> pending c = xs @ rest \<Longrightarrow> length buf + length xs = n \<Longrightarrow>
    \<exists>c'. recv_fill recv n buf c = Some (Some (buf @ xs), c') \<and> pending c' = rest"
proof (induction "(length xs, stalls c)" arbitrary: buf xs c rule: wf_induct_rule [OF wf_lex_prod [OF wf_less_than wf_less_than]])
  case (1 xs c)
  show ?case
  proof (cases "xs = []")
    case True
    then show ?thesis using 1 by (simp add: recv_fill_full)
  next
    case False
    then have lt: "length buf < n" and ne: "pending c \<noteq> []" and pos: "0 < n - length buf" using 1 by auto
    obtain r c1 where r: "recv c (n - length buf) = (r, c1)" by force
    show ?thesis
    proof (cases r)
      case (Received ys)
      note doc = recv_okD(1) [OF ok r [unfolded Received]] recv_liveD(1) [OF live pos ne r [unfolded Received]]
      then obtain zs where zs: "xs = ys @ zs" "pending c1 = zs @ rest"
        using 1 by (auto simp: append_eq_append_conv2)
      have "\<exists>c'. recv_fill recv n (buf @ ys) c1 = Some (Some ((buf @ ys) @ zs), c') \<and> pending c' = rest"
        using doc zs 1 by (intro 1) auto
      then show ?thesis using recv_fill_step(1) [OF lt, of recv c ys c1] r Received doc zs by simp
    next
      case (RecvError e)
      note doc = recv_okD(2) [OF ok r [unfolded RecvError]] recv_liveD(2) [OF live pos ne r [unfolded RecvError]]
      have "\<exists>c'. recv_fill recv n buf c1 = Some (Some (buf @ xs), c') \<and> pending c' = rest"
        using doc 1 by (intro 1) auto
      then show ?thesis using recv_fill_step(2) [OF lt, of recv c c1] doc r RecvError by simp
    qed
  qed
qed

section \<open>What the loops keep\<close>

text \<open>A predicate of the connection that every call keeps is kept by the loops.\<close>

lemma tcp_send_all_preserves:
  assumes "tcp_send_all send data c = Some (ok, c')" "\<And>c d r c'. send c d = (r, c') \<Longrightarrow> I c \<Longrightarrow> I c'" "I c"
  shows "I c'"
  using assms
proof (induction "(ok, c')" rule: tcp_send_all.raw_induct [rotated, consumes 1, case_names step])
  case (step f send data c)
  then show ?case by (auto split: if_splits prod.splits send_result.splits)
qed

lemma recv_fill_preserves:
  assumes "recv_fill recv n buf c = Some (out, c')" "\<And>c n r c'. recv c n = (r, c') \<Longrightarrow> I c \<Longrightarrow> I c'" "I c"
  shows "I c'"
  using assms
proof (induction "(out, c')" rule: recv_fill.raw_induct [rotated, consumes 1, case_names step])
  case (step f recv n buf c)
  then show ?case by (auto split: if_splits prod.splits recv_result.splits)
qed

lemma tcp_recv_frame_preserves:
  assumes r: "tcp_recv_frame recv c = Some (out, c')"
    and keep: "\<And>c n r c'. recv c n = (r, c') \<Longrightarrow> I c \<Longrightarrow> I c'" and "I c"
  shows "I c'"
proof -
  obtain h c1 where h: "recv_fill recv 4 [] c = Some (h, c1)"
    using r by (cases "recv_fill recv 4 [] c") (auto simp: tcp_recv_frame_def)
  then have "I c1" using keep assms(3) by (rule recv_fill_preserves)
  then show ?thesis
    using r recv_fill_preserves [where I = I and recv = recv and c = c1, OF _ keep]
    by (auto simp: tcp_recv_frame_def h Let_def split: option.splits if_splits)
qed

section \<open>The loops return\<close>

text \<open>
  Every call either makes progress, ends the loop or is interrupted, and \<^verbatim>\<open>stalls\<close> bounds the
  interruptions in a row.
\<close>

definition recv_stalls :: "'c recv \<Rightarrow> ('c \<Rightarrow> nat) \<Rightarrow> bool" where
  "recv_stalls recv stalls \<longleftrightarrow>
     (\<forall>c n c'. recv c n = (RecvError EINTR, c') \<longrightarrow> stalls c' < stalls c)"

lemma recv_fill_returns:
  assumes st: "recv_stalls recv stalls"
  shows "recv_fill recv n buf c \<noteq> None"
proof (induction "(n - length buf, stalls c)" arbitrary: buf c rule: wf_induct_rule [OF wf_lex_prod [OF wf_less_than wf_less_than]])
  case (1 buf c)
  show ?case
  proof (cases "length buf < n")
    case True
    obtain r c1 where r: "recv c (n - length buf) = (r, c1)" by force
    show ?thesis
    proof (cases r)
      case (Received xs)
      have "xs \<noteq> [] \<Longrightarrow> recv_fill recv n (buf @ xs) c1 \<noteq> None"
        using True by (intro 1) (cases xs; simp add: in_lex_prod; arith)
      then show ?thesis using True r Received by (subst recv_fill.simps) auto
    next
      case (RecvError e)
      have "e = EINTR \<Longrightarrow> recv_fill recv n buf c1 \<noteq> None"
        using st r RecvError by (intro 1) (auto simp: recv_stalls_def)
      then show ?thesis using True r RecvError by (subst recv_fill.simps) auto
    qed
  qed (simp add: recv_fill_full)
qed

lemma tcp_recv_frame_returns: "recv_stalls recv stalls \<Longrightarrow> tcp_recv_frame recv c \<noteq> None"
  using recv_fill_returns [of recv stalls 4 "[]" c] recv_fill_returns [of recv stalls]
  by (cases "recv_fill recv 4 [] c") (auto simp: tcp_recv_frame_def Let_def split: option.split)

lemma tcp_send_all_returns:
  assumes st: "send_stalls send stalls"
  shows "tcp_send_all send data c \<noteq> None"
proof (induction "(length data, stalls c)" arbitrary: data c rule: wf_induct_rule [OF wf_lex_prod [OF wf_less_than wf_less_than]])
  case (1 data c)
  show ?case
  proof (cases "data = []")
    case False
    obtain r c1 where r: "send c data = (r, c1)" by force
    show ?thesis
    proof (cases r)
      case (Accepted n)
      have "n \<noteq> 0 \<Longrightarrow> tcp_send_all send (drop n data) c1 \<noteq> None"
        using False by (intro 1) auto
      then show ?thesis using False r Accepted by (subst tcp_send_all.simps) auto
    next
      case (SendError e)
      have "e = EINTR \<Longrightarrow> tcp_send_all send data c1 \<noteq> None"
        using st r SendError by (intro 1) (auto simp: send_stalls_def)
      then show ?thesis using False r SendError by (subst tcp_send_all.simps) auto
    qed
  qed (subst tcp_send_all.simps, simp)
qed

section \<open>Frames\<close>

text \<open>A frame of the protocol: a length in bounds and as many bytes as it says.\<close>

definition tcp_frame :: "byte list \<Rightarrow> bool" where
  "tcp_frame xs \<longleftrightarrow> (\<exists>body. xs = be_bytes 4 (of_nat (length body) :: u32) @ body \<and>
     body \<noteq> [] \<and> length body \<le> kMaxFrame)"

lemma frame_length_be_word: "length hdr = 4 \<Longrightarrow> frame_length hdr = be_word hdr"
  by (cases hdr; cases "tl hdr"; cases "tl (tl hdr)"; cases "tl (tl (tl hdr))")
     (auto simp: frame_length_def be_word_expand)

lemma tcp_frame_iff:
  "tcp_frame xs \<longleftrightarrow> 4 \<le> length xs \<and> length xs = 4 + unat (be_word (take 4 xs) :: u32) \<and>
     0 < unat (be_word (take 4 xs) :: u32) \<and> unat (be_word (take 4 xs) :: u32) \<le> kMaxFrame"
proof
  assume "tcp_frame xs"
  then obtain body where b: "xs = be_bytes 4 (of_nat (length body) :: u32) @ body" "body \<noteq> []"
      "length body \<le> kMaxFrame" by (auto simp: tcp_frame_def)
  have "unat (of_nat (length body) :: u32) = length body"
    using b(3) by (intro unat_of_nat_small) (simp add: kMaxFrame_def)
  then show "4 \<le> length xs \<and> length xs = 4 + unat (be_word (take 4 xs) :: u32) \<and>
     0 < unat (be_word (take 4 xs) :: u32) \<and> unat (be_word (take 4 xs) :: u32) \<le> kMaxFrame"
    using b by simp
next
  assume h: "4 \<le> length xs \<and> length xs = 4 + unat (be_word (take 4 xs) :: u32) \<and>
     0 < unat (be_word (take 4 xs) :: u32) \<and> unat (be_word (take 4 xs) :: u32) \<le> kMaxFrame"
  have "of_nat (length (drop 4 xs)) = (be_word (take 4 xs) :: u32)" using h by simp
  then have "xs = be_bytes 4 (of_nat (length (drop 4 xs)) :: u32) @ drop 4 xs" using h by simp
  then show "tcp_frame xs" using h unfolding tcp_frame_def by (intro exI [of _ "drop 4 xs"]) auto
qed

lemma tcp_recv_frame_live:
  assumes ok: "recv_ok recv pending" and live: "recv_live recv pending stalls"
    and f: "tcp_frame xs" and p: "pending c = xs @ rest"
  shows "\<exists>c'. tcp_recv_frame recv c = Some (Some xs, c') \<and> pending c' = rest"
proof -
  define hdr body where "hdr = take 4 xs" and "body = drop 4 xs"
  have xs: "xs = hdr @ body" by (simp add: hdr_def body_def)
  have h: "length hdr = 4" "length hdr + length body = 4 + unat (be_word hdr :: u32)"
      "0 < unat (be_word hdr :: u32)" "unat (be_word hdr :: u32) \<le> kMaxFrame"
    using f by (simp_all add: tcp_frame_iff hdr_def body_def)
  obtain c1 where c1: "recv_fill recv 4 [] c = Some (Some hdr, c1)" "pending c1 = body @ rest"
    using recv_fill_live [OF ok live, of "[]" 4 c hdr "body @ rest"] h(1) p xs by auto
  obtain c2 where c2: "recv_fill recv (4 + unat (be_word hdr :: u32)) hdr c1 = Some (Some (hdr @ body), c2)"
      "pending c2 = rest"
    using recv_fill_live [OF ok live _ c1(2), of hdr "4 + unat (be_word hdr :: u32)"] h by auto
  show ?thesis
    using h c2 unfolding tcp_recv_frame_def c1(1) bind.bind_lunit prod.case option.case frame_length_be_word [OF h(1)] Let_def xs
    by simp
qed

text \<open>A frame that is returned is one, provided no call returns more than it was asked for.\<close>

lemma recv_fill_length:
  assumes "recv_fill recv n buf c = Some res" "fst res = Some out" "\<And>c n xs c'. recv c n = (Received xs, c') \<Longrightarrow> length xs \<le> n"
    and "length buf \<le> n"
  shows "length out = n \<and> take (length buf) out = buf"
  using assms
proof (induction rule: recv_fill.raw_induct [rotated, consumes 1, case_names step])
  case (step f recv n buf c res)
  show ?case
  proof (cases "length buf < n")
    case True
    obtain r c1 where r: "recv c (n - length buf) = (r, c1)" by force
    show ?thesis
    proof (cases r)
      case (Received xs)
      then have xs: "xs \<noteq> []" "f recv n (buf @ xs) c1 = Some res" "length (buf @ xs) \<le> n"
        using step.hyps True r step.prems(1) step.prems(2) [of c "n - length buf" xs c1] by (auto split: if_splits)
      from step.IH [OF xs(2) step.prems(1,2) xs(3)] have "length out = n" "take (length (buf @ xs)) out = buf @ xs" by auto
      moreover have "take (length buf) out = take (length buf) (take (length (buf @ xs)) out)" by simp
      ultimately show ?thesis by simp
    next
      case (RecvError e)
      then show ?thesis using step.hyps True r step.IH [of recv n buf c1 res] step.prems by (auto split: if_splits)
    qed
  qed (use step in auto)
qed

lemma tcp_recv_frame_framed:
  assumes r: "tcp_recv_frame recv c = Some (Some xs, c')"
    and le: "\<And>c n xs c'. recv c n = (Received xs, c') \<Longrightarrow> length xs \<le> n"
  shows "tcp_frame xs"
proof -
  obtain hdr c1 where h: "recv_fill recv 4 [] c = Some (Some hdr, c1)"
    using r by (cases "recv_fill recv 4 [] c") (auto simp: tcp_recv_frame_def split: option.splits)
  have hdr: "length hdr = 4" using recv_fill_length [OF h _ le] by simp
  let ?len = "unat (be_word hdr :: u32)"
  have b: "0 < ?len" "?len \<le> kMaxFrame" "recv_fill recv (4 + ?len) hdr c1 = Some (Some xs, c')"
    using r by (auto simp: tcp_recv_frame_def h Let_def frame_length_be_word [OF hdr] split: if_splits)
  then have "length xs = 4 + ?len" "take 4 xs = hdr" using recv_fill_length [OF b(3) _ le] hdr by auto
  then show ?thesis using b(1,2) by (simp add: tcp_frame_iff)
qed

lemma tcp_recv_frame_sound:
  assumes ok: "recv_ok recv pending" and r: "tcp_recv_frame recv c = Some (out, c')"
  shows "\<exists>ys. pending c = ys @ pending c' \<and> (case out of None \<Rightarrow> True | Some xs \<Rightarrow> xs = ys \<and> tcp_frame xs)"
proof -
  obtain h c1 where h: "recv_fill recv 4 [] c = Some (h, c1)"
    using r by (cases "recv_fill recv 4 [] c") (auto simp: tcp_recv_frame_def)
  obtain xs where xs: "pending c = xs @ pending c1" "case h of None \<Rightarrow> True | Some hdr \<Rightarrow> length hdr = 4 \<and> hdr = xs"
    using recv_fill_sound [OF h ok] by force
  show ?thesis
  proof (cases h)
    case None
    then show ?thesis using r h xs by (auto simp: tcp_recv_frame_def)
  next
    case (Some hdr)
    then have hdr: "length hdr = 4" "hdr = xs" using xs by auto
    let ?len = "unat (be_word hdr :: u32)"
    show ?thesis
    proof (cases "?len = 0 \<or> ?len > kMaxFrame")
      case True
      then have "out = None \<and> c' = c1"
        using r unfolding tcp_recv_frame_def h Some bind.bind_lunit prod.case option.case
          frame_length_be_word [OF hdr(1)] Let_def by auto
      then show ?thesis using xs by auto
    next
      case False
      then have "recv_fill recv (4 + ?len) hdr c1 = Some (out, c')"
        using r unfolding tcp_recv_frame_def h Some bind.bind_lunit prod.case option.case
          frame_length_be_word [OF hdr(1)] Let_def by auto
      from recv_fill_sound [OF this ok] obtain ys where ys: "pending c1 = ys @ pending c'"
          "case out of None \<Rightarrow> True | Some out \<Rightarrow> length out = 4 + ?len \<and> out = hdr @ ys"
        using hdr by auto
      show ?thesis
        using xs ys hdr False by (intro exI [of _ "xs @ ys"]) (auto simp: tcp_frame_iff split: option.splits)
    qed
  qed
qed

section \<open>The send loop\<close>

lemma tcp_send_all_run:
  assumes ok: "send_ok send sent" and st: "send_stalls send stalls"
  shows "\<exists>k c'. tcp_send_all send d c = Some (k = length d, c') \<and> k \<le> length d \<and> sent c' = sent c @ take k d"
proof (induction "(length d, stalls c)" arbitrary: d c rule: wf_induct_rule [OF wf_lex_prod [OF wf_less_than wf_less_than]])
  case (1 d c)
  show ?case
  proof (cases "d = []")
    case True
    then show ?thesis by (subst tcp_send_all.simps) simp
  next
    case ne: False
    obtain r c1 where r: "send c d = (r, c1)" by force
    show ?thesis
    proof (cases r)
      case (Accepted n)
      note doc = send_okD(1) [OF ok r [unfolded Accepted]]
      show ?thesis
      proof (cases "n = 0")
        case True
        then show ?thesis using ne r Accepted doc by (subst tcp_send_all.simps) (simp add: exI [of _ 0])
      next
        case False
        then have "\<exists>k c'. tcp_send_all send (drop n d) c1 = Some (k = length (drop n d), c') \<and>
            k \<le> length (drop n d) \<and> sent c' = sent c1 @ take k (drop n d)"
          using ne by (intro 1) simp
        then obtain k c' where k: "tcp_send_all send (drop n d) c1 = Some (k = length d - n, c')"
            "k \<le> length d - n" "sent c' = sent c1 @ take k (drop n d)" by auto
        have "tcp_send_all send d c = Some (n + k = length d, c')"
          using ne r Accepted False k(1) doc by (subst tcp_send_all.simps) auto
        moreover have "n + k \<le> length d" using doc k(2) by auto
        ultimately show ?thesis using doc k by (intro exI [of _ "n + k"] exI [of _ c']) (simp add: take_add)
      qed
    next
      case (SendError e)
      note doc = send_okD(2) [OF ok r [unfolded SendError]]
      show ?thesis
      proof (cases "e = EINTR")
        case True
        have "\<exists>k c'. tcp_send_all send d c1 = Some (k = length d, c') \<and> k \<le> length d \<and> sent c' = sent c1 @ take k d"
          using st r SendError True by (intro 1) (auto simp: send_stalls_def)
        then show ?thesis using ne r SendError True doc by (subst tcp_send_all.simps) simp
      next
        case False
        then show ?thesis using ne r SendError doc by (subst tcp_send_all.simps) (simp add: exI [of _ 0])
      qed
    qed
  qed
qed

section \<open>Properties\<close>

text \<open>C17: a frame on its way arrives: however the system cuts the stream into pieces and interrupts the
  calls, the receive loop returns, with exactly the next frame of the stream, and leaves the rest.\<close>

theorem frame_arrives:
  assumes "recv_ok recv pending" and "recv_live recv pending stalls"
    and "tcp_frame xs" and "pending c = xs @ rest"
  shows "\<exists>c'. tcp_recv_frame recv c = Some (Some xs, c') \<and> pending c' = rest"
  using assms by (rule tcp_recv_frame_live)

text \<open>A connection that delivers two bytes a call, with scripted interruptions.\<close>

fun script_recv :: "(byte list \<times> bool list) recv" where
  "script_recv (bs, True # is) n = (RecvError EINTR, (bs, is))"
| "script_recv (bs, is) n = (Received (take (min 2 n) bs), (drop (min 2 n) bs, tl is))"

lemma script_recv_ok: "recv_ok script_recv fst"
  unfolding recv_ok_def
proof (intro conjI allI impI)
  fix c :: "byte list \<times> bool list" and n :: nat and xs c' e
  show "script_recv c n = (Received xs, c') \<Longrightarrow> length xs \<le> n"
    "script_recv c n = (Received xs, c') \<Longrightarrow> fst c = xs @ fst c'"
    "script_recv c n = (RecvError e, c') \<Longrightarrow> fst c' = fst c"
    by (cases "(c, n)" rule: script_recv.cases; force)+
qed

lemma script_recv_live: "recv_live script_recv fst (length \<circ> snd)"
  unfolding recv_live_def
proof (intro conjI allI impI)
  fix c :: "byte list \<times> bool list" and n :: nat and xs c' e
  assume "0 < n" "fst c \<noteq> []"
  then show "script_recv c n = (Received xs, c') \<Longrightarrow> xs \<noteq> []"
    "script_recv c n = (RecvError e, c') \<Longrightarrow> e = EINTR"
    "script_recv c n = (RecvError e, c') \<Longrightarrow> (length \<circ> snd) c' < (length \<circ> snd) c"
    by (cases "(c, n)" rule: script_recv.cases; force)+
qed

theorem frame_arrives_witness:
  "\<exists>c'. tcp_recv_frame script_recv ([0, 0, 0, 3, 7, 8, 9, 1], [False, True]) = Some (Some [0, 0, 0, 3, 7, 8, 9], c') \<and>
     fst c' = [1]"
proof (rule frame_arrives [OF script_recv_ok script_recv_live])
  show "tcp_frame [0, 0, 0, 3, 7, 8, 9]" by (simp add: tcp_frame_iff be_word_def kMaxFrame_def)
qed simp

text \<open>A received frame is safe to decode: what the receive loop returns is the next bytes of the
  stream with a length in bounds, so the recovery decoder never reads outside it.\<close>

theorem received_frame_safe:
  assumes "recv_ok recv pending" and "tcp_recv_frame recv c = Some (Some xs, c')"
  shows "pending c = xs @ pending c' \<and> tcp_frame xs \<and> decode_snap_frame xs \<noteq> None"
proof -
  have f: "pending c = xs @ pending c'" "tcp_frame xs" using tcp_recv_frame_sound [OF assms] by auto
  then have "unat (be_word (take 4 xs) :: u32) < 2 ^ 32 - 4"
    by (auto simp: tcp_frame_iff kMaxFrame_def)
  then show ?thesis using f decode_snap_frame_safe by blast
qed

theorem received_frame_safe_witness:
  "\<exists>c'. tcp_recv_frame script_recv ([0, 0, 0, 1, 0x51], []) = Some (Some [0, 0, 0, 1, 0x51], c') \<and>
     decode_snap_frame [0, 0, 0, 1, 0x51] \<noteq> None"
proof -
  have "tcp_frame [0, 0, 0, 1, 0x51]" by (simp add: tcp_frame_iff be_word_def kMaxFrame_def)
  then obtain c' where "tcp_recv_frame script_recv ([0, 0, 0, 1, 0x51], []) = Some (Some [0, 0, 0, 1, 0x51], c')"
    using tcp_recv_frame_live [OF script_recv_ok script_recv_live, of "[0, 0, 0, 1, 0x51]" "([0, 0, 0, 1, 0x51], [])" "[]"]
    by auto
  then show ?thesis using received_frame_safe [OF script_recv_ok] by blast
qed

text \<open>Sending a buffer returns, and reports success exactly when the whole buffer has been put on the
  stream; otherwise a proper prefix has.\<close>

theorem send_all_complete:
  assumes "send_ok send sent" and "send_stalls send stalls"
  shows "\<exists>k c'. tcp_send_all send d c = Some (k = length d, c') \<and> k \<le> length d \<and> sent c' = sent c @ take k d"
  using assms by (rule tcp_send_all_run)

fun script_send :: "(byte list \<times> bool list) send" where
  "script_send (bs, True # is) d = (SendError EINTR, (bs, is))"
| "script_send (bs, is) d = (Accepted (min 3 (length d)), (bs @ take 3 d, tl is))"

lemma script_send_ok: "send_ok script_send fst"
  unfolding send_ok_def
proof (intro conjI allI impI)
  fix c :: "byte list \<times> bool list" and d n c' e
  show "script_send c d = (Accepted n, c') \<Longrightarrow> n \<le> length d"
    "script_send c d = (Accepted n, c') \<Longrightarrow> fst c' = fst c @ take n d"
    "script_send c d = (SendError e, c') \<Longrightarrow> fst c' = fst c"
    by (cases "(c, d)" rule: script_send.cases; force simp: min_def)+
qed

lemma script_send_stalls: "send_stalls script_send (length \<circ> snd)"
  unfolding send_stalls_def
proof (intro allI impI)
  fix c :: "byte list \<times> bool list" and d c'
  show "script_send c d = (SendError EINTR, c') \<Longrightarrow> (length \<circ> snd) c' < (length \<circ> snd) c"
    by (cases "(c, d)" rule: script_send.cases; force)
qed

theorem send_all_complete_witness:
  "\<exists>k c'. tcp_send_all script_send [1, 2, 3, 4, 5] ([], [True]) = Some (k = length [1, 2, 3, 4, 5 :: byte], c') \<and>
     k \<le> length [1, 2, 3, 4, 5 :: byte] \<and> fst c' = fst ([] :: byte list, [True]) @ take k [1, 2, 3, 4, 5]"
  by (rule send_all_complete [OF script_send_ok script_send_stalls])

end
