(* ===== verification/Snapshot_Server.thy ===== *)
theory Snapshot_Server
  imports Tcp_Framing
begin

text \<open>
  \<^verbatim>\<open>SnapshotServer::run\<close> of \<^verbatim>\<open>src/sim/snapshot_server.cpp\<close>: one connection served per turn of the
  loop. The provider and the system calls are parameters; \<^verbatim>\<open>accept_one\<close> yields a connection or
  nothing, and every connection accepted is given to \<^verbatim>\<open>close\<close>.
\<close>

record SnapshotServer =
  running :: bool
  served :: u64

definition new_snapshot_server :: SnapshotServer where
  "new_snapshot_server = \<lparr>running = False, served = 0\<rparr>"

text \<open>
  Without a provider the response is a default-initialised local: its scalar members have
  indeterminate values, the argument \<^verbatim>\<open>indet\<close>.
\<close>

definition provide :: "SnapshotResponse \<Rightarrow> (SnapshotRequest \<Rightarrow> SnapshotResponse) option \<Rightarrow>
    SnapshotRequest \<Rightarrow> SnapshotResponse" where
  "provide indet provider q =
     (case provider of
        None \<Rightarrow> indet\<lparr>resp_bids := [], resp_asks := []\<rparr>
      | Some f \<Rightarrow> f q)"

definition serve_turn :: "SnapshotResponse \<Rightarrow> 'c recv \<Rightarrow> 'c send \<Rightarrow> ('c \<Rightarrow> 'c) \<Rightarrow> (SnapshotRequest \<Rightarrow> SnapshotResponse) option \<Rightarrow>
    'c option \<Rightarrow> SnapshotServer \<Rightarrow> (SnapshotServer \<times> 'c option) option" where
  "serve_turn indet recv send close provider accepted s =
     (case accepted of
        None \<Rightarrow> Some (s, None)
      | Some c \<Rightarrow> do {
          (f, c) \<leftarrow> tcp_recv_frame recv c;
          case f of
            None \<Rightarrow> Some (s, Some (close c))
          | Some frame \<Rightarrow> do {
              (dec, consumed) \<leftarrow> decode_snap_frame frame;
              if kind dec \<noteq> KRequest then Some (s, Some (close c))
              else do {
                (sent_ok, c) \<leftarrow> tcp_send_all send (encode_response (provide indet provider (request dec))) c;
                Some (s\<lparr>served := served s + 1\<rparr>, Some (close c)) } } })"

text \<open>The loop over the connections that arrive while the server runs.\<close>

fun serve_all :: "SnapshotResponse \<Rightarrow> 'c recv \<Rightarrow> 'c send \<Rightarrow> ('c \<Rightarrow> 'c) \<Rightarrow> (SnapshotRequest \<Rightarrow> SnapshotResponse) option \<Rightarrow>
    'c option list \<Rightarrow> SnapshotServer \<Rightarrow> (SnapshotServer \<times> 'c list) option" where
  "serve_all indet recv send close provider [] s = Some (s, [])"
| "serve_all indet recv send close provider (a # as) s =
     (if running s then do {
        (s, c) \<leftarrow> serve_turn indet recv send close provider a s;
        (s, cs) \<leftarrow> serve_all indet recv send close provider as s;
        Some (s, (case c of None \<Rightarrow> cs | Some c \<Rightarrow> c # cs)) }
      else Some (s, []))"

section \<open>Frames of the recovery protocol\<close>

lemma frame_bytes_tcp: "1 + length body \<le> kMaxFrame \<Longrightarrow> tcp_frame (frame_bytes op body)"
  unfolding tcp_frame_def frame_bytes_def by (intro exI [of _ "[op] @ body"]) simp

lemma tcp_frame_request: "tcp_frame (encode_request q)"
  by (simp add: encode_alt frame_bytes_tcp bounds_simps kMaxFrame_def)

lemma tcp_frame_response:
  "27 + 12 * (length (resp_bids r) + length (resp_asks r)) \<le> kMaxFrame \<Longrightarrow> tcp_frame (encode_response r)"
  by (simp add: encode_alt frame_bytes_tcp bounds_simps)

section \<open>The server\<close>

lemma serve_turn_request:
  assumes recv: "recv_ok recv pending" "recv_live recv pending rstalls"
    and send: "send_ok send sent" "send_stalls send sstalls"
    and p: "pending c = encode_request q @ rest"
  obtains c1 c2 k where "serve_turn indet recv send close provider (Some c) s =
      Some (s\<lparr>served := served s + 1\<rparr>, Some (close c2))"
    "tcp_recv_frame recv c = Some (Some (encode_request q), c1)" "pending c1 = rest"
    "tcp_send_all send (encode_response (provide indet provider q)) c1 =
       Some (k = length (encode_response (provide indet provider q)), c2)"
    "k \<le> length (encode_response (provide indet provider q))"
    "sent c2 = sent c1 @ take k (encode_response (provide indet provider q))"
proof -
  obtain c1 where c1: "tcp_recv_frame recv c = Some (Some (encode_request q), c1)" "pending c1 = rest"
    using tcp_recv_frame_live [OF recv tcp_frame_request p] by blast
  let ?r = "encode_response (provide indet provider q)"
  obtain k c2 where c2: "tcp_send_all send ?r c1 = Some (k = length ?r, c2)" "k \<le> length ?r" "sent c2 = sent c1 @ take k ?r"
    using tcp_send_all_run [OF send] by blast
  have d: "decode_snap_frame (encode_request q) = Some (empty_frame\<lparr>kind := KRequest, request := q\<rparr>, 15)"
    using request_fault_roundtrip [of q "[]"] by simp
  have "serve_turn indet recv send close provider (Some c) s = Some (s\<lparr>served := served s + 1\<rparr>, Some (close c2))"
    by (simp add: serve_turn_def c1 d c2)
  from that [OF this c1 c2] show ?thesis .
qed

text \<open>Whatever the clients do, a turn comes back once its system calls do.\<close>

lemma serve_turn_memory_safe:
  assumes recv: "recv_ok recv pending" and send: "send_ok send sent" "send_stalls send stalls"
    and ret: "tcp_recv_frame recv c \<noteq> None"
  shows "\<exists>s' c'. serve_turn indet recv send close provider (Some c) s = Some (s', Some (close c')) \<and>
    (s' = s \<or> s' = s\<lparr>served := served s + 1\<rparr>)"
proof -
  obtain f c1 where f: "tcp_recv_frame recv c = Some (f, c1)" using ret by auto
  show ?thesis
  proof (cases f)
    case None
    then show ?thesis by (auto simp: serve_turn_def f)
  next
    case (Some xs)
    then have "tcp_frame xs" using tcp_recv_frame_sound [OF recv f] by simp
    then have "unat (be_word (take 4 xs) :: u32) < 2 ^ 32 - 4" by (auto simp: tcp_frame_iff kMaxFrame_def)
    then obtain dec n where dec: "decode_snap_frame xs = Some (dec, n)" using decode_snap_frame_safe by fastforce
    obtain b c2 where "tcp_send_all send (encode_response (provide indet provider (request dec))) c1 = Some (b, c2)"
      using tcp_send_all_run [OF send] by blast
    then show ?thesis by (auto simp: serve_turn_def f Some dec)
  qed
qed

lemma serve_turn_running: "serve_turn indet recv send close provider a s = Some (s', c) \<Longrightarrow> running s' = running s"
  by (auto simp: serve_turn_def bind_eq_Some_conv split: option.splits if_splits)

text \<open>Every connection accepted by a running server is closed, and the server goes on.\<close>

lemma serve_all_returns:
  fixes indet :: SnapshotResponse and recv :: "'c recv" and close :: "'c \<Rightarrow> 'c"
  assumes "recv_ok recv pending" "send_ok send sent" "send_stalls send stalls"
    and "\<And>c. tcp_recv_frame recv c \<noteq> None" and "running s"
  shows "\<exists>s' cs. serve_all indet recv send close provider as s = Some (s', cs) \<and> running s' \<and>
    length cs = length (filter (\<lambda>a. a \<noteq> None) as)"
  using assms(5)
proof (induction as arbitrary: s)
  case (Cons a as)
  have "\<exists>s1 c1. serve_turn indet recv send close provider a s = Some (s1, c1) \<and> (c1 = None \<longleftrightarrow> a = None)"
    using serve_turn_memory_safe [where indet = indet and close = close and provider = provider and s = s, OF assms(1-4)]
    by (cases a) (fastforce simp: serve_turn_def)+
  then obtain s1 c1 where 1: "serve_turn indet recv send close provider a s = Some (s1, c1)" "c1 = None \<longleftrightarrow> a = None"
    by blast
  then obtain s' cs where "serve_all indet recv send close provider as s1 = Some (s', cs)" "running s'"
      "length cs = length (filter (\<lambda>a. a \<noteq> None) as)"
    using Cons.IH [of s1] serve_turn_running Cons.prems by metis
  then show ?case using 1 Cons.prems by (auto split: option.splits)
qed simp

section \<open>Properties\<close>

text \<open>C6: the recovery exchange: a server that finds a request on an accepted connection answers it, counts
  it and closes the connection; and a client on whose connection the answer arrives, however the
  stream is cut and interrupted, decodes exactly the snapshot the provider gave for its request.\<close>

theorem recovery_exchange:
  assumes "recv_ok recv pending" "recv_live recv pending rstalls"
    and "send_ok send sent" "send_stalls send sstalls"
    and "pending c = encode_request q @ rest"
    and "27 + 12 * (length (resp_bids (f q)) + length (resp_asks (f q))) \<le> kMaxFrame"
  shows "\<exists>c1 c2 ok. tcp_recv_frame recv c = Some (Some (encode_request q), c1) \<and> pending c1 = rest \<and>
    serve_turn indet recv send close (Some f) (Some c) s =
      Some (s\<lparr>served := served s + 1\<rparr>, Some (close c2)) \<and>
    tcp_send_all send (encode_response (f q)) c1 = Some (ok, c2) \<and>
    (ok \<longrightarrow> sent c2 = sent c1 @ encode_response (f q)) \<and>
    (\<forall>d more. pending d = encode_response (f q) @ more \<longrightarrow>
       (\<exists>d' n. tcp_recv_frame recv d = Some (Some (encode_response (f q)), d') \<and> pending d' = more \<and>
          decode_snap_frame (encode_response (f q)) = Some (empty_frame\<lparr>kind := KResponse, response := f q\<rparr>, n)))"
proof -
  let ?r = "encode_response (provide indet (Some f) q)"
  have pr: "provide indet (Some f) q = f q" by (simp add: provide_def)
  obtain c1 c2 k where t: "serve_turn indet recv send close (Some f) (Some c) s =
      Some (s\<lparr>served := served s + 1\<rparr>, Some (close c2))"
    "tcp_recv_frame recv c = Some (Some (encode_request q), c1)" "pending c1 = rest"
    "tcp_send_all send ?r c1 = Some (k = length ?r, c2)" "k \<le> length ?r" "sent c2 = sent c1 @ take k ?r"
    using serve_turn_request [OF assms(1-5), of indet close "Some f" s] by metis
  have tf: "tcp_frame (encode_response (f q))" using assms(6) by (rule tcp_frame_response)
  have "decode_snap_frame (encode_response (f q)) =
      Some (empty_frame\<lparr>kind := KResponse, response := f q\<rparr>, length (encode_response (f q)))"
    using decode_response_frame [of "f q" "[]"] assms(6) by (simp add: kMaxFrame_def)
  then show ?thesis
    using t tcp_recv_frame_live [OF assms(1,2) tf] unfolding pr
    by (intro exI [of _ c1] exI [of _ c2] exI [of _ "k = length (encode_response (f q))"]) auto
qed

definition no_symbol_response :: SnapshotResponse where
  "no_symbol_response = response empty_frame"

type_synonym duplex = "(byte list \<times> bool list) \<times> (byte list \<times> bool list)"

definition duplex_recv :: "duplex recv" where
  "duplex_recv = on_part fst (\<lambda>c i. (i, snd c)) script_recv"

definition duplex_send :: "duplex send" where
  "duplex_send = on_part snd (\<lambda>c x. (fst c, x)) script_send"

lemma duplex_ok:
  "recv_ok duplex_recv (fst \<circ> fst)" "recv_live duplex_recv (fst \<circ> fst) ((length \<circ> snd) \<circ> fst)"
  "send_ok duplex_send (fst \<circ> snd)" "send_stalls duplex_send ((length \<circ> snd) \<circ> snd)"
  unfolding duplex_recv_def duplex_send_def
  by (rule on_part_ok; simp add: script_recv_ok script_recv_live script_send_ok script_send_stalls)+

definition sample_request :: SnapshotRequest where
  "sample_request = \<lparr>req_locate = 7, from_seq = 12\<rparr>"

definition sample_provider :: "SnapshotRequest \<Rightarrow> SnapshotResponse" where
  "sample_provider q = \<lparr>resp_locate = req_locate q, last_applied_seq = from_seq q + 3,
     resp_symbol = make_symbol [0x41], resp_bids = [\<lparr>price = 100, total_qty = 5, order_count = 2\<rparr>], resp_asks = []\<rparr>"

theorem recovery_exchange_witness:
  "\<exists>c2. serve_turn no_symbol_response duplex_recv duplex_send id (Some sample_provider)
      (Some ((encode_request sample_request, [True]), ([], [False, True]))) new_snapshot_server =
    Some (new_snapshot_server\<lparr>served := 1\<rparr>, Some c2)"
proof -
  have p: "(fst \<circ> fst) ((encode_request sample_request, [True]), ([], [False, True])) = encode_request sample_request @ []"
    by simp
  have k: "27 + 12 * (length (resp_bids (sample_provider sample_request)) +
      length (resp_asks (sample_provider sample_request))) \<le> kMaxFrame"
    by (simp add: sample_provider_def kMaxFrame_def)
  show ?thesis
    using recovery_exchange [where f = sample_provider and q = sample_request, OF duplex_ok p k, of no_symbol_response id new_snapshot_server]
    by (auto simp: new_snapshot_server_def)
qed

end
