(* ===== verification/Book_Replica.thy ===== *)
theory Book_Replica
  imports Book_Snapshot_Codec Tcp_Framing Book_Properties
begin

text \<open>
  \<^verbatim>\<open>BookSnapshotSubscriber\<close> of \<^verbatim>\<open>src/sim/book_snapshot_subscriber.h\<close> and \<^verbatim>\<open>.cpp\<close>: the local copy of
  the books rebuilt from snapshot frames, and its agreement with the publisher's books.
\<close>

section \<open>The subscriber\<close>

record LocalBook =
  lb_bids :: "PriceLevel list"
  lb_asks :: "PriceLevel list"

record BookSnapshotSubscriber =
  sub_books :: "SymbolKey \<rightharpoonup> LocalBook"
  sub_index :: "SymbolKey \<rightharpoonup> Symbol"
  last_sequence :: u64
  frames_applied :: u64

definition new_subscriber :: BookSnapshotSubscriber where
  "new_subscriber = \<lparr>sub_books = Map.empty, sub_index = Map.empty, last_sequence = 0, frames_applied = 0\<rparr>"

definition apply_record :: "BookSnapshotSubscriber \<Rightarrow> BookSnapshotSymbol \<Rightarrow> BookSnapshotSubscriber" where
  "apply_record sub r =
     (let key = symbol_key (bs_symbol r) in
      sub\<lparr>sub_books := (sub_books sub)(key \<mapsto> \<lparr>lb_bids = bs_bids r, lb_asks = bs_asks r\<rparr>),
          sub_index := (sub_index sub)(key \<mapsto> bs_symbol r)\<rparr>)"

definition receive_one :: "'c recv \<Rightarrow> 'c \<Rightarrow> BookSnapshotSubscriber \<Rightarrow> (bool \<times> BookSnapshotSubscriber \<times> 'c) option" where
  "receive_one recv c sub = do {
     (f, c) \<leftarrow> tcp_recv_frame recv c;
     case f of
       None \<Rightarrow> Some (False, sub, c)
     | Some frame \<Rightarrow> do {
         (snap, k) \<leftarrow> decode_book_snapshot frame;
         if \<not> k then Some (False, sub, c)
         else
           let sub = foldl apply_record sub (bs_symbols snap) in
           Some (True, sub\<lparr>last_sequence := bs_sequence snap, frames_applied := frames_applied sub + 1\<rparr>, c) } }"

definition sub_bids :: "BookSnapshotSubscriber \<Rightarrow> Symbol \<Rightarrow> PriceLevel list option" where
  "sub_bids sub sy = (case sub_books sub (symbol_key sy) of None \<Rightarrow> None | Some lb \<Rightarrow> Some (lb_bids lb))"

definition sub_asks :: "BookSnapshotSubscriber \<Rightarrow> Symbol \<Rightarrow> PriceLevel list option" where
  "sub_asks sub sy = (case sub_books sub (symbol_key sy) of None \<Rightarrow> None | Some lb \<Rightarrow> Some (lb_asks lb))"

definition sub_symbols :: "((SymbolKey \<rightharpoonup> Symbol) \<Rightarrow> SymbolKey list) \<Rightarrow> BookSnapshotSubscriber \<Rightarrow> Symbol list" where
  "sub_symbols iter sub = map (\<lambda>k. the (sub_index sub k)) (iter (sub_index sub))"

section \<open>Capture\<close>

text \<open>An enumeration of a map: its keys, each once.\<close>

definition enumerates :: "(('k \<rightharpoonup> 'v) \<Rightarrow> 'k list) \<Rightarrow> bool" where
  "enumerates iter \<longleftrightarrow> (\<forall>m. finite (dom m) \<longrightarrow> set (iter m) = dom m \<and> distinct (iter m))"

definition best :: "PriceLevel list \<Rightarrow> PriceLevel list" where
  "best ls = take kSnapshotMaxLevels ls"

definition book_record :: "DepthBook \<Rightarrow> Symbol \<Rightarrow> BookSnapshotSymbol" where
  "book_record d sy = (case find_book d sy of
     None \<Rightarrow> \<lparr>bs_symbol = sy, bs_bids = [], bs_asks = []\<rparr>
   | Some b \<Rightarrow> \<lparr>bs_symbol = sy, bs_bids = best (top_bids b), bs_asks = best (top_asks b)\<rparr>)"

lemma best_alt: "take (if length ls < kSnapshotMaxLevels then length ls else kSnapshotMaxLevels) ls = best ls"
  by (simp add: best_def)

lemma capture_symbol_alt:
  "capture_symbol d sy = (if find_book d sy = None then None else Some (book_record d sy))"
  by (simp add: capture_symbol_def book_record_def Let_def best_alt split: option.split)

lemma capture_fold:
  "foldl (\<lambda>snap sy. case capture_symbol d sy of None \<Rightarrow> snap | Some r \<Rightarrow> snap\<lparr>bs_symbols := bs_symbols snap @ [r]\<rparr>) s sys =
     s\<lparr>bs_symbols := bs_symbols s @ map (book_record d) (filter (\<lambda>sy. find_book d sy \<noteq> None) sys)\<rparr>"
  by (induction sys arbitrary: s) (auto simp: capture_symbol_alt)

lemma capture_alt:
  "capture_book_snapshot iter d n = \<lparr>bs_sequence = n,
     bs_symbols = map (book_record d) (filter (\<lambda>sy. find_book d sy \<noteq> None) (all_symbols iter d))\<rparr>"
  by (simp add: capture_book_snapshot_def capture_fold)

lemma bs_symbol_book_record [simp]: "bs_symbol (book_record d sy) = sy"
  by (simp add: book_record_def split: option.split)

lemma record_ok_book_record: "record_ok (book_record d sy)"
  by (simp add: record_ok_def book_record_def best_def split: option.split)

lemma tracked_symbols:
  assumes wf: "db_wf d" and iter: "enumerates iter"
  shows "set (all_symbols iter d) = {sy. find_book d sy \<noteq> None}" "distinct (all_symbols iter d)"
    "length (all_symbols iter d) = symbol_count d"
proof -
  have i: "finite (dom (symbol_index d))" "dom (symbol_index d) = dom (books d)"
      "\<And>k sy. symbol_index d k = Some sy \<Longrightarrow> symbol_key sy = k"
    using wf by (auto simp: db_wf_def)
  then have e: "set (iter (symbol_index d)) = dom (books d)" "distinct (iter (symbol_index d))"
    using iter by (auto simp: enumerates_def)
  have key: "symbol_key (the (symbol_index d k)) = k" if "k \<in> dom (books d)" for k
    using that i(2,3) by (metis domD option.sel)
  have "sy \<in> set (all_symbols iter d) \<longleftrightarrow> find_book d sy \<noteq> None" for sy
  proof
    assume "find_book d sy \<noteq> None"
    then have k: "symbol_key sy \<in> dom (books d)" by (auto simp: find_book_def)
    then have "the (symbol_index d (symbol_key sy)) = sy" using key symbol_key_inject by blast
    then show "sy \<in> set (all_symbols iter d)" using k e(1) by (force simp: all_symbols_def)
  next
    assume "sy \<in> set (all_symbols iter d)"
    then obtain k where "k \<in> dom (books d)" "sy = the (symbol_index d k)" using e(1) by (auto simp: all_symbols_def)
    then show "find_book d sy \<noteq> None" using key [of k] by (auto simp: find_book_def)
  qed
  then show "set (all_symbols iter d) = {sy. find_book d sy \<noteq> None}" by blast
  have "inj_on (\<lambda>k. the (symbol_index d k)) (dom (books d))" using key by (intro inj_on_inverseI [where g = symbol_key])
  then show "distinct (all_symbols iter d)" using e by (simp add: all_symbols_def distinct_map)
  show "length (all_symbols iter d) = symbol_count d"
    using e distinct_card [OF e(2)] by (simp add: all_symbols_def symbol_count_def)
qed

lemma capture_records:
  assumes "db_wf d" "enumerates iter"
  shows "capture_book_snapshot iter d n = \<lparr>bs_sequence = n, bs_symbols = map (book_record d) (all_symbols iter d)\<rparr>"
proof -
  have "filter (\<lambda>sy. find_book d sy \<noteq> None) (all_symbols iter d) = all_symbols iter d"
    using tracked_symbols(1) [OF assms] by (auto intro: filter_True)
  then show ?thesis by (simp add: capture_alt)
qed

text \<open>The largest number of symbols whose frame fits the 16 MiB bound of the receiver.\<close>

definition kMaxSymbols :: nat where
  "kMaxSymbols = 67108"

lemma covered_small:
  "list_all record_ok (bs_symbols s) \<Longrightarrow> length (covered_bytes s) \<le> 16 + 250 * length (bs_symbols s)"
proof -
  have "list_all record_ok rs \<Longrightarrow> length (concat (map record_bytes rs)) \<le> 250 * length rs" for rs
    by (induction rs) (simp_all add: length_record_bytes record_ok_def kSnapshotMaxLevels_def)
  then show "list_all record_ok (bs_symbols s) \<Longrightarrow> length (covered_bytes s) \<le> 16 + 250 * length (bs_symbols s)"
    by (simp add: length_covered_bytes)
qed

lemma captured_frame:
  assumes "db_wf d" "enumerates iter" "symbol_count d \<le> kMaxSymbols"
  shows "snapshot_ok (capture_book_snapshot iter d n)" "tcp_frame (encode_book_snapshot (capture_book_snapshot iter d n))"
proof -
  let ?s = "capture_book_snapshot iter d n"
  have r: "list_all record_ok (bs_symbols ?s)"
    by (simp add: capture_records [OF assms(1,2)] list_all_iff record_ok_book_record)
  have l: "length (covered_bytes ?s) \<le> 16 + 250 * kMaxSymbols"
    using covered_small [OF r] assms(3) tracked_symbols(3) [OF assms(1,2)] by (simp add: capture_records [OF assms(1,2)])
  then show "snapshot_ok ?s" using r by (simp add: snapshot_ok_def kMaxSymbols_def)
  show "tcp_frame (encode_book_snapshot ?s)"
    unfolding tcp_frame_def encode_book_snapshot_alt snapshot_frame_def
    using l by (intro exI [of _ "covered_bytes ?s @ be_bytes 4 (crc32 (covered_bytes ?s))"])
      (simp add: kMaxFrame_def kMaxSymbols_def)
qed

section \<open>Applying a snapshot\<close>

lemma apply_records_frame [simp]:
  "last_sequence (foldl apply_record sub rs) = last_sequence sub"
  "frames_applied (foldl apply_record sub rs) = frames_applied sub"
  by (induction rs arbitrary: sub) (simp_all add: apply_record_def Let_def)

lemma apply_records_books:
  "distinct sys \<Longrightarrow> sub_books (foldl apply_record sub (map (book_record d) sys)) (symbol_key sy) =
     (if sy \<in> set sys then Some \<lparr>lb_bids = bs_bids (book_record d sy), lb_asks = bs_asks (book_record d sy)\<rparr>
      else sub_books sub (symbol_key sy))"
  by (induction sys arbitrary: sub) (auto simp: apply_record_def Let_def)

lemma apply_records_index:
  "sub_index (foldl apply_record sub rs) (symbol_key sy) =
     (if sy \<in> bs_symbol ` set rs then Some sy else sub_index sub (symbol_key sy))"
  by (induction rs arbitrary: sub) (auto simp: apply_record_def Let_def)

lemma receive_one_capture:
  assumes wf: "db_wf d" "enumerates iter" "symbol_count d \<le> kMaxSymbols"
    and net: "recv_ok recv pending" "recv_live recv pending stalls"
    and p: "pending c = encode_book_snapshot (capture_book_snapshot iter d n) @ rest"
  shows "\<exists>sub' c'. receive_one recv c sub = Some (True, sub', c') \<and> pending c' = rest \<and>
    last_sequence sub' = n \<and> frames_applied sub' = frames_applied sub + 1 \<and>
    (\<forall>sy. case find_book d sy of
       Some b \<Rightarrow> sub_bids sub' sy = Some (best (top_bids b)) \<and> sub_asks sub' sy = Some (best (top_asks b))
     | None \<Rightarrow> sub_bids sub' sy = sub_bids sub sy \<and> sub_asks sub' sy = sub_asks sub sy)"
proof -
  let ?s = "capture_book_snapshot iter d n" and ?sub = "foldl apply_record sub (map (book_record d) (all_symbols iter d))"
  define sub' where "sub' = ?sub\<lparr>last_sequence := n, frames_applied := frames_applied ?sub + 1\<rparr>"
  obtain c' where c': "tcp_recv_frame recv c = Some (Some (encode_book_snapshot ?s), c')" "pending c' = rest"
    using tcp_recv_frame_live [OF net captured_frame(2) [OF wf] p] by blast
  have dec: "decode_book_snapshot (encode_book_snapshot ?s) = Some (?s, True)"
    using decode_encoded [OF captured_frame(1) [OF wf], of n "[]"] by simp
  have "receive_one recv c sub = Some (True, sub', c')"
    by (simp add: receive_one_def c' dec sub'_def) (simp add: capture_records [OF wf(1,2)])
  moreover have "sub_books sub' (symbol_key sy) = (case find_book d sy of
      Some b \<Rightarrow> Some \<lparr>lb_bids = best (top_bids b), lb_asks = best (top_asks b)\<rparr>
    | None \<Rightarrow> sub_books sub (symbol_key sy))" for sy
    using apply_records_books [OF tracked_symbols(2) [OF wf(1,2)], of sub d sy] tracked_symbols(1) [OF wf(1,2)]
    by (auto simp: sub'_def book_record_def split: option.split)
  ultimately show ?thesis
    using c'(2) by (auto simp: sub_bids_def sub_asks_def sub'_def split: option.splits)
qed

lemma best_spec: "best (spec_bids os n) = spec_bids os (min kSnapshotMaxLevels n)"
  "best (spec_asks os n) = spec_asks os (min kSnapshotMaxLevels n)"
  by (simp_all add: best_def spec_bids_def spec_asks_def take_map)

lemma shown_levels:
  assumes "db_inv d" "find_book d sy = Some b"
  shows "top_bids b = spec_bids (orders_of (global d) (symbol_key sy)) (db_depth d)"
    and "top_asks b = spec_asks (orders_of (global d) (symbol_key sy)) (db_depth d)"
  using snapshot_eq [OF assms(1), of sy] assms(2)
  by (simp_all add: find_book_def snapshot_def market_snapshot_def)

section \<open>Properties\<close>

text \<open>C5: from the feed to a remote replica: after any stream of a well-behaved feed, a subscriber that
  receives the snapshot captured from the books, through any cutting and interruption of the
  stream, holds for every tracked symbol exactly the best ten levels of the live orders the
  messages define, keeps its copy of all other symbols, and has moved to the snapshot's number.\<close>

theorem replica_shows_feed:
  assumes feed: "admissible feed_step msg_ok market_fits Map.empty ms"
    and run: "run_steps apply_state (new_depth_book dep) ms = Some d"
    and iter: "enumerates iter" "symbol_count d \<le> kMaxSymbols"
    and net: "recv_ok recv pending" "recv_live recv pending stalls"
    and p: "pending c = encode_book_snapshot (capture_book_snapshot iter d n) @ rest"
  shows "\<exists>sub' c'. receive_one recv c sub = Some (True, sub', c') \<and> pending c' = rest \<and>
    last_sequence sub' = n \<and> frames_applied sub' = frames_applied sub + 1 \<and>
    (\<forall>sy. let os = orders_of (foldl feed_step Map.empty ms) (symbol_key sy) in
       if find_book d sy = None
       then sub_bids sub' sy = sub_bids sub sy \<and> sub_asks sub' sy = sub_asks sub sy \<and> os = Map.empty
       else sub_bids sub' sy = Some (spec_bids os (min kSnapshotMaxLevels dep)) \<and>
            sub_asks sub' sy = Some (spec_asks os (min kSnapshotMaxLevels dep)))"
proof -
  obtain d' where d': "run_steps apply_state (new_depth_book dep) ms = Some d'" "db_good dep False d'"
      "global d' = foldl feed_step Map.empty ms"
    using db.run_sim [where ms = ms, OF db_good_new [of dep]] feed by auto
  then have d: "db_inv d" "db_depth d = dep" "global d = foldl feed_step Map.empty ms"
    using run by (auto simp: db_good_def)
  obtain sub' c' where r: "receive_one recv c sub = Some (True, sub', c')" "pending c' = rest"
      "last_sequence sub' = n" "frames_applied sub' = frames_applied sub + 1"
      "\<And>sy. case find_book d sy of
         Some b \<Rightarrow> sub_bids sub' sy = Some (best (top_bids b)) \<and> sub_asks sub' sy = Some (best (top_asks b))
       | None \<Rightarrow> sub_bids sub' sy = sub_bids sub sy \<and> sub_asks sub' sy = sub_asks sub sy"
    using receive_one_capture [OF db_inv_wf [OF d(1)] iter net p] by blast
  show ?thesis
  proof (intro exI [of _ sub'] exI [of _ c'] conjI allI)
    fix sy
    show "let os = orders_of (foldl feed_step Map.empty ms) (symbol_key sy) in
       if find_book d sy = None
       then sub_bids sub' sy = sub_bids sub sy \<and> sub_asks sub' sy = sub_asks sub sy \<and> os = Map.empty
       else sub_bids sub' sy = Some (spec_bids os (min kSnapshotMaxLevels dep)) \<and>
            sub_asks sub' sy = Some (spec_asks os (min kSnapshotMaxLevels dep))"
    proof (cases "find_book d sy")
      case None
      then show ?thesis using r(5) [of sy] orders_of_global_None [of d "symbol_key sy"] d(3)
        by (simp add: find_book_def)
    next
      case (Some b)
      then show ?thesis using r(5) [of sy] shown_levels [OF d(1) Some] d(2,3) by (simp add: best_spec)
    qed
  qed (use r in auto)
qed

text \<open>C40: a frame that does not arrive whole, or that the decoder rejects, leaves the replica as it was, and
  no bytes from the publisher make the subscriber read out of bounds.\<close>

theorem replica_all_or_nothing:
  assumes "tcp_recv_frame recv c = Some (f, c')"
  shows "\<exists>ok sub'. receive_one recv c sub = Some (ok, sub', c') \<and>
    (ok \<longleftrightarrow> (\<exists>s rest. snapshot_ok s \<and> f = Some (encode_book_snapshot s @ rest))) \<and>
    (if ok then frames_applied sub' = frames_applied sub + 1 else sub' = sub)"
proof (cases f)
  case None
  then show ?thesis using assms by (intro exI [of _ False] exI [of _ sub]) (simp add: receive_one_def)
next
  case (Some xs)
  obtain s k where k: "decode_book_snapshot xs = Some (s, k)"
      "k \<Longrightarrow> snapshot_ok s \<and> (\<exists>rest. xs = encode_book_snapshot s @ rest)"
    by (rule decode_result [of xs]) blast
  have "k" if "snapshot_ok s'" "xs = encode_book_snapshot s' @ rest" for s' rest
    using decode_encoded [OF that(1), of rest] that(2) k(1) by simp
  then show ?thesis using assms k Some by (auto simp: receive_one_def Let_def)
qed

theorem replica_all_or_nothing_witness:
  "\<exists>ok sub' c'. receive_one script_recv ([1, 2], [True]) new_subscriber = Some (ok, sub', c') \<and>
     (if ok then frames_applied sub' = frames_applied new_subscriber + 1 else sub' = new_subscriber)"
proof -
  have "recv_fill script_recv 4 [] ([1, 2], [True]) = Some (None, ([], []))"
    by (simp add: recv_fill.simps)
  then have "tcp_recv_frame script_recv ([1, 2], [True]) = Some (None, ([], []))"
    by (simp add: tcp_recv_frame_def)
  from replica_all_or_nothing [OF this, of new_subscriber] show ?thesis by blast
qed

definition sorted_iter :: "(SymbolKey \<rightharpoonup> Symbol) \<Rightarrow> SymbolKey list" where
  "sorted_iter m = sorted_list_of_set (dom m)"

lemma enumerates_sorted: "enumerates sorted_iter"
  by (simp add: enumerates_def sorted_iter_def)

theorem replica_shows_feed_witness:
  "\<exists>d c sub' c'. run_steps apply_state (new_depth_book 5) [add_msg 7 0x41 300] = Some d \<and>
     receive_one script_recv c new_subscriber = Some (True, sub', c') \<and> last_sequence sub' = 1"
proof -
  let ?ms = "[add_msg 7 0x41 300]"
  obtain d where d: "run_steps apply_state (new_depth_book 5) ?ms = Some d" "symbol_count d = 1"
    by (simp add: apply_state_def apply_msg_def add_msg_def apply_add_def book_for_def new_depth_book_def
        symbol_count_def emit_snapshot_def Let_def add_order_def new_book_def split: prod.splits)
  have feed: "admissible feed_step msg_ok market_fits Map.empty ?ms"
    by (auto simp: add_msg_def id_free_def market_add_def intro!: market_fits_small)
  have small: "symbol_count d \<le> kMaxSymbols" by (simp add: d(2) kMaxSymbols_def)
  let ?c = "(encode_book_snapshot (capture_book_snapshot sorted_iter d 1), [True, False])"
  obtain sub' c' where "receive_one script_recv ?c new_subscriber = Some (True, sub', c')" "last_sequence sub' = 1"
    using replica_shows_feed [OF feed d(1) enumerates_sorted small script_recv_ok script_recv_live,
      where c = ?c and rest = "[]" and n = 1 and sub = new_subscriber] by auto
  then show ?thesis using d(1) by blast
qed

end
