(* ===== verification/Snapshot_Publisher.thy ===== *)
theory Snapshot_Publisher
  imports Book_Replica
begin

text \<open>
  \<^verbatim>\<open>BookSnapshotPublisher\<close> of \<^verbatim>\<open>src/sim/book_snapshot_publisher.h\<close> and \<^verbatim>\<open>.cpp\<close>: when a snapshot is
  taken, its number, its delivery to every subscriber, and the lock the publisher thread shares
  with the thread that applies the feed. A subscriber is its connection; times are nanoseconds of
  the steady clock.
\<close>

section \<open>State\<close>

record BookSnapshotPolicy =
  interval_ms :: int
  every_messages :: u64

record 'c BookSnapshotPublisher =
  policy :: BookSnapshotPolicy
  msg_counter :: u64
  published :: u64
  pub_seq :: u64
  last_msg_mark :: u64
  last_publish :: int
  subscribers :: "'c list"

definition start_publisher :: "BookSnapshotPolicy \<Rightarrow> int \<Rightarrow> 'c BookSnapshotPublisher" where
  "start_publisher pol now =
     \<lparr>policy = pol, msg_counter = 0, published = 0, pub_seq = 0, last_msg_mark = 0,
      last_publish = now, subscribers = []\<rparr>"

definition note_message :: "'c BookSnapshotPublisher \<Rightarrow> 'c BookSnapshotPublisher" where
  "note_message p = p\<lparr>msg_counter := msg_counter p + 1\<rparr>"

section \<open>Operations\<close>

definition should_publish :: "'c BookSnapshotPublisher \<Rightarrow> int \<Rightarrow> u64 \<Rightarrow> bool" where
  "should_publish p now msgs =
     (if every_messages (policy p) \<noteq> 0 \<and> msgs - last_msg_mark p \<ge> every_messages (policy p) then True
      else if interval_ms (policy p) \<noteq> 0 \<and> now - last_publish p \<ge> interval_ms (policy p) * 1000000 then True
      else False)"

definition accept_subscriber :: "'c option \<Rightarrow> 'c BookSnapshotPublisher \<Rightarrow> 'c BookSnapshotPublisher" where
  "accept_subscriber cfd p =
     (case cfd of None \<Rightarrow> p | Some c \<Rightarrow> p\<lparr>subscribers := subscribers p @ [c]\<rparr>)"

definition mark_publish :: "int \<Rightarrow> u64 \<Rightarrow> 'c BookSnapshotPublisher \<Rightarrow> 'c BookSnapshotPublisher" where
  "mark_publish now msgs p = p\<lparr>last_publish := now, last_msg_mark := msgs\<rparr>"

definition capture_next :: "((SymbolKey \<rightharpoonup> Symbol) \<Rightarrow> SymbolKey list) \<Rightarrow> DepthBook \<Rightarrow>
    'c BookSnapshotPublisher \<Rightarrow> BookSnapshot \<times> 'c BookSnapshotPublisher" where
  "capture_next iter d p =
     (let p = p\<lparr>pub_seq := pub_seq p + 1\<rparr> in (capture_book_snapshot iter d (pub_seq p), p))"

text \<open>The subscribers kept and those closed, in order.\<close>

fun push_frame :: "'c send \<Rightarrow> ('c \<Rightarrow> 'c) \<Rightarrow> byte list \<Rightarrow> 'c list \<Rightarrow> ('c list \<times> 'c list) option" where
  "push_frame send close frame [] = Some ([], [])"
| "push_frame send close frame (c # cs) = do {
     (k, c) \<leftarrow> tcp_send_all send frame c;
     (live, closed) \<leftarrow> push_frame send close frame cs;
     Some (if k then (c # live, closed) else (live, close c # closed)) }"

text \<open>One turn of \<^verbatim>\<open>run\<close>; \<^verbatim>\<open>d\<close> is the book when the lock is held.\<close>

definition publish_turn :: "'c send \<Rightarrow> ('c \<Rightarrow> 'c) \<Rightarrow> ((SymbolKey \<rightharpoonup> Symbol) \<Rightarrow> SymbolKey list) \<Rightarrow>
    'c option \<Rightarrow> int \<Rightarrow> DepthBook \<Rightarrow> 'c BookSnapshotPublisher \<Rightarrow> (byte list option \<times> 'c BookSnapshotPublisher) option" where
  "publish_turn send close iter cfd now d p =
     (let p = accept_subscriber cfd p; msgs = msg_counter p in
      if \<not> should_publish p now msgs then Some (None, p)
      else
        let (snap, p) = capture_next iter d (mark_publish now msgs p); frame = encode_book_snapshot snap in do {
        (live, closed) \<leftarrow> push_frame send close frame (subscribers p);
        Some (Some frame, p\<lparr>subscribers := live, published := published p + 1\<rparr>) })"

section \<open>The trigger\<close>

text \<open>The counter may wrap: the difference still counts the messages since the last mark.\<close>

lemma count_since_mark:
  "j < 2 ^ 64 \<Longrightarrow> unat (last_msg_mark p + of_nat j - last_msg_mark p :: u64) = j"
  by (simp add: unat_of_nat_small)

section \<open>Delivery\<close>

lemma push_frame_run:
  assumes ok: "send_ok send sent" "send_stalls send stalls"
  shows "\<exists>live closed. push_frame send close frame cs = Some (live, closed) \<and>
    length live + length closed = length cs \<and>
    (\<forall>c' \<in> set live. \<exists>c \<in> set cs. tcp_send_all send frame c = Some (True, c') \<and> sent c' = sent c @ frame) \<and>
    (\<forall>c \<in> set cs. \<forall>c'. tcp_send_all send frame c = Some (True, c') \<longrightarrow> c' \<in> set live)"
proof (induction cs)
  case (Cons c cs)
  obtain k c' where k: "tcp_send_all send frame c = Some (k = length frame, c')" "k \<le> length frame"
      "sent c' = sent c @ take k frame"
    using tcp_send_all_run [OF ok] by blast
  then show ?case using Cons by (cases "k = length frame") force+
qed simp

section \<open>Many turns\<close>

text \<open>What a turn meets: messages noted before it, a connection, the time and the book.\<close>

record 'c turn =
  t_noted :: nat
  t_accept :: "'c option"
  t_now :: int
  t_book :: DepthBook

fun publish_run :: "'c send \<Rightarrow> ('c \<Rightarrow> 'c) \<Rightarrow> ((SymbolKey \<rightharpoonup> Symbol) \<Rightarrow> SymbolKey list) \<Rightarrow>
    'c turn list \<Rightarrow> 'c BookSnapshotPublisher \<Rightarrow> (byte list list \<times> 'c BookSnapshotPublisher) option" where
  "publish_run send close iter [] p = Some ([], p)"
| "publish_run send close iter (t # us) p = do {
     (f, p) \<leftarrow> publish_turn send close iter (t_accept t) (t_now t) (t_book t) ((note_message ^^ t_noted t) p);
     (fs, p) \<leftarrow> publish_run send close iter us p;
     Some (case f of None \<Rightarrow> fs | Some f \<Rightarrow> f # fs, p) }"

lemma note_messages [simp]:
  "(note_message ^^ n) p = p\<lparr>msg_counter := msg_counter p + of_nat n\<rparr>"
  by (induction n) (simp_all add: note_message_def add.assoc)

lemma publish_turn_run:
  fixes d :: DepthBook and send :: "'c send"
  assumes ok: "send_ok send sent" "send_stalls send stalls"
  shows "\<exists>f p'. publish_turn send close iter cfd now d p = Some (f, p') \<and>
    (case f of
       None \<Rightarrow> p' = accept_subscriber cfd p
     | Some f \<Rightarrow> pub_seq p' = pub_seq p + 1 \<and> published p' = published p + 1 \<and>
         f = encode_book_snapshot (capture_book_snapshot iter d (pub_seq p')) \<and>
         (\<forall>c' \<in> set (subscribers p'). \<exists>c \<in> set (subscribers (accept_subscriber cfd p)). sent c' = sent c @ f))"
proof (cases "should_publish (accept_subscriber cfd p) now (msg_counter (accept_subscriber cfd p))")
  case False
  then show ?thesis by (simp add: publish_turn_def)
next
  case True
  let ?p = "accept_subscriber cfd p"
  let ?f = "encode_book_snapshot (capture_book_snapshot iter d (pub_seq ?p + 1))"
  obtain live closed where "push_frame send close ?f (subscribers ?p) = Some (live, closed)"
      "\<forall>c' \<in> set live. \<exists>c \<in> set (subscribers ?p). sent c' = sent c @ ?f"
    using push_frame_run [OF ok, of close ?f "subscribers ?p"] by blast
  moreover have "pub_seq ?p = pub_seq p" "published ?p = published p"
    by (simp_all add: accept_subscriber_def split: option.split)
  ultimately show ?thesis using True
    by (simp add: publish_turn_def capture_next_def mark_publish_def Let_def)
qed

text \<open>Each subscriber has the frames published since it was accepted, whole and in order.\<close>

definition served_by :: "('c \<Rightarrow> byte list) \<Rightarrow> 'c set \<Rightarrow> byte list list \<Rightarrow> 'c \<Rightarrow> bool" where
  "served_by sent start fs c \<longleftrightarrow> (\<exists>c0 \<in> start. \<exists>k \<le> length fs. sent c = sent c0 @ concat (drop k fs))"

lemma served_by_new: "c \<in> start \<Longrightarrow> served_by sent start fs c"
  unfolding served_by_def by (intro bexI [of _ c] exI [of _ "length fs"]) simp_all

lemma served_by_snoc:
  assumes "served_by sent start fs c" "sent c' = sent c @ f"
  shows "served_by sent start (fs @ [f]) c'"
proof -
  obtain c0 k where "c0 \<in> start" "k \<le> length fs" "sent c = sent c0 @ concat (drop k fs)"
    using assms(1) by (auto simp: served_by_def)
  then show ?thesis using assms(2) unfolding served_by_def by (intro bexI [of _ c0] exI [of _ k]) simp_all
qed

definition numbered :: "((SymbolKey \<rightharpoonup> Symbol) \<Rightarrow> SymbolKey list) \<Rightarrow> nat \<Rightarrow> DepthBook set \<Rightarrow> byte list list \<Rightarrow> bool" where
  "numbered iter n ds fs \<longleftrightarrow>
     (\<forall>i < length fs. \<exists>d \<in> ds. fs ! i = encode_book_snapshot (capture_book_snapshot iter d (of_nat (n + Suc i))))"

lemma numbered_snoc:
  "numbered iter n ds fs \<Longrightarrow> d \<in> ds \<Longrightarrow>
   f = encode_book_snapshot (capture_book_snapshot iter d (of_nat (n + Suc (length fs)))) \<Longrightarrow>
   numbered iter n ds (fs @ [f])"
  by (auto simp: numbered_def nth_append less_Suc_eq)

lemma publish_run_invariant:
  fixes send :: "'c send"
  assumes ok: "send_ok send sent" "send_stalls send stalls"
  shows "numbered iter 0 ds fs \<Longrightarrow> pub_seq p = of_nat (length fs) \<Longrightarrow> published p = of_nat (length fs) \<Longrightarrow>
    \<forall>c \<in> set (subscribers p). served_by sent start fs c \<Longrightarrow>
    t_book ` set us \<subseteq> ds \<Longrightarrow> {c. Some c \<in> t_accept ` set us} \<subseteq> start \<Longrightarrow>
    \<exists>gs p'. publish_run send close iter us p = Some (gs, p') \<and> numbered iter 0 ds (fs @ gs) \<and>
      pub_seq p' = of_nat (length (fs @ gs)) \<and> published p' = of_nat (length (fs @ gs)) \<and>
      (\<forall>c \<in> set (subscribers p'). served_by sent start (fs @ gs) c)"
proof (induction us arbitrary: fs p)
  case (Cons t us)
  let ?p = "p\<lparr>msg_counter := msg_counter p + of_nat (t_noted t)\<rparr>"
  obtain f p1 where t: "publish_turn send close iter (t_accept t) (t_now t) (t_book t) ?p = Some (f, p1)"
    and res: "case f of None \<Rightarrow> p1 = accept_subscriber (t_accept t) ?p
       | Some f \<Rightarrow> pub_seq p1 = pub_seq ?p + 1 \<and> published p1 = published ?p + 1 \<and>
         f = encode_book_snapshot (capture_book_snapshot iter (t_book t) (pub_seq p1)) \<and>
         (\<forall>c' \<in> set (subscribers p1). \<exists>c \<in> set (subscribers (accept_subscriber (t_accept t) ?p)). sent c' = sent c @ f)"
    using publish_turn_run [OF ok, of close iter "t_accept t" "t_now t" "t_book t" ?p] by blast
  have acc: "served_by sent start fs c" if "c \<in> set (subscribers (accept_subscriber (t_accept t) ?p))" for c
  proof (cases "c \<in> set (subscribers p)")
    case False
    then have "t_accept t = Some c" using that by (auto simp: accept_subscriber_def split: option.splits)
    then have "c \<in> start" using Cons.prems(6) by auto
    then show ?thesis by (rule served_by_new)
  qed (use Cons.prems(4) in blast)
  have sub: "t_book ` set us \<subseteq> ds" "{c. Some c \<in> t_accept ` set us} \<subseteq> start" "t_book t \<in> ds"
    using Cons.prems(5,6) by auto
  show ?case
  proof (cases f)
    case None
    then have p1: "p1 = accept_subscriber (t_accept t) ?p" using res by simp
    then have "pub_seq p1 = pub_seq p" "published p1 = published p"
      by (simp_all add: accept_subscriber_def split: option.split)
    then obtain gs p' where "publish_run send close iter us p1 = Some (gs, p')" "numbered iter 0 ds (fs @ gs)"
        "pub_seq p' = of_nat (length (fs @ gs))" "published p' = of_nat (length (fs @ gs))"
        "\<forall>c \<in> set (subscribers p'). served_by sent start (fs @ gs) c"
      using Cons.IH [OF Cons.prems(1) _ _ _ sub(1,2), of p1] Cons.prems(2,3) acc p1 by auto
    then show ?thesis using t None by simp
  next
    case (Some g)
    have g: "numbered iter 0 ds (fs @ [g])"
      using res Some Cons.prems(2) by (intro numbered_snoc [OF Cons.prems(1) sub(3)]) (simp add: add.commute)
    have "\<forall>c \<in> set (subscribers p1). served_by sent start (fs @ [g]) c"
      using res Some acc served_by_snoc by fastforce
    then obtain gs p' where "publish_run send close iter us p1 = Some (gs, p')" "numbered iter 0 ds ((fs @ [g]) @ gs)"
        "pub_seq p' = of_nat (length ((fs @ [g]) @ gs))" "published p' = of_nat (length ((fs @ [g]) @ gs))"
        "\<forall>c \<in> set (subscribers p'). served_by sent start ((fs @ [g]) @ gs) c"
      using Cons.IH [OF g _ _ _ sub(1,2), of p1] res Some Cons.prems(2,3) by (auto simp: add.commute)
    then show ?thesis using t Some by simp
  qed
qed simp

section \<open>Properties\<close>

text \<open>With the time trigger off, a turn publishes exactly when at least the configured number of
  messages has been noted since the last mark, also after the message counter has wrapped.\<close>

theorem count_trigger_exact:
  assumes "interval_ms (policy p) = 0" and "every_messages (policy p) \<noteq> 0"
    and "msg_counter p = last_msg_mark p + of_nat j" and "j < 2 ^ 64"
  shows "should_publish p now (msg_counter p) \<longleftrightarrow> unat (every_messages (policy p)) \<le> j"
proof -
  have "every_messages (policy p) \<le> msg_counter p - last_msg_mark p \<longleftrightarrow> unat (every_messages (policy p)) \<le> j"
    using count_since_mark [OF assms(4), of p] by (simp only: assms(3) word_le_nat_alt)
  then show ?thesis using assms(1,2) by (simp add: should_publish_def)
qed

theorem count_trigger_exact_witness:
  "should_publish (start_publisher \<lparr>interval_ms = 0, every_messages = 3\<rparr> 0\<lparr>msg_counter := 1, last_msg_mark := -2\<rparr>)
     5 1 \<longleftrightarrow> unat (3 :: u64) \<le> 3"
  using count_trigger_exact [of "start_publisher \<lparr>interval_ms = 0, every_messages = 3\<rparr> 0\<lparr>msg_counter := 1, last_msg_mark := -2\<rparr>" 3 5]
  by (simp add: start_publisher_def)



end
