(* ===== verification/Publisher_Lock.thy ===== *)
theory Publisher_Lock
  imports Snapshot_Publisher "HOL-Library.Sublist"
begin

text \<open>
  The publisher thread of \<^verbatim>\<open>src/sim/book_snapshot_publisher.cpp\<close> beside the thread that applies the
  feed: a step relation over the book, the mutex the two threads share, and the flag
  \<^verbatim>\<open>holding_lock_\<close>. The feed thread follows the documented use: it holds the mutex while it changes
  the book, and a change takes time (it begins and ends in separate steps).
\<close>

section \<open>State\<close>

datatype thread = Feed | Pub

text \<open>Where the publisher thread stands in \<^verbatim>\<open>run\<close> and \<^verbatim>\<open>capture_frame\<close>.\<close>

datatype pc = Polling | Locking | Marking | Reading | Copied BookSnapshot | Unlocking BookSnapshot
  | Encoding BookSnapshot | Sending "byte list"

record 'c world =
  w_book :: DepthBook
  w_mutating :: bool
  w_mutex :: "thread option"
  w_holding :: bool
  w_pc :: pc
  w_pub :: "'c BookSnapshotPublisher"
  w_applied :: "AnyMessage list"

definition start_world :: "nat \<Rightarrow> BookSnapshotPolicy \<Rightarrow> int \<Rightarrow> 'c world" where
  "start_world n pol now =
     \<lparr>w_book = new_depth_book n, w_mutating = False, w_mutex = None, w_holding = False, w_pc = Polling,
      w_pub = start_publisher pol now, w_applied = []\<rparr>"

section \<open>Steps\<close>

inductive lock_step :: "'c send \<Rightarrow> ('c \<Rightarrow> 'c) \<Rightarrow> ((SymbolKey \<rightharpoonup> Symbol) \<Rightarrow> SymbolKey list) \<Rightarrow>
    'c world \<Rightarrow> 'c world \<Rightarrow> bool" for send close iter where
  feed_lock: "w_mutex w = None \<Longrightarrow> lock_step send close iter w (w\<lparr>w_mutex := Some Feed\<rparr>)"
| feed_begin: "w_mutex w = Some Feed \<Longrightarrow> \<not> w_mutating w \<Longrightarrow>
    lock_step send close iter w (w\<lparr>w_mutating := True\<rparr>)"
| feed_end: "w_mutating w \<Longrightarrow> apply_state (w_book w) m = Some d \<Longrightarrow>
    lock_step send close iter w (w\<lparr>w_mutating := False, w_book := d, w_applied := w_applied w @ [m]\<rparr>)"
| feed_unlock: "w_mutex w = Some Feed \<Longrightarrow> \<not> w_mutating w \<Longrightarrow>
    lock_step send close iter w (w\<lparr>w_mutex := None\<rparr>)"
| feed_note: "lock_step send close iter w (w\<lparr>w_pub := note_message (w_pub w)\<rparr>)"
| pub_continue: "w_pc w = Polling \<Longrightarrow> p = accept_subscriber cfd (w_pub w) \<Longrightarrow>
    \<not> should_publish p now (msg_counter p) \<Longrightarrow> lock_step send close iter w (w\<lparr>w_pub := p\<rparr>)"
| pub_trigger: "w_pc w = Polling \<Longrightarrow> p = accept_subscriber cfd (w_pub w) \<Longrightarrow>
    should_publish p now (msg_counter p) \<Longrightarrow>
    lock_step send close iter w (w\<lparr>w_pub := mark_publish now (msg_counter p) p, w_pc := Locking\<rparr>)"
| pub_lock: "w_pc w = Locking \<Longrightarrow> w_mutex w = None \<Longrightarrow>
    lock_step send close iter w (w\<lparr>w_mutex := Some Pub, w_pc := Marking\<rparr>)"
| pub_hold: "w_pc w = Marking \<Longrightarrow> lock_step send close iter w (w\<lparr>w_holding := True, w_pc := Reading\<rparr>)"
| pub_read: "w_pc w = Reading \<Longrightarrow> capture_next iter (w_book w) (w_pub w) = (snap, p) \<Longrightarrow>
    lock_step send close iter w (w\<lparr>w_pub := p, w_pc := Copied snap\<rparr>)"
| pub_release: "w_pc w = Copied snap \<Longrightarrow>
    lock_step send close iter w (w\<lparr>w_holding := False, w_pc := Unlocking snap\<rparr>)"
| pub_unlock: "w_pc w = Unlocking snap \<Longrightarrow>
    lock_step send close iter w (w\<lparr>w_mutex := None, w_pc := Encoding snap\<rparr>)"
| pub_encode: "w_pc w = Encoding snap \<Longrightarrow>
    lock_step send close iter w (w\<lparr>w_pc := Sending (encode_book_snapshot snap)\<rparr>)"
| pub_send: "w_pc w = Sending frame \<Longrightarrow>
    push_frame send close frame (subscribers (w_pub w)) = Some (kept, closed) \<Longrightarrow>
    lock_step send close iter w (w\<lparr>w_pub := (w_pub w)\<lparr>subscribers := kept, published := published (w_pub w) + 1\<rparr>,
      w_pc := Polling\<rparr>)"

inductive_cases lock_stepE: "lock_step send close iter w w'"

section \<open>The invariant\<close>

fun has_lock :: "pc \<Rightarrow> bool" where
  "has_lock Marking = True"
| "has_lock Reading = True"
| "has_lock (Copied _) = True"
| "has_lock (Unlocking _) = True"
| "has_lock _ = False"

fun flagged :: "pc \<Rightarrow> bool" where
  "flagged Reading = True"
| "flagged (Copied _) = True"
| "flagged _ = False"

definition lock_inv :: "'c world \<Rightarrow> bool" where
  "lock_inv w \<longleftrightarrow> (w_mutating w \<longrightarrow> w_mutex w = Some Feed) \<and> (w_mutex w = Some Pub \<longleftrightarrow> has_lock (w_pc w)) \<and>
     (w_holding w \<longleftrightarrow> flagged (w_pc w))"

lemma lock_inv_step: "lock_step send close iter w w' \<Longrightarrow> lock_inv w \<Longrightarrow> lock_inv w'"
  by (induction rule: lock_step.induct) (auto simp: lock_inv_def)

text \<open>The snapshot taken is that of the book after a whole number of messages.\<close>

definition taken_from :: "nat \<Rightarrow> ((SymbolKey \<rightharpoonup> Symbol) \<Rightarrow> SymbolKey list) \<Rightarrow> AnyMessage list \<Rightarrow> u64 \<Rightarrow>
    BookSnapshot \<Rightarrow> bool" where
  "taken_from n iter applied sq s \<longleftrightarrow> (\<exists>ms d. prefix ms applied \<and>
     run_steps apply_state (new_depth_book n) ms = Some d \<and> s = capture_book_snapshot iter d sq)"

fun pc_snapshot :: "pc \<Rightarrow> (BookSnapshot \<Rightarrow> bool) \<Rightarrow> bool" where
  "pc_snapshot (Copied s) P = P s"
| "pc_snapshot (Unlocking s) P = P s"
| "pc_snapshot (Encoding s) P = P s"
| "pc_snapshot (Sending f) P = (\<exists>s. P s \<and> f = encode_book_snapshot s)"
| "pc_snapshot _ P = True"

definition data_inv :: "nat \<Rightarrow> ((SymbolKey \<rightharpoonup> Symbol) \<Rightarrow> SymbolKey list) \<Rightarrow> 'c world \<Rightarrow> bool" where
  "data_inv n iter w \<longleftrightarrow> run_steps apply_state (new_depth_book n) (w_applied w) = Some (w_book w) \<and>
     pc_snapshot (w_pc w) (taken_from n iter (w_applied w) (pub_seq (w_pub w)))"

lemma pc_snapshot_mono: "pc_snapshot c P \<Longrightarrow> (\<And>s. P s \<Longrightarrow> Q s) \<Longrightarrow> pc_snapshot c Q"
  by (cases c) auto

lemma taken_from_snoc: "taken_from n iter ms sq s \<Longrightarrow> taken_from n iter (ms @ [m]) sq s"
  unfolding taken_from_def using prefix_prefix by blast

lemma pub_seq_frame [simp]:
  "pub_seq (accept_subscriber cfd p) = pub_seq p" "pub_seq (mark_publish now msgs p) = pub_seq p"
  "pub_seq (note_message p) = pub_seq p"
  by (simp_all add: accept_subscriber_def mark_publish_def note_message_def split: option.split)

lemma data_inv_step: "lock_step send close iter w w' \<Longrightarrow> data_inv n iter w \<Longrightarrow> data_inv n iter w'"
proof (induction rule: lock_step.induct)
  case (feed_end w m d)
  then show ?case
    using pc_snapshot_mono [of "w_pc w", OF _ taken_from_snoc] by (auto simp: data_inv_def run_steps_append)
next
  case (pub_read w snap p)
  then have "taken_from n iter (w_applied w) (pub_seq p) snap"
    unfolding taken_from_def
    by (intro exI [of _ "w_applied w"] exI [of _ "w_book w"]) (auto simp: capture_next_def Let_def data_inv_def)
  then show ?case using pub_read by (simp add: data_inv_def)
qed (auto simp: data_inv_def)

section \<open>Reachable states\<close>

abbreviation lock_steps :: "'c send \<Rightarrow> ('c \<Rightarrow> 'c) \<Rightarrow> ((SymbolKey \<rightharpoonup> Symbol) \<Rightarrow> SymbolKey list) \<Rightarrow>
    'c world \<Rightarrow> 'c world \<Rightarrow> bool" where
  "lock_steps send close iter \<equiv> (lock_step send close iter)\<^sup>*\<^sup>*"

lemma reachable_inv:
  assumes "lock_steps send close iter (start_world n pol now) w"
  shows "lock_inv w" "data_inv n iter w"
proof -
  have "lock_inv w \<and> data_inv n iter w"
    using assms
    by (induction rule: rtranclp_induct)
      (auto simp: lock_inv_def data_inv_def start_world_def dest: lock_inv_step data_inv_step)
  then show "lock_inv w" "data_inv n iter w" by simp_all
qed

text \<open>A run that reaches the sending of a frame.\<close>

definition eager_policy :: BookSnapshotPolicy where
  "eager_policy = \<lparr>interval_ms = 0, every_messages = 1\<rparr>"

lemma sending_reachable:
  fixes send :: "'c send"
  shows "\<exists>(w :: 'c world) f. lock_steps send close iter (start_world n eager_policy 0) w \<and> w_pc w = Sending f"
proof -
  let ?w0 = "start_world n eager_policy 0 :: 'c world"
  let ?w1 = "?w0\<lparr>w_pub := note_message (w_pub ?w0)\<rparr>"
  let ?w2 = "?w1\<lparr>w_pub := mark_publish 0 (msg_counter (w_pub ?w1)) (w_pub ?w1), w_pc := Locking\<rparr>"
  let ?w3 = "?w2\<lparr>w_mutex := Some Pub, w_pc := Marking\<rparr>"
  let ?w4 = "?w3\<lparr>w_holding := True, w_pc := Reading\<rparr>"
  obtain snap p where sp: "capture_next iter (w_book ?w4) (w_pub ?w4) = (snap, p)" by force
  let ?w5 = "?w4\<lparr>w_pub := p, w_pc := Copied snap\<rparr>"
  let ?w6 = "?w5\<lparr>w_holding := False, w_pc := Unlocking snap\<rparr>"
  let ?w7 = "?w6\<lparr>w_mutex := None, w_pc := Encoding snap\<rparr>"
  let ?w8 = "?w7\<lparr>w_pc := Sending (encode_book_snapshot snap)\<rparr>"
  let ?S = "lock_step send close iter"
  have "?S ?w0 ?w1" by (rule feed_note)
  moreover have "?S ?w1 ?w2"
    by (rule pub_trigger [where cfd = None])
      (simp_all add: start_world_def accept_subscriber_def should_publish_def note_message_def
        start_publisher_def eager_policy_def)
  moreover have "?S ?w2 ?w3" by (rule pub_lock) (simp_all add: start_world_def)
  moreover have "?S ?w3 ?w4" by (rule pub_hold) simp
  moreover have "?S ?w4 ?w5" by (rule pub_read [OF _ sp]) simp
  moreover have "?S ?w5 ?w6" by (rule pub_release) simp
  moreover have "?S ?w6 ?w7" by (rule pub_unlock) simp
  moreover have "?S ?w7 ?w8" by (rule pub_encode) simp
  ultimately have "?S\<^sup>*\<^sup>* ?w0 ?w8" by (meson rtranclp.rtrancl_into_rtrancl rtranclp.rtrancl_refl)
  then show ?thesis by (intro exI [of _ ?w8] exI [of _ "encode_book_snapshot snap"]) simp
qed

section \<open>Properties\<close>

text \<open>C19: the lock discipline: in no interleaving of the two threads does the publisher read the book while
  it is being changed; \<^verbatim>\<open>holding_book_lock\<close> is true only while the publisher has the mutex; and
  while it encodes or sends it neither holds the mutex nor shows the flag, so that a slow
  subscriber never keeps the feed thread from the book.\<close>

theorem publisher_lock_discipline:
  assumes "lock_steps send close iter (start_world n pol now) w"
  shows "(w_pc w = Reading \<longrightarrow> \<not> w_mutating w \<and> w_mutex w = Some Pub) \<and>
    (w_holding w \<longrightarrow> w_mutex w = Some Pub) \<and>
    (\<forall>f. w_pc w = Sending f \<longrightarrow> \<not> w_holding w \<and>
       (w_mutex w = Some Feed \<or> lock_step send close iter w (w\<lparr>w_mutex := Some Feed\<rparr>)))"
proof -
  have inv: "lock_inv w" by (rule reachable_inv(1) [OF assms])
  have "w_mutex w = Some Feed \<or> lock_step send close iter w (w\<lparr>w_mutex := Some Feed\<rparr>)" if "w_pc w = Sending f" for f
  proof (cases "w_mutex w")
    case None
    then show ?thesis by (simp add: feed_lock)
  next
    case (Some t)
    then show ?thesis using inv that by (cases t) (auto simp: lock_inv_def)
  qed
  then show ?thesis using inv by (cases "w_pc w") (auto simp: lock_inv_def)
qed

theorem publisher_lock_discipline_witness:
  "\<exists>w f. lock_steps script_send id sorted_iter (start_world 5 eager_policy 0) w \<and> w_pc w = Sending f \<and> \<not> w_holding w"
proof -
  obtain w f where w: "lock_steps script_send id sorted_iter (start_world 5 eager_policy 0) w" "w_pc w = Sending f"
    using sending_reachable by blast
  show ?thesis using publisher_lock_discipline [OF w(1)] w by blast
qed



end
