(* ===== verification/Histogram.thy ===== *)
theory Histogram
  imports Prelude "HOL-Library.Multiset"
begin

text \<open>
  \<^verbatim>\<open>src/obs/histogram.h\<close> and \<^verbatim>\<open>histogram.cpp\<close>: the log-linear latency histogram. \<^verbatim>\<open>None\<close> is an index
  outside the vector of counts. Floating point appears in \<^verbatim>\<open>percentile\<close> only, as the rank it
  computes from the number of samples, which is the argument \<^verbatim>\<open>rank\<close>.
\<close>

section \<open>State\<close>

definition kSubBucketBits :: int where
  "kSubBucketBits = 6"

definition kSubBuckets :: int where
  "kSubBuckets = 64"

definition kBuckets :: int where
  "kBuckets = 32"

record Histogram =
  h_counts :: "u64 list"
  h_count :: u64
  h_total :: u64
  h_min :: u64
  h_max :: u64

definition new_histogram :: Histogram where
  "new_histogram = \<lparr>h_counts = replicate (nat (kBuckets * kSubBuckets)) 0, h_count = 0, h_total = 0,
     h_min = -1, h_max = 0\<rparr>"

section \<open>Buckets\<close>

text \<open>The portable loop; \<^verbatim>\<open>f\<close> bounds its turns and 64 is enough.\<close>

fun leading_zeros_loop :: "nat \<Rightarrow> u64 \<Rightarrow> int \<Rightarrow> int" where
  "leading_zeros_loop 0 v n = n"
| "leading_zeros_loop (Suc f) v n =
     (if v AND push_bit 63 1 = 0 then leading_zeros_loop f (push_bit 1 v) (n + 1) else n)"

definition leading_zeros_64 :: "u64 \<Rightarrow> int" where
  "leading_zeros_64 v = (if v = 0 then 64 else leading_zeros_loop 64 v 0)"

definition bucket_index :: "u64 \<Rightarrow> int \<times> int" where
  "bucket_index v =
     (if v \<le> 1 then (0, 0)
      else let top_bit = 63 - leading_zeros_64 v; bucket = top_bit - kSubBucketBits in
        if bucket < 0 then (0, sint (ucast v :: u32) - 1)
        else if bucket \<ge> kBuckets then (kBuckets - 1, kSubBuckets - 1)
        else (bucket, sint (ucast (drop_bit (nat bucket) v AND of_int (kSubBuckets - 1)) :: u32)))"

definition bucket_lower_bound :: "int \<Rightarrow> int \<Rightarrow> u64" where
  "bucket_lower_bound bucket sub =
     (if bucket = 0 then of_int sub + 1
      else push_bit (nat bucket) (of_int kSubBuckets + of_int sub))"

definition slot :: "int \<Rightarrow> int \<Rightarrow> nat" where
  "slot b s = unat (of_int b * of_int kSubBuckets + of_int s :: u64)"

section \<open>Operations\<close>

definition record_value :: "Histogram \<Rightarrow> u64 \<Rightarrow> Histogram option" where
  "record_value h v =
     (let (b, s) = bucket_index v; i = slot b s in
      if i < length (h_counts h)
      then Some (h\<lparr>h_counts := (h_counts h)[i := h_counts h ! i + 1], h_count := h_count h + 1,
        h_total := h_total h + v, h_min := (if v < h_min h then v else h_min h),
        h_max := (if v > h_max h then v else h_max h)\<rparr>)
      else None)"

fun add_counts :: "u64 list \<Rightarrow> u64 list \<Rightarrow> u64 list option" where
  "add_counts [] ys = Some []"
| "add_counts (x # xs) [] = None"
| "add_counts (x # xs) (y # ys) = do { zs \<leftarrow> add_counts xs ys; Some ((x + y) # zs) }"

definition merge :: "Histogram \<Rightarrow> Histogram \<Rightarrow> Histogram option" where
  "merge h g = do {
     cs \<leftarrow> add_counts (h_counts h) (h_counts g);
     Some (h\<lparr>h_counts := cs, h_count := h_count h + h_count g, h_total := h_total h + h_total g,
       h_min := min (h_min h) (h_min g), h_max := max (h_max h) (h_max g)\<rparr>) }"

definition reset :: "Histogram \<Rightarrow> Histogram" where
  "reset h = h\<lparr>h_counts := map (\<lambda>x. 0) (h_counts h), h_count := 0, h_total := 0, h_min := -1, h_max := 0\<rparr>"

text \<open>The two nested loops; the result \<^verbatim>\<open>Inl\<close> is the early return.\<close>

fun scan_sub :: "Histogram \<Rightarrow> u64 \<Rightarrow> int \<Rightarrow> int list \<Rightarrow> u64 \<Rightarrow> (u64 + u64) option" where
  "scan_sub h target b [] running = Some (Inr running)"
| "scan_sub h target b (s # ss) running =
     (if slot b s < length (h_counts h)
      then let running = running + h_counts h ! slot b s in
        if running \<ge> target then Some (Inl (bucket_lower_bound b s))
        else scan_sub h target b ss running
      else None)"

fun scan_buckets :: "Histogram \<Rightarrow> u64 \<Rightarrow> int list \<Rightarrow> u64 \<Rightarrow> u64 option" where
  "scan_buckets h target [] running = Some (h_max h)"
| "scan_buckets h target (b # bs) running = do {
     r \<leftarrow> scan_sub h target b [0..kSubBuckets - 1] running;
     case r of Inl x \<Rightarrow> Some x | Inr running \<Rightarrow> scan_buckets h target bs running }"

definition percentile :: "(u64 \<Rightarrow> u64) \<Rightarrow> Histogram \<Rightarrow> u64 option" where
  "percentile rank h =
     (if h_count h = 0 then Some 0
      else scan_buckets h (rank (h_count h)) [0..kBuckets - 1] 0)"

section \<open>The top bit\<close>

lemma top_bit_set: "v AND push_bit 63 1 = 0 \<longleftrightarrow> unat (v :: u64) < 2 ^ 63"
proof -
  have "v AND push_bit 63 1 = 0 \<longleftrightarrow> \<not> bit v 63"
    by (simp only: push_bit_of_1 and_exp_eq_0_iff_not_bit)
  also have "\<dots> \<longleftrightarrow> \<not> bit (unat v) 63" by (simp add: bit_unsigned_iff)
  also have "\<dots> \<longleftrightarrow> unat v < 2 ^ 63"
  proof -
    have "unat v div 2 ^ 63 < 2" using unsigned_less [of v, where 'a = nat] by (simp add: less_mult_imp_div_less)
    then have "odd (unat v div 2 ^ 63) \<longleftrightarrow> unat v div 2 ^ 63 \<noteq> 0" by (metis One_nat_def even_zero less_2_cases odd_one)
    then show ?thesis by (simp only: bit_iff_odd div_eq_0_iff) simp
  qed
  finally show ?thesis .
qed

lemma unat_shift1:
  assumes "unat (v :: u64) < 2 ^ 63"
  shows "unat (push_bit 1 v) = 2 * unat v"
proof -
  have "unat v * unat (2 :: u64) < 2 ^ LENGTH(64)" using assms by simp
  then have "unat (v * 2) = unat v * 2" by (simp only: unat_mult_lem) simp
  then show ?thesis by (simp add: push_bit_eq_mult)
qed

text \<open>The loop stops at the top bit.\<close>

lemma leading_zeros_loop_top:
  assumes "2 ^ t \<le> unat v" "unat v < 2 ^ Suc t" "t \<le> 63" "63 - t < f"
  shows "leading_zeros_loop f v n = n + int (63 - t)"
  using assms
proof (induction f arbitrary: v n t)
  case (Suc f)
  show ?case
  proof (cases "t = 63")
    case True
    then have "\<not> v AND push_bit 63 1 = 0" using Suc.prems(1) True by (simp only: top_bit_set not_less)
    then show ?thesis by (simp only: leading_zeros_loop.simps if_False True diff_self_eq_0 of_nat_0 add_0_right)
  next
    case False
    then have t: "Suc t \<le> 63" using Suc.prems(3) by simp
    have "(2 :: nat) ^ Suc t \<le> 2 ^ 63" using t by (intro power_increasing) simp_all
    then have small: "unat v < 2 ^ 63" using Suc.prems(2) by linarith
    have "leading_zeros_loop f (push_bit 1 v) (n + 1) = n + 1 + int (63 - Suc t)"
      using Suc.prems t unat_shift1 [OF small] by (intro Suc.IH) simp_all
    moreover have "v AND push_bit 63 1 = 0" using small by (simp only: top_bit_set)
    ultimately show ?thesis using t by (simp only: leading_zeros_loop.simps if_True) simp
  qed
qed simp

lemma leading_zeros_top:
  assumes "2 ^ t \<le> unat v" "unat v < 2 ^ Suc t"
  shows "leading_zeros_64 v = 63 - int t"
proof -
  have "(2 :: nat) ^ t < 2 ^ 64" using assms(1) unsigned_less [of v, where 'a = nat] by simp
  then have t: "t \<le> 63" using power_strict_increasing_iff [of "2 :: nat" t 64] by simp
  have "v \<noteq> 0" using assms(1) by (auto simp: not_le)
  then show ?thesis
    using leading_zeros_loop_top [OF assms t, of 64 0] t by (simp add: leading_zeros_64_def of_nat_diff)
qed

lemma top_bit_ex: "0 < n \<Longrightarrow> \<exists>t. 2 ^ t \<le> n \<and> n < (2 :: nat) ^ Suc t"
  using ex_power_ivl1 [of 2 n] by auto

section \<open>Buckets of the values\<close>

lemma sint_small: "unat (v :: u64) < 2 ^ 31 \<Longrightarrow> sint (ucast v :: u32) = int (unat v)"
proof -
  assume "unat v < 2 ^ 31"
  then have "int (unat v) < 2 ^ 31" 
    using of_nat_less_iff [of "unat v" "2 ^ 31", where 'a = int] by (simp only: of_nat_power of_nat_numeral)
  moreover have "- (2 ^ 31) \<le> int (unat v)" by (rule order_trans [of _ 0]) simp_all
  ultimately have "signed_take_bit 31 (int (unat v)) = int (unat v)"
    by (rule signed_take_bit_int_eq_self [rotated])
  moreover have "(ucast v :: u32) = word_of_int (int (unat v))" by (simp only: ucast_eq uint_nat)
  moreover have "sint (word_of_int (int (unat v)) :: u32) = signed_take_bit 31 (int (unat v))"
    by (subst signed_of_int) simp
  ultimately show ?thesis by (simp only:)
qed

lemma low_six: "unat (v AND of_int (kSubBuckets - 1) :: u64) = unat v mod 64"
proof -
  have "(of_int (kSubBuckets - 1) :: u64) = mask 6" by (simp add: kSubBuckets_def mask_eq_exp_minus_1)
  then show ?thesis by (simp add: unsigned_take_bit_eq take_bit_nat_def flip: take_bit_eq_mask)
qed

lemma bucket_tiny: "unat v \<le> 1 \<Longrightarrow> bucket_index v = (0, 0)"
  by (simp add: bucket_index_def word_le_nat_alt)

lemma bucket_small:
  assumes "1 < unat v" "unat v < 64"
  shows "bucket_index v = (0, int (unat v) - 1)"
proof -
  obtain t where t: "2 ^ t \<le> unat v" "unat v < 2 ^ Suc t" using top_bit_ex [of "unat v"] assms by auto
  have "(2 :: nat) ^ t < 2 ^ 6" using t(1) assms(2) by simp
  then have "t < 6" using power_strict_increasing_iff [of "2 :: nat" t 6] by simp
  moreover have "sint (ucast v :: u32) = int (unat v)" by (rule sint_small) (use assms in simp)
  ultimately show ?thesis
    using leading_zeros_top [OF t] assms by (simp add: bucket_index_def kSubBucketBits_def word_le_nat_alt)
qed

lemma bucket_wide:
  assumes t: "2 ^ t \<le> unat v" "unat v < 2 ^ Suc t" and r: "6 \<le> t" "t < 38"
  shows "bucket_index v = (int t - 6, int (unat v div 2 ^ (t - 6)) - 64)"
    and "64 \<le> unat v div 2 ^ (t - 6)" "unat v div 2 ^ (t - 6) < 128"
proof -
  let ?q = "unat v div 2 ^ (t - 6)"
  have p: "(2 :: nat) ^ t = 64 * 2 ^ (t - 6)" "(2 :: nat) ^ Suc t = 128 * 2 ^ (t - 6)"
  proof -
    obtain k where "t = 6 + k" using le_Suc_ex [OF r(1)] by blast
    then show "(2 :: nat) ^ t = 64 * 2 ^ (t - 6)" "(2 :: nat) ^ Suc t = 128 * 2 ^ (t - 6)"
      by (simp_all add: power_add)
  qed
  show q: "64 \<le> ?q" "?q < 128"
    using t unfolding p by (simp_all add: less_eq_div_iff_mult_less_eq less_mult_imp_div_less)
  have m: "?q mod 64 = ?q - 64" using q by (simp add: mod_if)
  have "unat (drop_bit (t - 6) v AND of_int (kSubBuckets - 1)) = ?q - 64"
    using m by (simp only: low_six unat_drop_bit_eq) (simp only: drop_bit_eq_div)
  then have "sint (ucast (drop_bit (t - 6) v AND of_int (kSubBuckets - 1)) :: u32) = int ?q - 64"
    using q by (subst sint_small) (simp_all add: of_nat_diff)
  moreover have "\<not> v \<le> 1" using t(1) r(1) power_increasing [OF r(1), of "2 :: nat"] by (simp add: word_le_nat_alt)
  moreover have "nat (int t - 6) = t - 6" by simp
  ultimately show "bucket_index v = (int t - 6, int ?q - 64)"
    using leading_zeros_top [OF t] r by (simp add: bucket_index_def kSubBucketBits_def kBuckets_def)
qed

lemma bucket_clamped:
  assumes "2 ^ 38 \<le> unat v"
  shows "bucket_index v = (31, 63)"
proof -
  obtain t where t: "2 ^ t \<le> unat v" "unat v < 2 ^ Suc t" using top_bit_ex [of "unat v"] assms by fastforce
  have "(2 :: nat) ^ 38 < 2 ^ Suc t" using t(2) assms by linarith
  then have "38 \<le> t" using power_strict_increasing_iff [of "2 :: nat" 38 "Suc t"] by simp
  moreover have "\<not> v \<le> 1" using assms by (simp add: word_le_nat_alt)
  ultimately show ?thesis
    using leading_zeros_top [OF t] by (simp add: bucket_index_def kSubBucketBits_def kBuckets_def kSubBuckets_def)
qed

lemma bucket_range: "\<exists>b s. bucket_index v = (int b, int s) \<and> b < 32 \<and> s < 64"
proof -
  consider "unat v \<le> 1" | "1 < unat v" "unat v < 64" | "64 \<le> unat v" "unat v < 2 ^ 38" | "2 ^ 38 \<le> unat v" by linarith
  then show ?thesis
  proof cases
    case 1
    then show ?thesis using bucket_tiny by (intro exI [of _ 0]) simp
  next
    case 2
    then show ?thesis using bucket_small [OF 2] by (intro exI [of _ 0] exI [of _ "unat v - 1"]) (auto simp: of_nat_diff)
  next
    case 3
    obtain t where t: "2 ^ t \<le> unat v" "unat v < 2 ^ Suc t" using top_bit_ex [of "unat v"] 3 by auto
    have "(2 :: nat) ^ 6 < 2 ^ Suc t" "(2 :: nat) ^ t < 2 ^ 38" using t 3 by (simp, linarith)
    then have r: "6 \<le> t" "t < 38"
      using power_strict_increasing_iff [of "2 :: nat" 6 "Suc t"] power_strict_increasing_iff [of "2 :: nat" t 38] by simp_all
    show ?thesis
      using bucket_wide [OF t r] r
      by (intro exI [of _ "t - 6"] exI [of _ "unat v div 2 ^ (t - 6) - 64"]) (auto simp: of_nat_diff)
  next
    case 4
    then show ?thesis using bucket_clamped [OF 4] by (intro exI [of _ 31] exI [of _ 63]) simp
  qed
qed

definition slot_of :: "u64 \<Rightarrow> nat" where
  "slot_of v = (case bucket_index v of (b, s) \<Rightarrow> slot b s)"

lemma slot_nat: "b < 32 \<Longrightarrow> s < 64 \<Longrightarrow> slot (int b) (int s) = b * 64 + s"
proof -
  assume bs: "b < 32" "s < 64"
  have "(of_int (int b) * of_int kSubBuckets + of_int (int s) :: u64) = of_nat (b * 64 + s)"
    by (simp add: kSubBuckets_def)
  moreover have "unat (of_nat (b * 64 + s) :: u64) = b * 64 + s" by (rule unat_of_nat_small) (use bs in simp)
  ultimately show ?thesis by (simp only: slot_def)
qed

lemma slot_of_less: "slot_of v < 2048"
  using bucket_range [of v] by (auto simp: slot_of_def slot_nat)

section \<open>What a histogram holds\<close>

text \<open>The histogram of a list of samples: how many fall into each slot, their sum and extremes.\<close>

definition tally :: "u64 list \<Rightarrow> nat \<Rightarrow> nat" where
  "tally xs i = length (filter (\<lambda>x. slot_of x = i) xs)"

definition histogram_of :: "u64 list \<Rightarrow> Histogram" where
  "histogram_of xs = \<lparr>h_counts = map (\<lambda>i. of_nat (tally xs i)) [0..<2048], h_count = of_nat (length xs),
     h_total = sum_list xs, h_min = foldr min xs (-1), h_max = foldr max xs 0\<rparr>"

lemma histogram_of_Nil: "histogram_of [] = new_histogram"
  by (simp add: histogram_of_def new_histogram_def tally_def map_replicate_const kBuckets_def kSubBuckets_def)

lemma foldr_extremes:
  "foldr min xs (min a b) = min (foldr min xs a) (b :: u64)"
  "foldr max xs (max a b) = max (foldr max xs a) (b :: u64)"
  by (induction xs) (simp_all add: ac_simps)

lemma foldr_append_extremes:
  "foldr min (xs @ ys) (-1) = min (foldr min xs (-1)) (foldr min ys (-1 :: u64))"
  "foldr max (xs @ ys) 0 = max (foldr max xs 0) (foldr max ys (0 :: u64))"
proof -
  have "min (-1) b = b" "max 0 b = b" for b :: u64 by (simp_all add: min_absorb2 max_absorb2)
  then show "foldr min (xs @ ys) (-1) = min (foldr min xs (-1)) (foldr min ys (-1 :: u64))"
    "foldr max (xs @ ys) 0 = max (foldr max xs 0) (foldr max ys (0 :: u64))"
    using foldr_extremes [of xs "-1" "foldr min ys (-1)"] foldr_extremes [of xs 0 "foldr max ys 0"] by simp_all
qed

lemma record_histogram: "record_value (histogram_of xs) v = Some (histogram_of (xs @ [v]))"
proof -
  obtain b s where b: "bucket_index v = (b, s)" by force
  then have i: "slot b s = slot_of v" by (simp add: slot_of_def)
  have "(map (\<lambda>i. of_nat (tally xs i)) [0..<2048])[slot_of v := of_nat (tally xs (slot_of v)) + 1] =
      map (\<lambda>i. of_nat (tally (xs @ [v]) i) :: u64) [0..<2048]"
    by (rule nth_equalityI) (auto simp: nth_list_update tally_def)
  moreover have e: "(if v < foldr min xs (-1) then v else foldr min xs (-1)) = foldr min (xs @ [v]) (-1)"
      "(if v > foldr max xs 0 then v else foldr max xs 0) = foldr max (xs @ [v]) 0"
    by (simp_all only: foldr_append_extremes) (auto simp: min_def max_def)
  ultimately show ?thesis
    using slot_of_less [of v] by (simp add: record_value_def b i histogram_of_def e del: foldr_append split del: if_split cong: if_cong)
qed

lemma record_all: "run_steps record_value (histogram_of xs) ys = Some (histogram_of (xs @ ys))"
  by (induction ys arbitrary: xs) (simp_all add: record_histogram)

lemma add_counts_map:
  "add_counts (map f is) (map g is) = Some (map (\<lambda>i. f i + g i) is)"
  by (induction "is") simp_all

lemma merge_histogram: "merge (histogram_of xs) (histogram_of ys) = Some (histogram_of (xs @ ys))"
  by (simp add: merge_def histogram_of_def add_counts_map foldr_append_extremes tally_def del: foldr_append)

lemma reset_histogram: "reset (histogram_of xs) = new_histogram"
  by (simp add: reset_def histogram_of_def new_histogram_def kBuckets_def kSubBuckets_def map_replicate_const)

section \<open>Percentiles\<close>

definition below :: "u64 list \<Rightarrow> nat \<Rightarrow> nat" where
  "below xs k = length (filter (\<lambda>x. slot_of x < k) xs)"

lemma below_Suc: "below xs (Suc k) = below xs k + tally xs k"
  by (induction xs) (auto simp: below_def tally_def less_Suc_eq)

lemma below_le: "below xs k \<le> length xs"
  by (simp add: below_def)

lemma below_all: "below xs 2048 = length xs"
  by (simp add: below_def slot_of_less)

definition slot_bound :: "nat \<Rightarrow> u64" where
  "slot_bound i = bucket_lower_bound (int (i div 64)) (int (i mod 64))"

text \<open>The slot the scan stops at: the first whose cumulative count reaches the rank.\<close>

definition stops_at :: "u64 list \<Rightarrow> nat \<Rightarrow> nat \<Rightarrow> bool" where
  "stops_at xs r i \<longleftrightarrow> i < 2048 \<and> below xs i < r \<and> r \<le> below xs (Suc i)"

lemma count_at: "i < 2048 \<Longrightarrow> h_counts (histogram_of xs) ! i = of_nat (tally xs i)"
  by (simp add: histogram_of_def)

lemma running_add:
  "length xs < 2 ^ 64 \<Longrightarrow> i < 2048 \<Longrightarrow> of_nat (below xs i) + h_counts (histogram_of xs) ! i = of_nat (below xs (Suc i))"
  by (simp add: count_at below_Suc)

lemma reached_iff:
  "length xs < 2 ^ 64 \<Longrightarrow> (target :: u64) \<le> of_nat (below xs i) \<longleftrightarrow> unat target \<le> below xs i"
  using below_le [of xs i] by (simp add: word_le_nat_alt unat_of_nat_small)

lemma scan_sub_slots:
  assumes l: "length xs < 2 ^ 64" and b: "b < 32"
  shows "s \<le> 64 \<Longrightarrow> below xs (b * 64 + s) < unat target \<Longrightarrow>
    (\<exists>i. scan_sub (histogram_of xs) target (int b) [int s..63] (of_nat (below xs (b * 64 + s))) = Some (Inl (slot_bound i)) \<and>
       stops_at xs (unat target) i) \<or>
    scan_sub (histogram_of xs) target (int b) [int s..63] (of_nat (below xs (b * 64 + s))) =
      Some (Inr (of_nat (below xs (Suc b * 64)))) \<and> below xs (Suc b * 64) < unat target"
proof (induction "64 - s" arbitrary: s)
  case 0
  then have "s = 64" by simp
  then show ?case using 0 by (simp add: add.commute)
next
  case (Suc m)
  let ?i = "b * 64 + s"
  have s: "s < 64" using Suc.hyps(2) by simp
  have i: "slot (int b) (int s) = ?i" "?i < 2048" using slot_nat [OF b s] b s by simp_all
  have up: "[int s..63] = int s # [int (Suc s)..63]" using s by (simp add: upto_rec1 add.commute)
  have run: "of_nat (below xs ?i) + h_counts (histogram_of xs) ! ?i = of_nat (below xs (b * 64 + Suc s))"
    using running_add [OF l i(2)] by simp
  have len: "length (h_counts (histogram_of xs)) = 2048" by (simp add: histogram_of_def)
  show ?case
  proof (cases "unat target \<le> below xs (b * 64 + Suc s)")
    case True
    have "slot_bound ?i = bucket_lower_bound (int b) (int s)" using s by (simp add: slot_bound_def)
    moreover have "stops_at xs (unat target) ?i" using True Suc.prems i by (simp add: stops_at_def)
    ultimately show ?thesis
      using True unfolding up by (intro disjI1 exI [of _ ?i]) (simp add: i len run reached_iff [OF l])
  next
    case False
    then have "below xs (b * 64 + Suc s) < unat target" by simp
    from Suc.hyps(1) [OF _ _ this] Suc.hyps(2) s
    show ?thesis unfolding up using False by (simp add: i len run reached_iff [OF l])
  qed
qed

lemma scan_buckets_slots:
  assumes l: "length xs < 2 ^ 64"
  shows "b \<le> 32 \<Longrightarrow> below xs (b * 64) < unat target \<Longrightarrow> unat target \<le> length xs \<Longrightarrow>
    \<exists>i. scan_buckets (histogram_of xs) target [int b..31] (of_nat (below xs (b * 64))) = Some (slot_bound i) \<and>
      stops_at xs (unat target) i"
proof (induction "32 - b" arbitrary: b)
  case 0
  then show ?case using below_all [of xs] by simp
next
  case (Suc m)
  have b: "b < 32" using Suc.hyps(2) by simp
  have up: "[int b..31] = int b # [int (Suc b)..31]" using b by (simp add: upto_rec1 add.commute)
  have k: "kSubBuckets - 1 = 63" by (simp add: kSubBuckets_def)
  consider i where "scan_sub (histogram_of xs) target (int b) [0..63] (of_nat (below xs (b * 64))) = Some (Inl (slot_bound i))"
      "stops_at xs (unat target) i"
    | "scan_sub (histogram_of xs) target (int b) [0..63] (of_nat (below xs (b * 64))) =
        Some (Inr (of_nat (below xs (Suc b * 64))))" "below xs (Suc b * 64) < unat target"
    using scan_sub_slots [OF l b, of 0 target] Suc.prems by auto
  then show ?case
  proof cases
    case 1
    then show ?thesis unfolding up by (auto simp: k)
  next
    case 2
    from Suc.hyps(1) [OF _ _ 2(2)] Suc.hyps(2) b Suc.prems(3)
    show ?thesis unfolding up by (simp only: scan_buckets.simps k 2(1) bind.bind_lunit sum.case)
  qed
qed

lemma stops_at_sample:
  assumes "stops_at xs r i"
  shows "\<exists>x \<in> set xs. slot_of x = i"
proof -
  have "0 < tally xs i" using assms by (auto simp: stops_at_def below_Suc)
  then show ?thesis by (auto simp: tally_def filter_empty_conv)
qed

lemma bound_wide:
  assumes v: "128 \<le> unat v" "unat v < 2 ^ 38" and b: "bucket_index v = (b, s)"
  shows "unat (bucket_lower_bound b s) \<le> unat v \<and> 64 * (unat v - unat (bucket_lower_bound b s)) < unat v"
proof -
  obtain t where t: "2 ^ t \<le> unat v" "unat v < 2 ^ Suc t" using top_bit_ex [of "unat v"] v by auto
  have "(2 :: nat) ^ 7 < 2 ^ Suc t" "(2 :: nat) ^ t < 2 ^ 38" using t v by (simp, linarith)
  then have r: "7 \<le> t" "t < 38"
    using power_strict_increasing_iff [of "2 :: nat" 7 "Suc t"] power_strict_increasing_iff [of "2 :: nat" t 38] by simp_all
  define k where "k = t - 6"
  define q where "q = unat v div 2 ^ k"
  have w: "bucket_index v = (int t - 6, int q - 64)" "64 \<le> q"
    using bucket_wide [OF t] r by (simp_all add: q_def k_def)
  have "bucket_lower_bound b s = push_bit k (of_nat q)"
    using w b r by (auto simp: bucket_lower_bound_def kSubBuckets_def k_def nat_diff_distrib)
  also have "\<dots> = of_nat (q * 2 ^ k)" by (simp add: push_bit_eq_mult)
  finally have e: "bucket_lower_bound b s = of_nat (q * 2 ^ k)" .
  have "q * 2 ^ k < 2 ^ 64"
    using order_le_less_trans [OF div_times_less_eq_dividend [of "unat v" "2 ^ k"] unsigned_less [of v, where 'a = nat]]
    by (simp add: q_def)
  then have lb: "unat (bucket_lower_bound b s) = q * 2 ^ k" by (simp only: e unat_of_nat_small(3))
  have "(2 :: nat) ^ t = 64 * 2 ^ k" using r power_add [of "2 :: nat" 6 k] by (simp add: k_def)
  moreover have "unat v - q * 2 ^ k < 2 ^ k"
    using minus_div_mult_eq_mod [of "unat v" "2 ^ k"] by (simp add: q_def)
  ultimately show ?thesis using lb t(1) by (auto simp: q_def)
qed

lemma count_nonzero:
  assumes "xs \<noteq> []" "length xs < 2 ^ 64"
  shows "h_count (histogram_of xs) \<noteq> 0"
proof -
  have "unat (of_nat (length xs) :: u64) = length xs" using assms(2) by (rule unat_of_nat_small)
  then show ?thesis using assms(1) by (auto simp: histogram_of_def)
qed

lemma percentile_slot:
  assumes "xs \<noteq> []" "length xs < 2 ^ 64" "0 < unat (rank (of_nat (length xs)))" "unat (rank (of_nat (length xs))) \<le> length xs"
  shows "\<exists>i. percentile rank (histogram_of xs) = Some (slot_bound i) \<and> stops_at xs (unat (rank (of_nat (length xs)))) i"
proof -
  have "below xs 0 = 0" by (simp add: below_def)
  then obtain i where i: "scan_buckets (histogram_of xs) (rank (of_nat (length xs))) [0..31] 0 = Some (slot_bound i)"
      "stops_at xs (unat (rank (of_nat (length xs)))) i"
    using scan_buckets_slots [OF assms(2), of 0 "rank (of_nat (length xs))"] assms(3,4) by auto
  then show ?thesis using count_nonzero [OF assms(1,2)] by (auto simp: percentile_def kBuckets_def histogram_of_def)
qed

section \<open>Properties\<close>

text \<open>C36: recording any samples never leaves the vector of counts, and the histogram then holds exactly
  their tally: the count of every slot, the number, the sum and the extremes of the samples;
  merging two histograms is the same as recording both sets of samples in one.\<close>

theorem histogram_is_tally:
  "run_steps record_value new_histogram xs = Some (histogram_of xs) \<and>
   Option.bind (run_steps record_value new_histogram xs) (\<lambda>h.
     Option.bind (run_steps record_value new_histogram ys) (merge h)) =
   run_steps record_value new_histogram (xs @ ys)"
  using record_all [of "[]"] by (simp add: histogram_of_Nil merge_histogram)

text \<open>C38: from 128 ns up to the top of the range a sample's slot starts at or below it and less than one
  part in 64 away; samples below 64 ns have a slot of their own.\<close>

theorem bucket_accuracy:
  assumes "bucket_index v = (b, s)"
  shows "(128 \<le> unat v \<longrightarrow> unat v < 2 ^ 38 \<longrightarrow>
      unat (bucket_lower_bound b s) \<le> unat v \<and> 64 * (unat v - unat (bucket_lower_bound b s)) < unat v) \<and>
    (0 < unat v \<longrightarrow> unat v < 64 \<longrightarrow> bucket_lower_bound b s = v)"
proof (intro conjI impI)
  assume v: "0 < unat v" "unat v < 64"
  show "bucket_lower_bound b s = v"
  proof (cases "unat v = 1")
    case True
    then have "v = 1" by (simp add: word_unat_eq_iff)
    then show ?thesis using assms bucket_tiny [of v] True by (simp add: bucket_lower_bound_def)
  next
    case False
    then have "b = 0" "s = int (unat v) - 1" using assms bucket_small [of v] v by simp_all
    then show ?thesis by (simp add: bucket_lower_bound_def)
  qed
qed (use bound_wide assms in blast)+

theorem bucket_accuracy_witness:
  "bucket_index 1000 = (3, 61) \<and> unat (bucket_lower_bound 3 61) \<le> 1000"
proof -
  have b: "bucket_index 1000 = (3, 61)" using bucket_wide(1) [of 9 1000] by simp
  show ?thesis using bucket_accuracy [OF b] b by simp
qed

text \<open>C37: a percentile is the bound of the slot of the sample of that rank: fewer samples than the rank lie
  in the slots before it and at least as many lie up to it, so half the samples and more are
  within the slot reported for the median.\<close>

theorem percentile_rank:
  assumes "xs \<noteq> []" and "length xs < 2 ^ 64" and "0 < unat r" and "unat r \<le> length xs"
  shows "\<exists>x \<in> set xs. percentile (\<lambda>n. r) (histogram_of xs) = Some (slot_bound (slot_of x)) \<and>
    length (filter (\<lambda>y. slot_of y < slot_of x) xs) < unat r \<and>
    unat r \<le> length (filter (\<lambda>y. slot_of y \<le> slot_of x) xs)"
proof -
  obtain i where i: "percentile (\<lambda>n. r) (histogram_of xs) = Some (slot_bound i)" "stops_at xs (unat r) i"
    using percentile_slot [OF assms(1,2), of "\<lambda>n. r"] assms(3,4) by blast
  obtain x where x: "x \<in> set xs" "slot_of x = i" using stops_at_sample [OF i(2)] by blast
  then show ?thesis using i by (intro bexI [of _ x]) (auto simp: stops_at_def below_def less_Suc_eq_le)
qed

theorem percentile_rank_witness:
  "\<exists>x \<in> set [1000, 5]. percentile (\<lambda>n. 1) (histogram_of [1000, 5]) = Some (slot_bound (slot_of x))"
  using percentile_rank [of "[1000, 5]" 1] by auto

text \<open>The slots of 64 to 127 ns collide with those of 1 to 63 ns: a sample of 100 ns is counted in the
  slot of 37 ns, and every percentile of a histogram of it alone is at most 37 ns.\<close>

theorem octave_of_64_misplaced:
  "slot_of 100 = slot_of 37 \<and>
   Option.bind (run_steps record_value new_histogram [100]) (percentile (\<lambda>n. n)) = Some 37"
proof
  have "bucket_index 100 = (0, 36)" "bucket_index 37 = (0, 36)"
    using bucket_wide(1) [of 6 100] bucket_small [of 37] by simp_all
  then have s: "slot_of 100 = 36" "slot_of 37 = 36" using slot_nat [of 0 36] by (simp_all add: slot_of_def)
  then show "slot_of 100 = slot_of 37" by simp
  obtain i where i: "percentile (\<lambda>n. n) (histogram_of [100]) = Some (slot_bound i)" "stops_at [100] 1 i"
    using percentile_slot [of "[100]" "\<lambda>n. n"] by auto
  then have "i = 36" by (auto simp: stops_at_def below_def s split: if_splits)
  moreover have "slot_bound 36 = 37" by (simp add: slot_bound_def bucket_lower_bound_def)
  ultimately show "Option.bind (run_steps record_value new_histogram [100]) (percentile (\<lambda>n. n)) = Some 37"
    using i(1) record_all [of "[]" "[100]"] by (simp add: histogram_of_Nil)
qed

text \<open>A rank below one, as for the median of a single sample, is answered with 1 ns, whatever was
  recorded: the scan stops at the first slot although it is empty.\<close>

theorem low_rank_reports_1ns:
  assumes "xs \<noteq> []" and "length xs < 2 ^ 64"
  shows "percentile (\<lambda>n. 0) (histogram_of xs) = Some 1"
proof -
  have "h_count (histogram_of xs) \<noteq> 0" by (rule count_nonzero [OF assms])
  moreover have "[0..31 :: int] = 0 # [1..31]" "[0..63 :: int] = 0 # [1..63]" by (simp_all add: upto_rec1)
  moreover have "slot 0 0 = 0" by (simp add: slot_def)
  ultimately show ?thesis
    by (simp add: percentile_def histogram_of_def kBuckets_def kSubBuckets_def bucket_lower_bound_def)
qed

theorem low_rank_reports_1ns_witness: "percentile (\<lambda>n. 0) (histogram_of [1000]) = Some 1"
  by (rule low_rank_reports_1ns) simp_all

end
