(* ===== verification/Sockets.thy ===== *)
theory Sockets
  imports Tcp_Framing "HOL-Library.Signed_Division"
begin

text \<open>
  The system interface of \<^verbatim>\<open>src/net\<close>: the descriptors the process holds and the calls it makes on
  them. What a call answers is the parameter \<^verbatim>\<open>os\<close>, a function of a state of its own; only the
  bookkeeping of descriptors is fixed here, as POSIX has it: \<^verbatim>\<open>socket\<close> and \<^verbatim>\<open>accept\<close> give the
  lowest descriptor not in use, \<^verbatim>\<open>close\<close> gives one back, and a call on a negative descriptor is
  refused with \<^verbatim>\<open>EBADF\<close>. A call on a non-negative descriptor that is not open is the outcome
  \<^verbatim>\<open>None\<close>: it would act on whatever the process opens next under that number.
\<close>

section \<open>Calls and answers\<close>

type_synonym fd = int
type_synonym in_addr = u32

datatype sock_type = SOCK_DGRAM | SOCK_STREAM

record sockaddr_in =
  sin_addr :: in_addr
  sin_port :: u16

record timeval =
  tv_sec :: int
  tv_usec :: int

datatype sockopt =
    SO_REUSEADDR int
  | SO_REUSEPORT int
  | SO_RCVTIMEO timeval
  | IP_ADD_MEMBERSHIP in_addr in_addr
  | IP_MULTICAST_LOOP byte
  | IP_MULTICAST_IF in_addr
  | IP_MULTICAST_TTL byte

datatype syscall =
    Socket sock_type
  | Setsockopt fd sockopt
  | Getsockopt_Error fd
  | Bind fd sockaddr_in
  | Connect fd sockaddr_in
  | Listen fd int
  | Getsockname fd
  | Accept fd
  | Select_Read fd timeval
  | Select_Write fd timeval
  | Fcntl_Getfl fd
  | Fcntl_Setfl fd u32
  | Shutdown fd
  | Close fd
  | Recvfrom fd nat
  | Sendto fd "byte list" sockaddr_in
  | Recv fd nat
  | Send fd "byte list"
  | Clock_Monotonic

text \<open>The return value with \<^verbatim>\<open>errno\<close>, and what the call writes through its pointers.\<close>

record answer =
  ret :: int
  errno :: Errno
  out_int :: int
  out_addr :: sockaddr_in
  out_bytes :: "byte list"

type_synonym 'k os = "'k \<Rightarrow> syscall \<Rightarrow> answer \<times> 'k"

fun call_fd :: "syscall \<Rightarrow> fd option" where
  "call_fd (Socket _) = None"
| "call_fd (Setsockopt fd _) = Some fd"
| "call_fd (Getsockopt_Error fd) = Some fd"
| "call_fd (Bind fd _) = Some fd"
| "call_fd (Connect fd _) = Some fd"
| "call_fd (Listen fd _) = Some fd"
| "call_fd (Getsockname fd) = Some fd"
| "call_fd (Accept fd) = Some fd"
| "call_fd (Select_Read fd _) = Some fd"
| "call_fd (Select_Write fd _) = Some fd"
| "call_fd (Fcntl_Getfl fd) = Some fd"
| "call_fd (Fcntl_Setfl fd _) = Some fd"
| "call_fd (Shutdown fd) = Some fd"
| "call_fd (Close fd) = Some fd"
| "call_fd (Recvfrom fd _) = Some fd"
| "call_fd (Sendto fd _ _) = Some fd"
| "call_fd (Recv fd _) = Some fd"
| "call_fd (Send fd _) = Some fd"
| "call_fd Clock_Monotonic = None"

section \<open>The process\<close>

record 'k process =
  fds :: "fd list"
  os_state :: 'k

text \<open>The lowest descriptor not in use: one of the first \<^verbatim>\<open>length fs + 1\<close> numbers is free.\<close>

definition lowest_free :: "fd list \<Rightarrow> fd" where
  "lowest_free fs = hd (filter (\<lambda>n. n \<notin> set fs) (map int [0..<Suc (length fs)]))"

definition no_answer :: "Errno \<Rightarrow> answer" where
  "no_answer e = \<lparr>ret = -1, errno = e, out_int = 0, out_addr = \<lparr>sin_addr = 0, sin_port = 0\<rparr>, out_bytes = []\<rparr>"

definition gives_fd :: "syscall \<Rightarrow> bool" where
  "gives_fd c = (case c of Socket _ \<Rightarrow> True | Accept _ \<Rightarrow> True | _ \<Rightarrow> False)"

definition takes_fd :: "syscall \<Rightarrow> bool" where
  "takes_fd c = (case c of Close _ \<Rightarrow> True | _ \<Rightarrow> False)"

text \<open>A call that the system receives.\<close>

definition perform :: "'k os \<Rightarrow> syscall \<Rightarrow> 'k process \<Rightarrow> answer \<times> 'k process" where
  "perform os c p =
     (let (a, k) = os (os_state p) c; p = p\<lparr>os_state := k\<rparr> in
      if gives_fd c then
        (if ret a < 0 then (a, p)
         else (a\<lparr>ret := lowest_free (fds p)\<rparr>, p\<lparr>fds := lowest_free (fds p) # fds p\<rparr>))
      else if takes_fd c then (a, p\<lparr>fds := removeAll (the (call_fd c)) (fds p)\<rparr>)
      else (a, p))"

definition sys :: "'k os \<Rightarrow> syscall \<Rightarrow> 'k process \<Rightarrow> (answer \<times> 'k process) option" where
  "sys os c p =
     (case call_fd c of
        None \<Rightarrow> Some (perform os c p)
      | Some fd \<Rightarrow>
          if fd < 0 then Some (no_answer EBADF, p)
          else if fd \<in> set (fds p) then Some (perform os c p)
          else None)"

text \<open>\<^verbatim>\<open>select\<close> on one descriptor: \<^verbatim>\<open>FD_SET\<close> writes outside the set from \<^verbatim>\<open>FD_SETSIZE\<close> on.\<close>

definition FD_SETSIZE :: int where
  "FD_SETSIZE = 1024"

definition FD_SET :: "fd \<Rightarrow> unit option" where
  "FD_SET fd = (if 0 \<le> fd \<and> fd < FD_SETSIZE then Some () else None)"

text \<open>\<^verbatim>\<open>timeval\<close> of a time in milliseconds; the division is C's.\<close>

definition timeval_of_ms :: "int \<Rightarrow> timeval" where
  "timeval_of_ms ms = \<lparr>tv_sec = ms sdiv 1000, tv_usec = (ms smod 1000) * 1000\<rparr>"

text \<open>A \<^verbatim>\<open>std::string\<close> passed as a C string ends at its first zero byte.\<close>

definition c_str :: "string \<Rightarrow> string" where
  "c_str s = takeWhile (\<lambda>c. c \<noteq> CHR 0x00) s"

text \<open>\<^verbatim>\<open>recv\<close> and \<^verbatim>\<open>send\<close> on a descriptor, as the loops over a connection see them.\<close>

definition recv_bytes :: "nat \<Rightarrow> answer \<Rightarrow> recv_result" where
  "recv_bytes n a = (if ret a < 0 then RecvError (errno a) else Received (take n (out_bytes a)))"

definition sys_recv :: "'k os \<Rightarrow> fd \<Rightarrow> 'k process recv" where
  "sys_recv os fd p n =
     (case sys os (Recv fd n) p of
        None \<Rightarrow> (RecvError EBADF, p)
      | Some (a, p) \<Rightarrow> (recv_bytes n a, p))"

definition sys_send :: "'k os \<Rightarrow> fd \<Rightarrow> 'k process send" where
  "sys_send os fd p data =
     (case sys os (Send fd data) p of
        None \<Rightarrow> (SendError EBADF, p)
      | Some (a, p) \<Rightarrow> (if ret a < 0 then SendError (errno a) else Accepted (min (nat (ret a)) (length data)), p))"

text \<open>\<^verbatim>\<open>now_ns\<close> of \<^verbatim>\<open>src/obs/clock.cpp\<close>: the count of the steady clock as an unsigned number.\<close>

definition steady_now :: "'k os \<Rightarrow> 'k process \<Rightarrow> int \<times> 'k process" where
  "steady_now os p = (let (a, p) = perform os Clock_Monotonic p in (out_int a, p))"

definition now_ns :: "'k os \<Rightarrow> 'k process \<Rightarrow> u64 \<times> 'k process" where
  "now_ns os p = (let (t, p) = steady_now os p in (of_int t, p))"

section \<open>Descriptors\<close>

lemma lowest_free_spec: "lowest_free fs \<notin> set fs \<and> 0 \<le> lowest_free fs \<and> lowest_free fs \<le> int (card (set fs))"
proof -
  let ?c = "map int [0..<Suc (length fs)]"
  have ne: "\<exists>n\<in>set ?c. n \<notin> set fs"
  proof (rule ccontr)
    assume "\<not> ?thesis"
    then have "set ?c \<subseteq> set fs" by auto
    then have "card (set ?c) \<le> card (set fs)" by (intro card_mono) auto
    also have "\<dots> \<le> length fs" by (rule card_length)
    finally have "card (int ` {0..<Suc (length fs)}) \<le> length fs" by (simp only: set_map set_upt)
    then show False by (subst (asm) card_image) (auto simp: inj_on_def)
  qed
  then obtain ys n zs where s: "?c = ys @ n # zs" "n \<notin> set fs" "\<forall>y\<in>set ys. y \<in> set fs"
    using split_list_first_prop [OF ne] by (elim exE conjE) simp
  have lf: "lowest_free fs = n" unfolding lowest_free_def s(1) using s(2,3) by simp
  have "length ?c = length ys + Suc (length zs)" unfolding s(1) by simp
  then have len: "length ys < Suc (length fs)" by simp
  have "?c ! length ys = n" unfolding s(1) by simp
  then have nth: "n = int (length ys)" using len by (simp del: upt_Suc)
  have "take (length ys) ?c = ys" unfolding s(1) by simp
  then have "ys = map int [0..<length ys]" using len by (simp add: take_map take_upt del: upt_Suc)
  then have "set ys = int ` {0..<length ys}" by (metis set_map set_upt)
  then have "card (set ys) = length ys" by (simp add: card_image inj_on_def)
  then have "length ys \<le> card (set fs)" using s(3) by (metis card_mono finite_set subsetI)
  then show ?thesis using s lf nth by simp
qed

lemmas lowest_free_fresh = lowest_free_spec [THEN conjunct1]
  and lowest_free_nonneg = lowest_free_spec [THEN conjunct2, THEN conjunct1]
  and lowest_free_le = lowest_free_spec [THEN conjunct2, THEN conjunct2]

text \<open>A call on an open descriptor, or on a negative one, returns; what it does to the descriptors:\<close>

definition usable :: "fd \<Rightarrow> 'k process \<Rightarrow> bool" where
  "usable fd p \<longleftrightarrow> fd < 0 \<or> fd \<in> set (fds p)"

lemma perform_plain: "\<not> gives_fd c \<Longrightarrow> \<not> takes_fd c \<Longrightarrow> fds (snd (perform os c p)) = fds p"
  by (simp add: perform_def split: prod.split)

lemma perform_os_state: "os_state (snd (perform os c p)) = snd (os (os_state p) c)"
  by (simp add: perform_def Let_def split: prod.split)

lemma sys_performed: "sys os c p = Some x \<Longrightarrow> call_fd c = Some fd \<Longrightarrow> 0 \<le> fd \<Longrightarrow> perform os c p = x"
  by (simp add: sys_def split: if_splits)

lemma sys_plain:
  assumes "call_fd c = Some fd" "usable fd p" "\<not> gives_fd c" "\<not> takes_fd c"
  obtains a p' where "sys os c p = Some (a, p')" "fds p' = fds p"
proof (cases "fd < 0")
  case True
  then show ?thesis using that [of "no_answer EBADF" p] assms(1) by (simp add: sys_def)
next
  case False
  then show ?thesis
    using that [of "fst (perform os c p)" "snd (perform os c p)"] assms
    by (simp add: sys_def usable_def perform_plain)
qed

lemma perform_gives:
  assumes "gives_fd c"
  obtains (failed) a p' where "perform os c p = (a, p')" "ret a < 0" "fds p' = fds p"
  | (opened) a p' where "perform os c p = (a, p')" "ret a = lowest_free (fds p)"
      "fds p' = lowest_free (fds p) # fds p"
proof -
  obtain a k where a: "os (os_state p) c = (a, k)" by force
  show ?thesis
  proof (cases "ret a < 0")
    case True
    then show ?thesis using failed [of a "p\<lparr>os_state := k\<rparr>"] assms a by (simp add: perform_def)
  next
    case False
    then show ?thesis
      using opened [of "a\<lparr>ret := lowest_free (fds p)\<rparr>" "p\<lparr>os_state := k, fds := lowest_free (fds p) # fds p\<rparr>"] assms a
      by (simp add: perform_def)
  qed
qed

lemma sys_socket:
  obtains (failed) a p' where "sys os (Socket t) p = Some (a, p')" "ret a < 0" "fds p' = fds p"
  | (opened) a p' where "sys os (Socket t) p = Some (a, p')" "ret a = lowest_free (fds p)"
      "fds p' = lowest_free (fds p) # fds p"
  by (rule perform_gives [of "Socket t" os p]) (auto simp: sys_def gives_fd_def)

lemma sys_accept:
  assumes "fd \<in> set (fds p)" "0 \<le> fd"
  obtains (failed) a p' where "sys os (Accept fd) p = Some (a, p')" "ret a < 0" "fds p' = fds p"
  | (opened) a p' where "sys os (Accept fd) p = Some (a, p')" "ret a = lowest_free (fds p)"
      "fds p' = lowest_free (fds p) # fds p"
  by (rule perform_gives [of "Accept fd" os p]) (use assms in \<open>auto simp: sys_def gives_fd_def\<close>)

lemma sys_close:
  assumes "fd \<in> set (fds p)" "0 \<le> fd"
  obtains a p' where "sys os (Close fd) p = Some (a, p')" "set (fds p') = set (fds p) - {fd}"
proof -
  obtain a k where "os (os_state p) (Close fd) = (a, k)" by force
  then show ?thesis
    using that [of a "p\<lparr>os_state := k, fds := removeAll fd (fds p)\<rparr>"] assms
    by (simp add: sys_def perform_def gives_fd_def takes_fd_def)
qed

lemma sys_recv_fds: "sys_recv os fd p n = (r, p') \<Longrightarrow> fds p' = fds p"
  by (auto simp: sys_recv_def sys_def perform_def gives_fd_def takes_fd_def split: option.splits if_splits prod.splits)

lemma sys_send_fds: "sys_send os fd p d = (r, p') \<Longrightarrow> fds p' = fds p"
  by (auto simp: sys_send_def sys_def perform_def gives_fd_def takes_fd_def split: option.splits if_splits prod.splits)

lemma steady_now_fds: "fds (snd (steady_now os p)) = fds p"
  by (simp add: steady_now_def perform_def gives_fd_def takes_fd_def split: prod.split)

lemma now_ns_fds: "fds (snd (now_ns os p)) = fds p"
  using steady_now_fds [of os p] by (auto simp: now_ns_def split: prod.split)

lemma sys_recv_within: "sys_recv os fd p n = (Received xs, p') \<Longrightarrow> length xs \<le> n"
  by (auto simp: sys_recv_def recv_bytes_def split: option.splits if_splits)

text \<open>
  What is assumed of the system where a loop over a connection has to end: a call is interrupted
  only finitely often in a row.
\<close>

definition interrupts_end :: "'k os \<Rightarrow> ('k \<Rightarrow> nat) \<Rightarrow> bool" where
  "interrupts_end os stalls \<longleftrightarrow>
     (\<forall>k c a k'. os k c = (a, k') \<longrightarrow> ret a < 0 \<longrightarrow> errno a = EINTR \<longrightarrow> stalls k' < stalls k)"

lemma sys_stalls:
  assumes "interrupts_end os stalls"
  shows "recv_stalls (sys_recv os fd) (\<lambda>p. stalls (os_state p))"
    and "send_stalls (sys_send os fd) (\<lambda>p. stalls (os_state p))"
  using assms
  by (auto simp: interrupts_end_def recv_stalls_def send_stalls_def sys_recv_def sys_send_def recv_bytes_def
      sys_def perform_def gives_fd_def takes_fd_def no_answer_def split: option.splits if_splits prod.splits)

section \<open>Owners of a descriptor\<close>

text \<open>
  Every class of \<^verbatim>\<open>src/net\<close> keeps one descriptor \<^verbatim>\<open>fd_\<close>, negative while it has none. An object holds
  \<^verbatim>\<open>fd\<close> on top of the descriptors \<^verbatim>\<open>B\<close> of everybody else: its own is none of them, and is the
  lowest that was free.
\<close>

definition holds :: "fd \<Rightarrow> fd set \<Rightarrow> 'k process \<Rightarrow> bool" where
  "holds fd B p \<longleftrightarrow>
     (if fd < 0 then set (fds p) = B
      else fd \<notin> B \<and> fd \<le> int (card B) \<and> set (fds p) = insert fd B)"

lemma holds_none: "fd < 0 \<Longrightarrow> holds fd B p \<longleftrightarrow> set (fds p) = B"
  by (simp add: holds_def)

lemma holds_usable: "holds fd B p \<Longrightarrow> usable fd p"
  by (auto simp: holds_def usable_def split: if_splits)

lemma holds_fds: "fds p' = fds p \<Longrightarrow> holds fd B p' = holds fd B p"
  by (simp add: holds_def)

lemma holds_FD_SET: "holds fd B p \<Longrightarrow> int (card B) < FD_SETSIZE \<Longrightarrow> 0 \<le> fd \<Longrightarrow> FD_SET fd = Some ()"
  by (simp add: holds_def FD_SET_def)

lemma holds_call:
  assumes "holds fd B p" "call_fd c = Some fd" "\<not> gives_fd c" "\<not> takes_fd c"
  obtains a p' where "sys os c p = Some (a, p')" "holds fd B p'"
  using sys_plain [OF assms(2) holds_usable [OF assms(1)] assms(3,4)] holds_fds assms(1) by metis

lemma holds_socket:
  assumes "set (fds p) = B"
  obtains (failed) a p' where "sys os (Socket t) p = Some (a, p')" "ret a < 0" "holds (ret a) B p'"
  | (opened) a p' where "sys os (Socket t) p = Some (a, p')" "0 \<le> ret a" "holds (ret a) B p'"
proof (cases rule: sys_socket [of os t p])
  case (failed a p')
  then show ?thesis using that(1) assms by (simp add: holds_none)
next
  case (opened a p')
  then show ?thesis using that(2) assms lowest_free_spec [of "fds p"] by (auto simp: holds_def)
qed

text \<open>\<^verbatim>\<open>if (fd_ >= 0) { ::close(fd_); fd_ = -1; }\<close>, which all of the classes use.\<close>

definition close_fd :: "'k os \<Rightarrow> fd \<Rightarrow> 'k process \<Rightarrow> (fd \<times> 'k process) option" where
  "close_fd os fd p =
     (if 0 \<le> fd then do { (a, p) \<leftarrow> sys os (Close fd) p; Some (-1, p) } else Some (fd, p))"

lemma close_fd_holds:
  assumes "holds fd B p"
  obtains fd' p' where "close_fd os fd p = Some (fd', p')" "fd' < 0" "set (fds p') = B"
proof (cases "0 \<le> fd")
  case True
  then have "fd \<in> set (fds p)" "set (fds p) - {fd} = B" using assms by (auto simp: holds_def)
  moreover obtain a p' where "sys os (Close fd) p = Some (a, p')" "set (fds p') = set (fds p) - {fd}"
    using sys_close [OF calculation(1) True, of os] by blast
  ultimately show ?thesis using that [of "-1" p'] True by (simp add: close_fd_def)
qed (use that assms in \<open>simp add: close_fd_def holds_def\<close>)

text \<open>
  A computation \<^verbatim>\<open>yields\<close> an outcome: it does not fail, and the outcome is as stated. The rules for
  sequencing and for the calls carry the proofs of the operations.
\<close>

definition yields :: "'a option \<Rightarrow> ('a \<Rightarrow> bool) \<Rightarrow> bool" where
  "yields m Q \<longleftrightarrow> (\<exists>x. m = Some x \<and> Q x)"

named_theorems yields_rules \<open>rules for the outcome of a computation\<close>

lemma yields_Some [simp]: "yields (Some x) Q = Q x"
  by (simp add: yields_def)

lemma yields_bind [yields_rules]: "yields m (\<lambda>x. yields (f x) Q) \<Longrightarrow> yields (Option.bind m f) Q"
  by (auto simp: yields_def)

lemma yields_mono: "yields m Q \<Longrightarrow> (\<And>x. Q x \<Longrightarrow> R x) \<Longrightarrow> yields m R"
  by (auto simp: yields_def)

lemma yields_prod [yields_rules]: "(\<And>a b. x = (a, b) \<Longrightarrow> yields (f a b) Q) \<Longrightarrow> yields (case x of (a, b) \<Rightarrow> f a b) Q"
  by (cases x) simp

lemma yields_if [yields_rules]:
  "(c \<Longrightarrow> yields m Q) \<Longrightarrow> (\<not> c \<Longrightarrow> yields m' Q) \<Longrightarrow> yields (if c then m else m') Q"
  by simp

lemma yields_option [yields_rules]:
  "(x = None \<Longrightarrow> yields m Q) \<Longrightarrow> (\<And>y. x = Some y \<Longrightarrow> yields (f y) Q) \<Longrightarrow>
   yields (case x of None \<Rightarrow> m | Some y \<Rightarrow> f y) Q"
  by (cases x) auto

lemma yields_call:
  assumes "holds fd B p" "call_fd c = Some fd" "\<not> gives_fd c" "\<not> takes_fd c"
    and "\<And>a p'. holds fd B p' \<Longrightarrow> Q (a, p')"
  shows "yields (sys os c p) Q"
  by (rule holds_call [OF assms(1-4)]) (use assms(5) in \<open>auto simp: yields_def\<close>)

lemma yields_socket:
  assumes "set (fds p) = B" and "\<And>a p'. holds (ret a) B p' \<Longrightarrow> Q (a, p')"
  shows "yields (sys os (Socket t) p) Q"
  by (rule holds_socket [OF assms(1)]) (use assms(2) in \<open>auto simp: yields_def\<close>)

lemma yields_close_fd:
  assumes "holds fd B p" and "\<And>fd' p'. fd' < 0 \<Longrightarrow> set (fds p') = B \<Longrightarrow> Q (fd', p')"
  shows "yields (close_fd os fd p) Q"
  by (rule close_fd_holds [OF assms(1)]) (use assms(2) in \<open>auto simp: yields_def\<close>)

lemmas call_kinds = gives_fd_def takes_fd_def

text \<open>The same for what holds whenever a computation returns.\<close>

definition returns :: "'a option \<Rightarrow> ('a \<Rightarrow> bool) \<Rightarrow> bool" where
  "returns m Q \<longleftrightarrow> (\<forall>x. m = Some x \<longrightarrow> Q x)"

named_theorems returns_rules \<open>rules for what holds when a computation returns\<close>

lemma returns_Some [simp]: "returns (Some x) Q = Q x"
  by (simp add: returns_def)

lemma returns_bind [returns_rules]: "returns m (\<lambda>x. returns (f x) Q) \<Longrightarrow> returns (Option.bind m f) Q"
  by (auto simp: returns_def bind_eq_Some_conv)

lemma returns_prod [returns_rules]: "(\<And>a b. x = (a, b) \<Longrightarrow> returns (f a b) Q) \<Longrightarrow> returns (case x of (a, b) \<Rightarrow> f a b) Q"
  by (cases x) simp

lemma returns_if [returns_rules]:
  "(c \<Longrightarrow> returns m Q) \<Longrightarrow> (\<not> c \<Longrightarrow> returns m' Q) \<Longrightarrow> returns (if c then m else m') Q"
  by simp

lemma returns_option [returns_rules]:
  "(x = None \<Longrightarrow> returns m Q) \<Longrightarrow> (\<And>y. x = Some y \<Longrightarrow> returns (f y) Q) \<Longrightarrow>
   returns (case x of None \<Rightarrow> m | Some y \<Rightarrow> f y) Q"
  by (cases x) auto

lemma returns_yields: "returns m Q \<Longrightarrow> yields m R \<Longrightarrow> yields m (\<lambda>x. R x \<and> Q x)"
  by (auto simp: returns_def yields_def)

section \<open>What the system delivers\<close>

text \<open>
  The datagrams a call hands over: what \<^verbatim>\<open>recvfrom\<close> puts in its buffer, unless it fails or the
  datagram is empty. \<^verbatim>\<open>delivers\<close> says that \<^verbatim>\<open>log\<close> lists them in order.
\<close>

definition datagram_of :: "syscall \<Rightarrow> answer \<Rightarrow> byte list list" where
  "datagram_of c a =
     (case c of
        Recvfrom fd n \<Rightarrow> if ret a < 0 \<or> take n (out_bytes a) = [] then [] else [take n (out_bytes a)]
      | _ \<Rightarrow> [])"

definition delivers :: "'k os \<Rightarrow> ('k \<Rightarrow> byte list list) \<Rightarrow> bool" where
  "delivers os log \<longleftrightarrow> (\<forall>k c. let (a, k') = os k c in log k' = log k @ datagram_of c a)"

lemma perform_log:
  assumes "delivers os log" "perform os c p = (a, p')"
  shows "log (os_state p') = log (os_state p) @ datagram_of c a"
proof -
  obtain b k where k: "os (os_state p) c = (b, k)" by force
  then have "os_state p' = k" using perform_os_state [of os c p] assms(2) by simp
  moreover have "datagram_of c a = datagram_of c b"
    using assms(2) k by (auto simp: perform_def datagram_of_def gives_fd_def Let_def split: if_splits syscall.splits)
  ultimately show ?thesis using assms(1) k unfolding delivers_def by (auto split: prod.splits)
qed

lemma returns_log:
  assumes log: "delivers os log" and c: "\<And>a. datagram_of c a = []"
    and Q: "\<And>a p'. log (os_state p') = log (os_state p) \<Longrightarrow> Q (a, p')"
  shows "returns (sys os c p) Q"
proof -
  have "Q (perform os c p)"
    using perform_log [OF log, of c p] c by (cases "perform os c p") (auto intro: Q)
  then show ?thesis using Q [of p "no_answer EBADF"] by (auto simp: returns_def sys_def split: option.splits if_splits)
qed

lemma close_fd_log:
  "delivers os log \<Longrightarrow> (\<And>fd' p'. log (os_state p') = log (os_state p) \<Longrightarrow> Q (fd', p')) \<Longrightarrow> returns (close_fd os fd p) Q"
  unfolding close_fd_def
  by (intro returns_rules returns_log [of os log]) (auto simp: datagram_of_def)

lemma now_ns_log:
  assumes "delivers os log" "now_ns os p = (t, p')"
  shows "log (os_state p') = log (os_state p)"
  using assms perform_log [OF assms(1), of Clock_Monotonic p]
  by (cases "perform os Clock_Monotonic p") (auto simp: now_ns_def steady_now_def datagram_of_def)

text \<open>
  The contract of such a class: \<^verbatim>\<open>close\<close> gives the descriptor back, and no operation touches
  another descriptor or loses its own, provided \<^verbatim>\<open>room\<close> holds of those of the others.
\<close>

locale fd_owner =
  fixes fd_of :: "'o \<Rightarrow> fd" and close :: "'o \<Rightarrow> 'k process \<Rightarrow> ('o \<times> 'k process) option"
    and step :: "'o \<times> 'k process \<Rightarrow> 'op \<Rightarrow> ('o \<times> 'k process) option" and room :: "fd set \<Rightarrow> bool"
  assumes close_holds: "holds (fd_of x) B p \<Longrightarrow>
      yields (close x p) (\<lambda>(x', p'). fd_of x' < 0 \<and> set (fds p') = B)"
    and step_holds: "holds (fd_of x) B p \<Longrightarrow> room B \<Longrightarrow>
      yields (step (x, p) op) (\<lambda>(x', p'). holds (fd_of x') B p')"

sublocale fd_owner \<subseteq> uses: simulation "\<lambda>(x, p). holds (fd_of x) B p \<and> room B" "\<lambda>xp. ()" step
    "\<lambda>g m. ()" "\<lambda>g m. True" "\<lambda>g. True" for B
  by unfold_locales (use step_holds in \<open>fastforce simp: yields_def\<close>)

context fd_owner
begin

text \<open>Whatever is done with the object, its destructor leaves the descriptors as they were.\<close>

lemma lifetime:
  assumes "holds (fd_of x) B p" "room B"
  shows "\<exists>x1 p1 x2 p2. run_steps step (x, p) ops = Some (x1, p1) \<and> close x1 p1 = Some (x2, p2) \<and>
    set (fds p2) = B"
proof -
  have "admissible (\<lambda>g m. ()) (\<lambda>g m. True) (\<lambda>g. True) () ops" by (induction ops) auto
  then obtain xp where "run_steps step (x, p) ops = Some xp" "case xp of (x, p) \<Rightarrow> holds (fd_of x) B p"
    using uses.run_sim [where B = B and s = "(x, p)" and ms = ops] assms by auto
  then show ?thesis using close_holds by (cases xp) (fastforce simp: yields_def)
qed

text \<open>Closing twice is closing once.\<close>

lemma closed_empty: "holds (fd_of x) B p \<Longrightarrow> close x p = Some (x', p') \<Longrightarrow> fd_of x' < 0 \<and> set (fds p') = B"
  using close_holds [of x B p] by (auto simp: yields_def)

end

end
