(* ===== verification/Listener_Race.thy ===== *)
theory Listener_Race
  imports Sockets
begin

text \<open>
  \<^verbatim>\<open>TcpServer::accept_one\<close> on the server's thread beside \<^verbatim>\<open>TcpServer::close\<close> on any number of others
  (\<^verbatim>\<open>src/net/tcp_recovery.cpp\<close>), over the atomic \<^verbatim>\<open>fd_\<close> and the descriptor table of the process, in
  which the rest of the program opens and closes files of its own. A step is one access to the
  atomic or one system call. The table says which file a descriptor names; the listening socket is
  file 0.
\<close>

section \<open>State and steps\<close>

datatype acceptor = A_Loading | A_Selecting fd | A_Accepting fd

datatype closer = C_Exchanging | C_Closing fd | C_Closed

record race =
  cell :: fd
  table :: "fd \<rightharpoonup> nat"
  acceptor :: acceptor
  closers :: "nat \<Rightarrow> closer"
  next_file :: nat

definition start_race :: "fd \<Rightarrow> (fd \<rightharpoonup> nat) \<Rightarrow> nat \<Rightarrow> race" where
  "start_race L files n =
     \<lparr>cell = L, table = files(L \<mapsto> 0), acceptor = A_Loading, closers = (\<lambda>i. C_Exchanging), next_file = n\<rparr>"

inductive race_step :: "race \<Rightarrow> race \<Rightarrow> bool" where
  load: "acceptor w = A_Loading \<Longrightarrow>
    race_step w (w\<lparr>acceptor := (if cell w < 0 then A_Loading else A_Selecting (cell w))\<rparr>)"
| select_ready: "acceptor w = A_Selecting s \<Longrightarrow> race_step w (w\<lparr>acceptor := A_Accepting s\<rparr>)"
| select_none: "acceptor w = A_Selecting s \<Longrightarrow> race_step w (w\<lparr>acceptor := A_Loading\<rparr>)"
| accept_conn: "acceptor w = A_Accepting s \<Longrightarrow> table w s \<noteq> None \<Longrightarrow> 0 \<le> n \<Longrightarrow> table w n = None \<Longrightarrow>
    race_step w (w\<lparr>acceptor := A_Loading, table := (table w)(n \<mapsto> next_file w), next_file := next_file w + 1\<rparr>)"
| accept_fails: "acceptor w = A_Accepting s \<Longrightarrow> race_step w (w\<lparr>acceptor := A_Loading\<rparr>)"
| exchange: "closers w i = C_Exchanging \<Longrightarrow>
    race_step w (w\<lparr>cell := -1, closers := (closers w)(i := C_Closing (cell w))\<rparr>)"
| close_call: "closers w i = C_Closing s \<Longrightarrow>
    race_step w (w\<lparr>table := (if 0 \<le> s then (table w)(s := None) else table w),
      closers := (closers w)(i := C_Closed)\<rparr>)"
| other_opens: "0 \<le> n \<Longrightarrow> table w n = None \<Longrightarrow>
    race_step w (w\<lparr>table := (table w)(n \<mapsto> next_file w), next_file := next_file w + 1\<rparr>)"
| other_closes: "table w n = Some f \<Longrightarrow> f \<noteq> 0 \<Longrightarrow> race_step w (w\<lparr>table := (table w)(n := None)\<rparr>)"

inductive_cases race_stepE: "race_step w w'"

abbreviation race_steps :: "race \<Rightarrow> race \<Rightarrow> bool" where
  "race_steps \<equiv> race_step\<^sup>*\<^sup>*"

section \<open>The invariant\<close>

definition closing :: "fd \<Rightarrow> (nat \<Rightarrow> closer) \<Rightarrow> nat set" where
  "closing L cs = {i. cs i = C_Closing L}"

lemma closing_upd:
  "closing L (cs(i := c)) = (if c = C_Closing L then insert i (closing L cs) else closing L cs - {i})"
  by (auto simp: closing_def)

text \<open>
  Three phases: the atomic has the descriptor of the listening socket, one closer has it, or the
  socket is closed.
\<close>

datatype phase = Listening | Held nat | Gone

fun in_phase :: "fd \<Rightarrow> race \<Rightarrow> phase \<Rightarrow> bool" where
  "in_phase L w Listening \<longleftrightarrow> cell w = L \<and> table w L = Some 0 \<and> closing L (closers w) = {} \<and>
     (\<forall>i. closers w i = C_Exchanging)"
| "in_phase L w (Held i) \<longleftrightarrow> cell w = -1 \<and> table w L = Some 0 \<and> closing L (closers w) = {i}"
| "in_phase L w Gone \<longleftrightarrow> cell w = -1 \<and> table w L \<noteq> Some 0 \<and> closing L (closers w) = {}"

definition race_inv :: "fd \<Rightarrow> race \<Rightarrow> bool" where
  "race_inv L w \<longleftrightarrow> 0 \<le> L \<and> 0 < next_file w \<and> (\<forall>i s. closers w i = C_Closing s \<longrightarrow> s = L \<or> s = -1) \<and>
     (\<forall>m. m \<noteq> L \<longrightarrow> table w m \<noteq> Some 0) \<and> (\<exists>ph. in_phase L w ph)"

lemma race_inv_start:
  "0 \<le> L \<Longrightarrow> 0 \<notin> ran files \<Longrightarrow> 0 < n \<Longrightarrow> race_inv L (start_race L files n)"
  unfolding race_inv_def
  by (intro conjI exI [of _ Listening]) (auto simp: start_race_def closing_def ran_def)

text \<open>A step that leaves the atomic, the closers and the listening socket alone keeps it.\<close>

lemma race_inv_frame:
  assumes "race_inv L w" "cell w' = cell w" "closers w' = closers w" "0 < next_file w'"
    and "\<And>m. (table w' m = Some 0) = (table w m = Some 0)"
  shows "race_inv L w'"
proof -
  obtain ph where "in_phase L w ph" using assms(1) by (auto simp: race_inv_def)
  then have "in_phase L w' ph" using assms(2,3,5) by (cases ph) simp_all
  then show ?thesis using assms unfolding race_inv_def by auto
qed

lemma race_inv_exchange:
  assumes inv: "race_inv L w" and i: "closers w i = C_Exchanging"
  shows "race_inv L (w\<lparr>cell := -1, closers := (closers w)(i := C_Closing (cell w))\<rparr>)"
proof -
  let ?w = "w\<lparr>cell := -1, closers := (closers w)(i := C_Closing (cell w))\<rparr>"
  obtain ph where ph: "in_phase L w ph" using inv by (auto simp: race_inv_def)
  have L: "0 \<le> L" using inv by (simp add: race_inv_def)
  have ni: "i \<notin> closing L (closers w)" using i by (simp add: closing_def)
  have "cell w = L \<or> cell w = -1" using ph by (cases ph) auto
  moreover have "in_phase L ?w (case ph of Listening \<Rightarrow> Held i | Held j \<Rightarrow> Held j | Gone \<Rightarrow> Gone)"
    using ph ni L by (cases ph) (auto simp: closing_upd)
  ultimately show ?thesis using inv unfolding race_inv_def by auto
qed

lemma race_inv_close:
  assumes inv: "race_inv L w" and i: "closers w i = C_Closing s"
  shows "race_inv L (w\<lparr>table := (if 0 \<le> s then (table w)(s := None) else table w),
      closers := (closers w)(i := C_Closed)\<rparr>)"
proof -
  let ?w = "w\<lparr>table := (if 0 \<le> s then (table w)(s := None) else table w), closers := (closers w)(i := C_Closed)\<rparr>"
  obtain ph where ph: "in_phase L w ph" using inv by (auto simp: race_inv_def)
  have L: "0 \<le> L" "s = L \<or> s = -1" using inv i by (auto simp: race_inv_def)
  have "in_phase L ?w (if s = L then Gone else ph)"
  proof (cases "s = L")
    case True
    then have "i \<in> closing L (closers w)" using i by (simp add: closing_def)
    then show ?thesis using ph True L(1) by (cases ph) (auto simp: closing_upd)
  next
    case False
    then have "s = -1" "i \<notin> closing L (closers w)" using L i by (auto simp: closing_def)
    then show ?thesis using ph False i by (cases ph) (auto simp: closing_upd)
  qed
  then show ?thesis using inv unfolding race_inv_def by auto
qed

lemma race_inv_step:
  assumes step: "race_step w w'" and inv: "race_inv L w"
  shows "race_inv L w'"
proof -
  have n: "0 < next_file w" using inv by (simp add: race_inv_def)
  show ?thesis
    using step
  proof (cases rule: race_step.cases)
    case (exchange i)
    then show ?thesis using race_inv_exchange [OF inv] by simp
  next
    case (close_call i s)
    then show ?thesis using race_inv_close [OF inv] by simp
  qed (use n in \<open>auto intro!: race_inv_frame [OF inv] split: if_splits\<close>)
qed

lemma race_inv_reachable:
  assumes "race_steps (start_race L files n) w" "0 \<le> L" "0 \<notin> ran files" "0 < n"
  shows "race_inv L w"
  using assms(1)
proof (induction rule: rtranclp_induct)
  case base
  then show ?case using race_inv_start assms(2-4) by blast
next
  case (step w w')
  then show ?case using race_inv_step by blast
qed

section \<open>Properties\<close>

text \<open>C20: closing the listener races safely with itself: however the closers, the accepting thread and the rest
  of the program interleave, a descriptor a closer is about to close is the listening socket's and
  no other closer has it, and when one of them has closed and none is about to, the socket is closed.\<close>

theorem listener_closed_once:
  assumes "race_steps (start_race L files n) w" "0 \<le> L" "0 \<notin> ran files" "0 < n"
  shows "(\<forall>i s. closers w i = C_Closing s \<and> 0 \<le> s \<longrightarrow>
      table w s = Some 0 \<and> (\<forall>j. closers w j = C_Closing s \<longrightarrow> j = i)) \<and>
    ((\<exists>i. closers w i = C_Closed) \<and> (\<forall>i s. closers w i \<noteq> C_Closing s) \<longrightarrow> (\<forall>m. table w m \<noteq> Some 0))"
proof -
  have inv: "race_inv L w" by (rule race_inv_reachable [OF assms])
  obtain ph where ph: "in_phase L w ph" using inv by (auto simp: race_inv_def)
  have "table w s = Some 0 \<and> (\<forall>j. closers w j = C_Closing s \<longrightarrow> j = i)" if c: "closers w i = C_Closing s" "0 \<le> s" for i s
  proof -
    have s: "s = L" using inv c unfolding race_inv_def by force
    then have "i \<in> closing L (closers w)" using c(1) by (simp add: closing_def)
    then have "table w L = Some 0" "closing L (closers w) = {i}" using ph by (cases ph; simp)+
    then show ?thesis using s by (auto simp: closing_def)
  qed
  moreover have "table w m \<noteq> Some 0" if c: "closers w i = C_Closed" "\<forall>i s. closers w i \<noteq> C_Closing s" for i m
  proof -
    have "closing L (closers w) = {}" using c(2) by (simp add: closing_def)
    moreover have "closers w i \<noteq> C_Exchanging" using c(1) by simp
    ultimately have "ph = Gone" using ph by (cases ph) auto
    then show ?thesis using ph inv unfolding race_inv_def by (cases "m = L") auto
  qed
  ultimately show ?thesis by blast
qed

text \<open>A run in which a thread has closed the listener and its descriptor names another file.\<close>

lemma closed_and_reused:
  assumes "0 \<le> L" "0 < n"
  shows "\<exists>w. race_steps (start_race L files n) w \<and> closers w 0 = C_Closed \<and> (\<forall>i s. closers w i \<noteq> C_Closing s) \<and>
    acceptor w = A_Accepting L \<and> table w L = Some n"
proof -
  let ?w0 = "start_race L files n"
  let ?w1 = "?w0\<lparr>acceptor := A_Selecting L\<rparr>"
  let ?w2 = "?w1\<lparr>acceptor := A_Accepting L\<rparr>"
  let ?w3 = "?w2\<lparr>cell := -1, closers := (closers ?w2)(0 := C_Closing L)\<rparr>"
  let ?w4 = "?w3\<lparr>table := (table ?w3)(L := None), closers := (closers ?w3)(0 := C_Closed)\<rparr>"
  let ?w5 = "?w4\<lparr>table := (table ?w4)(L \<mapsto> next_file ?w4), next_file := next_file ?w4 + 1\<rparr>"
  have "race_step ?w0 ?w1" using race_step.load [of ?w0] assms by (simp add: start_race_def)
  moreover have "race_step ?w1 ?w2" by (rule select_ready [of _ L]) simp
  moreover have "race_step ?w2 ?w3" using race_step.exchange [of ?w2 0] by (simp add: start_race_def)
  moreover have "race_step ?w3 ?w4" using race_step.close_call [of ?w3 0 L] assms by simp
  moreover have "race_step ?w4 ?w5" by (rule other_opens) (use assms in simp_all)
  ultimately have "race_steps ?w0 ?w5" by (meson rtranclp.rtrancl_into_rtrancl rtranclp.rtrancl_refl)
  then show ?thesis by (intro exI [of _ ?w5]) (simp add: start_race_def)
qed

theorem listener_closed_once_witness:
  "\<exists>w. race_steps (start_race 3 Map.empty 1) w \<and> closers w 0 = C_Closed \<and> (\<forall>m. table w m \<noteq> Some 0)"
proof -
  obtain w where w: "race_steps (start_race 3 Map.empty 1) w" "closers w 0 = C_Closed" "\<forall>i s. closers w i \<noteq> C_Closing s"
    using closed_and_reused [of 3 1 Map.empty] by auto
  show ?thesis using listener_closed_once [OF w(1)] w by auto
qed

text \<open>The accepting thread keeps the descriptor it loaded: after the close it may wait and accept on a file
  another thread has opened since under the same number.\<close>

lemma accept_on_other_file:
  "\<exists>w f. race_steps (start_race 3 Map.empty 1) w \<and> cell w = -1 \<and> acceptor w = A_Accepting 3 \<and>
     table w 3 = Some f \<and> f \<noteq> 0"
proof -
  obtain w where w: "race_steps (start_race 3 Map.empty 1) w" "closers w 0 = C_Closed" "acceptor w = A_Accepting 3"
      "table w 3 = Some 1" using closed_and_reused [of 3 1 Map.empty] by auto
  have inv: "race_inv 3 w" by (rule race_inv_reachable [OF w(1)]) auto
  obtain ph where "in_phase 3 w ph" using inv by (auto simp: race_inv_def)
  then have "cell w = -1" using w(2,4) by (cases ph) auto
  then show ?thesis using w by auto
qed

end
