(* ===== verification/Multicast.thy ===== *)
theory Multicast
  imports Sockets
begin

text \<open>
  \<^verbatim>\<open>MulticastReceiver\<close> and \<^verbatim>\<open>MulticastSender\<close> of \<^verbatim>\<open>src/net/multicast.h\<close> and \<^verbatim>\<open>multicast.cpp\<close> over the
  system interface. \<^verbatim>\<open>inet_pton\<close> is the argument \<^verbatim>\<open>pton\<close>: the address of a text, \<^verbatim>\<open>None\<close> when it
  does not return 1. An error string set through \<^verbatim>\<open>err\<close> is a value of \<^verbatim>\<open>sock_error\<close>, and an
  operation that returns true gives \<^verbatim>\<open>None\<close> for it.
\<close>

type_synonym inet_pton = "string \<Rightarrow> in_addr option"

datatype sock_error =
    E_Socket Errno
  | E_Reuseaddr Errno
  | E_Bind Errno
  | E_Group
  | E_Iface
  | E_Membership Errno
  | E_Loop Errno
  | E_Multicast_If Errno
  | E_Inet_Pton
  | E_Connect Errno
  | E_Connect_Timeout
  | E_So_Error int
  | E_Listen Errno

record MulticastEndpoint =
  group :: string
  port :: u16
  iface :: string

definition INADDR_ANY :: in_addr where
  "INADDR_ANY = 0"

section \<open>The receiver\<close>

record MulticastReceiver =
  rx_fd :: fd
  rx_ep :: MulticastEndpoint

definition new_receiver :: MulticastReceiver where
  "new_receiver = \<lparr>rx_fd = -1, rx_ep = \<lparr>group = [], port = 0, iface = ''127.0.0.1''\<rparr>\<rparr>"

definition rx_close :: "'k os \<Rightarrow> MulticastReceiver \<Rightarrow> 'k process \<Rightarrow> (MulticastReceiver \<times> 'k process) option" where
  "rx_close os r p = do { (fd, p) \<leftarrow> close_fd os (rx_fd r) p; Some (r\<lparr>rx_fd := fd\<rparr>, p) }"

definition rx_fail :: "'k os \<Rightarrow> sock_error \<Rightarrow> MulticastReceiver \<Rightarrow> 'k process \<Rightarrow>
    (sock_error option \<times> MulticastReceiver \<times> 'k process) option" where
  "rx_fail os e r p = do { (r, p) \<leftarrow> rx_close os r p; Some (Some e, r, p) }"

definition rx_open :: "'k os \<Rightarrow> inet_pton \<Rightarrow> MulticastEndpoint \<Rightarrow> MulticastReceiver \<Rightarrow> 'k process \<Rightarrow>
    (sock_error option \<times> MulticastReceiver \<times> 'k process) option" where
  "rx_open os pton ep r p = do {
     (r, p) \<leftarrow> rx_close os r p;
     (s, p) \<leftarrow> sys os (Socket SOCK_DGRAM) p;
     let fd = ret s;
     let r = r\<lparr>rx_ep := ep, rx_fd := fd\<rparr>;
     if fd < 0 then Some (Some (E_Socket (errno s)), r, p)
     else do {
       (a, p) \<leftarrow> sys os (Setsockopt fd (SO_REUSEADDR 1)) p;
       if ret a < 0 then rx_fail os (E_Reuseaddr (errno a)) r p
       else do {
         (_, p) \<leftarrow> sys os (Setsockopt fd (SO_REUSEPORT 1)) p;
         (a, p) \<leftarrow> sys os (Bind fd \<lparr>sin_addr = INADDR_ANY, sin_port = port ep\<rparr>) p;
         if ret a < 0 then rx_fail os (E_Bind (errno a)) r p
         else (case pton (c_str (group ep)) of
           None \<Rightarrow> rx_fail os E_Group r p
         | Some multiaddr \<Rightarrow> (case pton (c_str (iface ep)) of
             None \<Rightarrow> rx_fail os E_Iface r p
           | Some interface \<Rightarrow> do {
               (a, p) \<leftarrow> sys os (Setsockopt fd (IP_ADD_MEMBERSHIP multiaddr interface)) p;
               if ret a < 0 then rx_fail os (E_Membership (errno a)) r p
               else Some (None, r, p) })) } } }"

definition rx_set_recv_timeout_ms :: "'k os \<Rightarrow> int \<Rightarrow> MulticastReceiver \<Rightarrow> 'k process \<Rightarrow>
    (bool \<times> 'k process) option" where
  "rx_set_recv_timeout_ms os ms r p =
     (if rx_fd r < 0 then Some (False, p)
      else do {
        (a, p) \<leftarrow> sys os (Setsockopt (rx_fd r) (SO_RCVTIMEO (timeval_of_ms ms))) p;
        Some (ret a = 0, p) })"

text \<open>
  The buffer is grown to 2048 bytes and the datagram written over its start; a longer datagram is
  cut by the system to the size of the buffer.
\<close>

definition kRecvBuffer :: nat where
  "kRecvBuffer = 2048"

definition rx_recv :: "'k os \<Rightarrow> MulticastReceiver \<Rightarrow> byte list \<Rightarrow> 'k process \<Rightarrow>
    (int \<times> byte list \<times> 'k process) option" where
  "rx_recv os r buf p =
     (if rx_fd r < 0 then Some (-1, buf, p)
      else
        let buf = (if length buf < kRecvBuffer then buf @ replicate (kRecvBuffer - length buf) 0 else buf) in
        do {
          (a, p) \<leftarrow> sys os (Recvfrom (rx_fd r) (length buf)) p;
          (case recv_bytes (length buf) a of
             RecvError e \<Rightarrow> Some (if e = EAGAIN \<or> e = EWOULDBLOCK then 0 else -1, buf, p)
           | Received xs \<Rightarrow> Some (sint (of_nat (length xs) :: u32), xs @ drop (length xs) buf, p)) })"

section \<open>The sender\<close>

text \<open>\<^verbatim>\<open>remote_\<close> holds the bytes of a \<^verbatim>\<open>sockaddr_in\<close>, or none: the check of its size is the case \<^verbatim>\<open>None\<close>.\<close>

record MulticastSender =
  tx_fd :: fd
  tx_ep :: MulticastEndpoint
  remote :: "sockaddr_in option"

definition new_sender :: MulticastSender where
  "new_sender = \<lparr>tx_fd = -1, tx_ep = \<lparr>group = [], port = 0, iface = ''127.0.0.1''\<rparr>, remote = None\<rparr>"

definition tx_close :: "'k os \<Rightarrow> MulticastSender \<Rightarrow> 'k process \<Rightarrow> (MulticastSender \<times> 'k process) option" where
  "tx_close os t p = do { (fd, p) \<leftarrow> close_fd os (tx_fd t) p; Some (t\<lparr>tx_fd := fd\<rparr>, p) }"

definition tx_fail :: "'k os \<Rightarrow> sock_error \<Rightarrow> MulticastSender \<Rightarrow> 'k process \<Rightarrow>
    (sock_error option \<times> MulticastSender \<times> 'k process) option" where
  "tx_fail os e t p = do { (t, p) \<leftarrow> tx_close os t p; Some (Some e, t, p) }"

definition tx_open :: "'k os \<Rightarrow> inet_pton \<Rightarrow> MulticastEndpoint \<Rightarrow> MulticastSender \<Rightarrow> 'k process \<Rightarrow>
    (sock_error option \<times> MulticastSender \<times> 'k process) option" where
  "tx_open os pton ep t p = do {
     (t, p) \<leftarrow> tx_close os t p;
     (s, p) \<leftarrow> sys os (Socket SOCK_DGRAM) p;
     let fd = ret s;
     let t = t\<lparr>tx_ep := ep, tx_fd := fd\<rparr>;
     if fd < 0 then Some (Some (E_Socket (errno s)), t, p)
     else do {
       (a, p) \<leftarrow> sys os (Setsockopt fd (IP_MULTICAST_LOOP 1)) p;
       if ret a < 0 then tx_fail os (E_Loop (errno a)) t p
       else (case pton (c_str (iface ep)) of
         None \<Rightarrow> tx_fail os E_Iface t p
       | Some local_if \<Rightarrow> do {
           (a, p) \<leftarrow> sys os (Setsockopt fd (IP_MULTICAST_IF local_if)) p;
           if ret a < 0 then tx_fail os (E_Multicast_If (errno a)) t p
           else do {
             (_, p) \<leftarrow> sys os (Setsockopt fd (IP_MULTICAST_TTL 1)) p;
             (case pton (c_str (group ep)) of
                None \<Rightarrow> tx_fail os E_Group t p
              | Some dest \<Rightarrow> Some (None, t\<lparr>remote := Some \<lparr>sin_addr = dest, sin_port = port ep\<rparr>\<rparr>, p)) } }) } }"

definition tx_send :: "'k os \<Rightarrow> MulticastSender \<Rightarrow> byte list \<Rightarrow> 'k process \<Rightarrow> (int \<times> 'k process) option" where
  "tx_send os t data p =
     (if tx_fd t < 0 then Some (-1, p)
      else (case remote t of
        None \<Rightarrow> Some (-1, p)
      | Some dest \<Rightarrow> do {
          (a, p) \<leftarrow> sys os (Sendto (tx_fd t) data dest) p;
          Some (if ret a < 0 then -1 else sint (of_int (ret a) :: u32), p) }))"

section \<open>Descriptors\<close>

lemma rx_close_yields:
  "holds (rx_fd r) B p \<Longrightarrow> (\<And>r' p'. rx_fd r' < 0 \<Longrightarrow> rx_ep r' = rx_ep r \<Longrightarrow> set (fds p') = B \<Longrightarrow> Q (r', p')) \<Longrightarrow>
   yields (rx_close os r p) Q"
  unfolding rx_close_def by (intro yields_rules yields_close_fd [of _ B]) auto

lemma tx_close_yields:
  "holds (tx_fd t) B p \<Longrightarrow> (\<And>t' p'. tx_fd t' < 0 \<Longrightarrow> set (fds p') = B \<Longrightarrow> Q (t', p')) \<Longrightarrow>
   yields (tx_close os t p) Q"
  unfolding tx_close_def by (intro yields_rules yields_close_fd [of _ B]) auto

text \<open>What an \<^verbatim>\<open>open\<close> leaves: true with a descriptor of its own, or false with none.\<close>

definition opened :: "fd set \<Rightarrow> sock_error option \<Rightarrow> fd \<Rightarrow> 'k process \<Rightarrow> bool" where
  "opened B e fd p \<longleftrightarrow> (e = None \<longleftrightarrow> 0 \<le> fd) \<and> holds fd B p"

lemma rx_fail_yields: "holds (rx_fd r) B p \<Longrightarrow> yields (rx_fail os e r p) (\<lambda>(e, r, p). opened B e (rx_fd r) p)"
  unfolding rx_fail_def by (intro yields_rules rx_close_yields [of _ B]) (auto simp: opened_def holds_none)

lemma tx_fail_yields: "holds (tx_fd t) B p \<Longrightarrow> yields (tx_fail os e t p) (\<lambda>(e, t, p). opened B e (tx_fd t) p)"
  unfolding tx_fail_def by (intro yields_rules tx_close_yields [of _ B]) (auto simp: opened_def holds_none)

lemma rx_open_yields:
  "holds (rx_fd r) B p \<Longrightarrow> yields (rx_open os pton ep r p) (\<lambda>(e, r, p). opened B e (rx_fd r) p)"
  unfolding rx_open_def Let_def
  by (intro yields_rules rx_close_yields [of _ B] yields_socket [of _ B] yields_call [where B = B] rx_fail_yields)
     (auto simp: opened_def call_kinds)

lemma tx_open_yields:
  "holds (tx_fd t) B p \<Longrightarrow> yields (tx_open os pton ep t p) (\<lambda>(e, t, p). opened B e (tx_fd t) p)"
  unfolding tx_open_def Let_def
  by (intro yields_rules tx_close_yields [of _ B] yields_socket [of _ B] yields_call [where B = B] tx_fail_yields)
     (auto simp: opened_def call_kinds)

lemma rx_set_recv_timeout_ms_yields:
  "holds (rx_fd r) B p \<Longrightarrow> yields (rx_set_recv_timeout_ms os ms r p) (\<lambda>(ok, p). holds (rx_fd r) B p)"
  unfolding rx_set_recv_timeout_ms_def
  by (intro yields_rules yields_call [where B = B]) (auto simp: call_kinds)

lemma tx_send_yields: "holds (tx_fd t) B p \<Longrightarrow> yields (tx_send os t data p) (\<lambda>(n, p). holds (tx_fd t) B p)"
  unfolding tx_send_def
  by (intro yields_rules yields_call [where B = B]) (auto simp: call_kinds)

text \<open>
  A receive returns as many bytes as it put at the start of the buffer, 0 or -1, and the buffer
  holds them.
\<close>

definition received :: "byte list \<Rightarrow> int \<Rightarrow> byte list \<Rightarrow> bool" where
  "received buf n buf' \<longleftrightarrow> length buf' = max kRecvBuffer (length buf) \<and> -1 \<le> n \<and> n \<le> int (length buf')"

lemma sint_length: "n < 2 ^ 31 \<Longrightarrow> sint (of_nat n :: u32) = int n"
  by (simp add: signed_of_nat signed_take_bit_int_eq_self)

lemma rx_recv_yields:
  assumes "holds (rx_fd r) B p" "0 \<le> rx_fd r" "length buf < 2 ^ 31"
  shows "yields (rx_recv os r buf p) (\<lambda>(n, buf', p). holds (rx_fd r) B p \<and> received buf n buf')"
proof -
  let ?buf = "if length buf < kRecvBuffer then buf @ replicate (kRecvBuffer - length buf) 0 else buf"
  have len: "length ?buf = max kRecvBuffer (length buf)" "length ?buf < 2 ^ 31"
    using assms(3) by (auto simp: kRecvBuffer_def)
  have n: "sint (of_nat (length (take (length ?buf) xs)) :: u32) = int (min (length xs) (length ?buf))" for xs :: "byte list"
    using len(2) by (subst sint_length) auto
  show ?thesis
    unfolding rx_recv_def Let_def
    by (intro yields_rules yields_call [where B = B])
       (use assms len n in \<open>auto simp: call_kinds received_def recv_bytes_def kRecvBuffer_def split: recv_result.split\<close>)
qed

text \<open>Only a receive takes datagrams from the system.\<close>

lemma rx_close_log:
  "delivers os log \<Longrightarrow> (\<And>r' p'. log (os_state p') = log (os_state p) \<Longrightarrow> Q (r', p')) \<Longrightarrow> returns (rx_close os r p) Q"
  unfolding rx_close_def by (intro returns_rules close_fd_log [of os log]) auto

lemma rx_fail_log:
  "delivers os log \<Longrightarrow> log (os_state p) = L \<Longrightarrow> returns (rx_fail os e r p) (\<lambda>(e, r, p'). log (os_state p') = L)"
  unfolding rx_fail_def by (intro returns_rules rx_close_log [of os log]) auto

lemma rx_open_log:
  "delivers os log \<Longrightarrow> returns (rx_open os pton ep r p) (\<lambda>(e, r, p'). log (os_state p') = log (os_state p))"
  unfolding rx_open_def Let_def
  by (intro returns_rules rx_close_log [of os log] returns_log [of os log] rx_fail_log [of os log])
     (auto simp: datagram_of_def)

lemma rx_set_recv_timeout_ms_log:
  "delivers os log \<Longrightarrow> returns (rx_set_recv_timeout_ms os ms r p) (\<lambda>(ok, p'). log (os_state p') = log (os_state p))"
  unfolding rx_set_recv_timeout_ms_def
  by (intro returns_rules returns_log [of os log]) (auto simp: datagram_of_def)

lemma tx_close_log:
  "delivers os log \<Longrightarrow> (\<And>t' p'. log (os_state p') = log (os_state p) \<Longrightarrow> Q (t', p')) \<Longrightarrow> returns (tx_close os t p) Q"
  unfolding tx_close_def by (intro returns_rules close_fd_log [of os log]) auto

lemma tx_fail_log:
  "delivers os log \<Longrightarrow> log (os_state p) = L \<Longrightarrow> returns (tx_fail os e t p) (\<lambda>(e, t, p'). log (os_state p') = L)"
  unfolding tx_fail_def by (intro returns_rules tx_close_log [of os log]) auto

lemma tx_open_log:
  "delivers os log \<Longrightarrow> returns (tx_open os pton ep t p) (\<lambda>(e, t, p'). log (os_state p') = log (os_state p))"
  unfolding tx_open_def Let_def
  by (intro returns_rules tx_close_log [of os log] returns_log [of os log] tx_fail_log [of os log])
     (auto simp: datagram_of_def)

lemma tx_send_log:
  "delivers os log \<Longrightarrow> returns (tx_send os t d p) (\<lambda>(n, p'). log (os_state p') = log (os_state p))"
  unfolding tx_send_def
  by (intro returns_rules returns_log [of os log]) (auto simp: datagram_of_def)

text \<open>The start of the buffer is the datagram taken, when the receive returns a positive number.\<close>

lemma rx_recv_log:
  assumes log: "delivers os log" and own: "holds (rx_fd r) B p" "0 \<le> rx_fd r" and len: "length buf < 2 ^ 31"
    and r: "rx_recv os r buf p = Some (n, buf', p')"
  shows "log (os_state p') = log (os_state p) @ (if 0 < n then [take (nat n) buf'] else [])"
proof -
  let ?buf = "if length buf < kRecvBuffer then buf @ replicate (kRecvBuffer - length buf) 0 else buf"
  obtain a p1 where s: "sys os (Recvfrom (rx_fd r) (length ?buf)) p = Some (a, p1)"
    using own(2) r unfolding rx_recv_def Let_def by (cases "sys os (Recvfrom (rx_fd r) (length ?buf)) p") auto
  have "perform os (Recvfrom (rx_fd r) (length ?buf)) p = (a, p1)" using sys_performed [OF s] own(2) by simp
  from perform_log [OF log this]
  have l: "log (os_state p1) = log (os_state p) @ datagram_of (Recvfrom (rx_fd r) (length ?buf)) a" .
  show ?thesis
  proof (cases "ret a < 0")
    case True
    then have "n \<le> 0 \<and> p' = p1"
      using own(2) r s unfolding rx_recv_def Let_def by (auto simp: recv_bytes_def split: if_splits)
    then show ?thesis using l True by (simp add: datagram_of_def)
  next
    case False
    let ?xs = "take (length ?buf) (out_bytes a)"
    have m: "length ?buf < 2 ^ 31" using len by (simp add: kRecvBuffer_def)
    then have xs: "length ?xs < 2 ^ 31" by simp
    have "n = sint (of_nat (length ?xs) :: u32)" "buf' = ?xs @ drop (length ?xs) ?buf" "p' = p1"
      using own(2) r s False unfolding rx_recv_def Let_def by (auto simp: recv_bytes_def)
    then have n: "n = int (length ?xs)" "buf' = ?xs @ drop (length ?xs) ?buf" "p' = p1"
      using sint_length [OF xs] by simp_all
    have pre: "take (length ys) (ys @ zs) = ys" for ys zs :: "byte list" by simp
    have "take (nat n) buf' = ?xs" unfolding n nat_int by (rule pre)
    moreover have "0 < n \<longleftrightarrow> ?xs \<noteq> []" unfolding n by (simp only: of_nat_0_less_iff length_greater_0_conv)
    ultimately show ?thesis using l False n(3) by (simp add: datagram_of_def)
  qed
qed

section \<open>Lifetimes\<close>

datatype rx_op = Rx_Open MulticastEndpoint | Rx_Timeout int | Rx_Recv "byte list" | Rx_Close

fun rx_step :: "'k os \<Rightarrow> inet_pton \<Rightarrow> MulticastReceiver \<times> 'k process \<Rightarrow> rx_op \<Rightarrow> (MulticastReceiver \<times> 'k process) option" where
  "rx_step os pton (r, p) (Rx_Open ep) = do { (_, r, p) \<leftarrow> rx_open os pton ep r p; Some (r, p) }"
| "rx_step os pton (r, p) (Rx_Timeout ms) = do { (_, p) \<leftarrow> rx_set_recv_timeout_ms os ms r p; Some (r, p) }"
| "rx_step os pton (r, p) (Rx_Recv buf) = do { (_, _, p) \<leftarrow> rx_recv os r buf p; Some (r, p) }"
| "rx_step os pton (r, p) Rx_Close = rx_close os r p"

datatype tx_op = Tx_Open MulticastEndpoint | Tx_Send "byte list" | Tx_Close

fun tx_step :: "'k os \<Rightarrow> inet_pton \<Rightarrow> MulticastSender \<times> 'k process \<Rightarrow> tx_op \<Rightarrow> (MulticastSender \<times> 'k process) option" where
  "tx_step os pton (t, p) (Tx_Open ep) = do { (_, t, p) \<leftarrow> tx_open os pton ep t p; Some (t, p) }"
| "tx_step os pton (t, p) (Tx_Send data) = do { (_, p) \<leftarrow> tx_send os t data p; Some (t, p) }"
| "tx_step os pton (t, p) Tx_Close = tx_close os t p"

lemma rx_recv_holds: "holds (rx_fd r) B p \<Longrightarrow> yields (rx_recv os r buf p) (\<lambda>(n, buf', p). holds (rx_fd r) B p)"
  unfolding rx_recv_def Let_def
  by (intro yields_rules yields_call [where B = B]) (auto simp: call_kinds split: recv_result.split)

lemma rx_step_yields: "holds (rx_fd r) B p \<Longrightarrow> yields (rx_step os pton (r, p) op) (\<lambda>(r, p). holds (rx_fd r) B p)"
  by (cases op)
     (auto intro!: yields_rules rx_close_yields [of _ B] yields_mono [OF rx_open_yields [of _ B]]
        yields_mono [OF rx_set_recv_timeout_ms_yields [of _ B]] yields_mono [OF rx_recv_holds [of _ B]]
        simp: opened_def holds_none)

lemma tx_step_yields: "holds (tx_fd t) B p \<Longrightarrow> yields (tx_step os pton (t, p) op) (\<lambda>(t, p). holds (tx_fd t) B p)"
  by (cases op)
     (auto intro!: yields_rules tx_close_yields [of _ B] yields_mono [OF tx_open_yields [of _ B]]
        yields_mono [OF tx_send_yields [of _ B]]
        simp: opened_def holds_none)

interpretation rx: fd_owner rx_fd "rx_close os" "rx_step os pton" "\<lambda>B. True" for os pton
  by unfold_locales (auto intro: rx_close_yields rx_step_yields)

interpretation tx: fd_owner tx_fd "tx_close os" "tx_step os pton" "\<lambda>B. True" for os pton
  by unfold_locales (auto intro: tx_close_yields tx_step_yields)

end
