(* ===== verification/Tcp_Connection.thy ===== *)
theory Tcp_Connection
  imports Multicast
begin

text \<open>
  \<^verbatim>\<open>TcpClient\<close> and \<^verbatim>\<open>TcpServer\<close> of \<^verbatim>\<open>src/net/tcp_recovery.h\<close> and \<^verbatim>\<open>tcp_recovery.cpp\<close>: connecting
  with a time limit, listening and accepting, over the system interface. The listening descriptor is
  an atomic of the code; here one thread uses it, and \<^verbatim>\<open>Listener_Race\<close> has the two threads.
\<close>

section \<open>The client\<close>

record TcpClient =
  cl_fd :: fd

definition new_client :: TcpClient where
  "new_client = \<lparr>cl_fd = -1\<rparr>"

text \<open>\<^verbatim>\<open>O_NONBLOCK\<close> of the platform.\<close>

definition O_NONBLOCK :: u32 where
  "O_NONBLOCK = 0x800"

definition set_nonblock :: "'k os \<Rightarrow> fd \<Rightarrow> bool \<Rightarrow> 'k process \<Rightarrow> (bool \<times> 'k process) option" where
  "set_nonblock os fd nb p = do {
     (a, p) \<leftarrow> sys os (Fcntl_Getfl fd) p;
     if ret a < 0 then Some (False, p)
     else do {
       let flags = (of_int (ret a) :: u32);
       let flags = (if nb then flags OR O_NONBLOCK else flags AND NOT O_NONBLOCK);
       (a, p) \<leftarrow> sys os (Fcntl_Setfl fd flags) p;
       Some (ret a = 0, p) } }"

definition cl_shutdown :: "'k os \<Rightarrow> TcpClient \<Rightarrow> 'k process \<Rightarrow> 'k process option" where
  "cl_shutdown os c p =
     (if 0 \<le> cl_fd c then do { (_, p) \<leftarrow> sys os (Shutdown (cl_fd c)) p; Some p } else Some p)"

definition cl_close :: "'k os \<Rightarrow> TcpClient \<Rightarrow> 'k process \<Rightarrow> (TcpClient \<times> 'k process) option" where
  "cl_close os c p = do { (fd, p) \<leftarrow> close_fd os (cl_fd c) p; Some (c\<lparr>cl_fd := fd\<rparr>, p) }"

definition cl_fail :: "'k os \<Rightarrow> sock_error \<Rightarrow> TcpClient \<Rightarrow> 'k process \<Rightarrow>
    (sock_error option \<times> TcpClient \<times> 'k process) option" where
  "cl_fail os e c p = do { (c, p) \<leftarrow> cl_close os c p; Some (Some e, c, p) }"

text \<open>
  A connection under way is waited for with \<^verbatim>\<open>select\<close>, and its outcome read from \<^verbatim>\<open>SO_ERROR\<close>, which
  stays 0 when \<^verbatim>\<open>getsockopt\<close> fails.
\<close>

definition cl_await :: "'k os \<Rightarrow> fd \<Rightarrow> int \<Rightarrow> 'k process \<Rightarrow> (sock_error option \<times> 'k process) option" where
  "cl_await os fd timeout_ms p = do {
     FD_SET fd;
     (a, p) \<leftarrow> sys os (Select_Write fd (timeval_of_ms timeout_ms)) p;
     if ret a \<le> 0 then Some (Some E_Connect_Timeout, p)
     else do {
       (a, p) \<leftarrow> sys os (Getsockopt_Error fd) p;
       let sockerr = (if ret a < 0 then 0 else out_int a);
       Some (if sockerr \<noteq> 0 then Some (E_So_Error sockerr) else None, p) } }"

definition cl_connect :: "'k os \<Rightarrow> inet_pton \<Rightarrow> string \<Rightarrow> u16 \<Rightarrow> int \<Rightarrow> TcpClient \<Rightarrow> 'k process \<Rightarrow>
    (sock_error option \<times> TcpClient \<times> 'k process) option" where
  "cl_connect os pton host prt timeout_ms c p = do {
     (c, p) \<leftarrow> cl_close os c p;
     (s, p) \<leftarrow> sys os (Socket SOCK_STREAM) p;
     let fd = ret s;
     let c = c\<lparr>cl_fd := fd\<rparr>;
     if fd < 0 then Some (Some (E_Socket (errno s)), c, p)
     else (case pton (c_str host) of
       None \<Rightarrow> cl_fail os E_Inet_Pton c p
     | Some ip \<Rightarrow> do {
         (_, p) \<leftarrow> set_nonblock os fd True p;
         (a, p) \<leftarrow> sys os (Connect fd \<lparr>sin_addr = ip, sin_port = prt\<rparr>) p;
         if ret a < 0 \<and> errno a \<noteq> EINPROGRESS then cl_fail os (E_Connect (errno a)) c p
         else do {
           (e, p) \<leftarrow> (if ret a < 0 then cl_await os fd timeout_ms p else Some (None, p));
           (case e of
              Some err \<Rightarrow> cl_fail os err c p
            | None \<Rightarrow> do { (_, p) \<leftarrow> set_nonblock os fd False p; Some (None, c, p) }) } }) }"

definition cl_send_all :: "'k os \<Rightarrow> TcpClient \<Rightarrow> byte list \<Rightarrow> 'k process \<Rightarrow> (bool \<times> 'k process) option" where
  "cl_send_all os c data p = tcp_send_all (sys_send os (cl_fd c)) data p"

definition cl_recv_frame :: "'k os \<Rightarrow> TcpClient \<Rightarrow> 'k process \<Rightarrow> (byte list option \<times> 'k process) option" where
  "cl_recv_frame os c p = tcp_recv_frame (sys_recv os (cl_fd c)) p"

section \<open>The server\<close>

record TcpServer =
  srv_fd :: fd
  srv_port :: u16

definition new_server :: TcpServer where
  "new_server = \<lparr>srv_fd = -1, srv_port = 0\<rparr>"

text \<open>The exchange takes the descriptor out whatever it is.\<close>

definition srv_close :: "'k os \<Rightarrow> TcpServer \<Rightarrow> 'k process \<Rightarrow> (TcpServer \<times> 'k process) option" where
  "srv_close os s p =
     (let old = srv_fd s; s = s\<lparr>srv_fd := -1\<rparr> in
      if 0 \<le> old then do { (_, p) \<leftarrow> sys os (Close old) p; Some (s, p) } else Some (s, p))"

definition srv_fail :: "'k os \<Rightarrow> sock_error \<Rightarrow> TcpServer \<Rightarrow> 'k process \<Rightarrow>
    (sock_error option \<times> TcpServer \<times> 'k process) option" where
  "srv_fail os e s p = do { (s, p) \<leftarrow> srv_close os s p; Some (Some e, s, p) }"

definition srv_listen :: "'k os \<Rightarrow> inet_pton \<Rightarrow> string \<Rightarrow> u16 \<Rightarrow> TcpServer \<Rightarrow> 'k process \<Rightarrow>
    (sock_error option \<times> TcpServer \<times> 'k process) option" where
  "srv_listen os pton bind_host prt s p = do {
     (s, p) \<leftarrow> srv_close os s p;
     (a, p) \<leftarrow> sys os (Socket SOCK_STREAM) p;
     let fd = ret a;
     if fd < 0 then Some (Some (E_Socket (errno a)), s, p)
     else do {
       let s = s\<lparr>srv_fd := fd\<rparr>;
       (_, p) \<leftarrow> sys os (Setsockopt fd (SO_REUSEADDR 1)) p;
       (case pton (c_str bind_host) of
          None \<Rightarrow> srv_fail os E_Inet_Pton s p
        | Some ip \<Rightarrow> do {
            (a, p) \<leftarrow> sys os (Bind fd \<lparr>sin_addr = ip, sin_port = prt\<rparr>) p;
            if ret a < 0 then srv_fail os (E_Bind (errno a)) s p
            else do {
              (a, p) \<leftarrow> sys os (Listen fd 4) p;
              if ret a < 0 then srv_fail os (E_Listen (errno a)) s p
              else do {
                (a, p) \<leftarrow> sys os (Getsockname fd) p;
                Some (None, s\<lparr>srv_port := (if ret a < 0 then prt else sin_port (out_addr a))\<rparr>, p) } } }) } }"

definition srv_accept_one :: "'k os \<Rightarrow> int \<Rightarrow> TcpServer \<Rightarrow> 'k process \<Rightarrow> (fd \<times> 'k process) option" where
  "srv_accept_one os timeout_ms s p =
     (let fd = srv_fd s in
      if fd < 0 then Some (-1, p)
      else do {
        FD_SET fd;
        (a, p) \<leftarrow> sys os (Select_Read fd (timeval_of_ms timeout_ms)) p;
        if ret a \<le> 0 then Some (-1, p)
        else do { (a, p) \<leftarrow> sys os (Accept fd) p; Some (ret a, p) } })"

section \<open>Descriptors of the client\<close>

text \<open>\<^verbatim>\<open>select\<close> needs a descriptor below \<^verbatim>\<open>FD_SETSIZE\<close>: fewer than so many are open elsewhere.\<close>

definition fd_room :: "fd set \<Rightarrow> bool" where
  "fd_room B \<longleftrightarrow> int (card B) < FD_SETSIZE"

lemma yields_FD_SET: "holds fd B p \<Longrightarrow> fd_room B \<Longrightarrow> 0 \<le> fd \<Longrightarrow> Q () \<Longrightarrow> yields (FD_SET fd) Q"
  using holds_FD_SET [of fd B p] by (simp add: fd_room_def)

lemma set_nonblock_yields:
  "holds fd B p \<Longrightarrow> (\<And>ok p'. holds fd B p' \<Longrightarrow> Q (ok, p')) \<Longrightarrow> yields (set_nonblock os fd nb p) Q"
  unfolding set_nonblock_def Let_def
  by (intro yields_rules yields_call [where B = B]) (auto simp: call_kinds)

lemma cl_close_yields:
  "holds (cl_fd c) B p \<Longrightarrow> (\<And>c' p'. cl_fd c' < 0 \<Longrightarrow> set (fds p') = B \<Longrightarrow> Q (c', p')) \<Longrightarrow> yields (cl_close os c p) Q"
  unfolding cl_close_def by (intro yields_rules yields_close_fd [of _ B]) auto

lemma cl_fail_yields: "holds (cl_fd c) B p \<Longrightarrow> yields (cl_fail os e c p) (\<lambda>(e, c, p). opened B e (cl_fd c) p)"
  unfolding cl_fail_def by (intro yields_rules cl_close_yields [of _ B]) (auto simp: opened_def holds_none)

lemma cl_await_yields:
  "holds fd B p \<Longrightarrow> fd_room B \<Longrightarrow> 0 \<le> fd \<Longrightarrow> (\<And>e p'. holds fd B p' \<Longrightarrow> Q (e, p')) \<Longrightarrow>
   yields (cl_await os fd ms p) Q"
  unfolding cl_await_def Let_def
  by (intro yields_rules yields_FD_SET [of _ B p] yields_call [where B = B]) (auto simp: call_kinds)

lemma cl_connect_yields:
  "holds (cl_fd c) B p \<Longrightarrow> fd_room B \<Longrightarrow>
   yields (cl_connect os pton host prt ms c p) (\<lambda>(e, c, p). opened B e (cl_fd c) p)"
  unfolding cl_connect_def Let_def
  by (intro yields_rules cl_close_yields [of _ B] yields_socket [of _ B] yields_call [where B = B]
        set_nonblock_yields [of _ B] cl_await_yields [of _ B] cl_fail_yields)
     (auto simp: opened_def call_kinds intro!: yields_rules set_nonblock_yields)

section \<open>Descriptors of the server\<close>

lemma srv_close_fd: "srv_fd s < 0 \<Longrightarrow> srv_close os s p = Some (s\<lparr>srv_fd := -1\<rparr>, p)"
  by (simp add: srv_close_def)

lemma srv_close_yields:
  assumes "holds (srv_fd s) B p"
    and "\<And>s' p'. srv_fd s' < 0 \<Longrightarrow> srv_port s' = srv_port s \<Longrightarrow> set (fds p') = B \<Longrightarrow> Q (s', p')"
  shows "yields (srv_close os s p) Q"
proof (cases "0 \<le> srv_fd s")
  case True
  have "yields (close_fd os (srv_fd s) p) (\<lambda>(fd, p'). set (fds p') = B)"
    using assms(1) by (rule yields_close_fd) auto
  then show ?thesis using True assms(2)
    by (cases "sys os (Close (srv_fd s)) p") (auto simp: srv_close_def close_fd_def yields_def)
next
  case False
  then show ?thesis using assms by (simp add: srv_close_fd holds_none)
qed

lemma srv_fail_yields: "holds (srv_fd s) B p \<Longrightarrow> yields (srv_fail os e s p) (\<lambda>(e, s, p). opened B e (srv_fd s) p)"
  unfolding srv_fail_def by (intro yields_rules srv_close_yields [of _ B]) (auto simp: opened_def holds_none)

lemma srv_listen_yields:
  "holds (srv_fd s) B p \<Longrightarrow> yields (srv_listen os pton host prt s p) (\<lambda>(e, s, p). opened B e (srv_fd s) p)"
  unfolding srv_listen_def Let_def
  by (intro yields_rules srv_close_yields [of _ B] yields_socket [of _ B] yields_call [where B = B] srv_fail_yields)
     (auto simp: opened_def call_kinds holds_none)

text \<open>A connection that is accepted is one descriptor more, which the caller owns.\<close>

lemma holds_accept:
  assumes "holds fd B p" "0 \<le> fd"
  shows "yields (sys os (Accept fd) p) (\<lambda>(a, p'). if ret a < 0 then holds fd B p'
    else ret a \<notin> set (fds p) \<and> holds fd (insert (ret a) B) p')"
proof -
  have fd: "fd \<in> set (fds p)" using assms by (simp add: holds_def)
  show ?thesis
  proof (rule sys_accept [OF fd assms(2), of os])
    fix a p' assume "sys os (Accept fd) p = Some (a, p')" "ret a < 0" "fds p' = fds p"
    then show ?thesis using assms by (simp add: yields_def holds_def)
  next
    fix a p' assume opened: "sys os (Accept fd) p = Some (a, p')" "ret a = lowest_free (fds p)"
      "fds p' = lowest_free (fds p) # fds p"
    have n: "lowest_free (fds p) \<notin> insert fd B" "0 \<le> lowest_free (fds p)"
      using lowest_free_spec [of "fds p"] assms by (auto simp: holds_def)
    have "finite B" using assms by (metis holds_def finite_insert finite_set not_less)
    then have "fd \<le> int (card (insert (lowest_free (fds p)) B))" using n assms by (simp add: holds_def)
    then show ?thesis using opened n assms by (auto simp: yields_def holds_def)
  qed
qed

lemma srv_accept_one_yields:
  assumes own: "holds (srv_fd s) B p" and room: "srv_fd s < FD_SETSIZE"
  shows "yields (srv_accept_one os ms s p) (\<lambda>(n, p'). if n < 0 then holds (srv_fd s) B p'
    else 0 \<le> srv_fd s \<and> n \<notin> insert (srv_fd s) B \<and> holds (srv_fd s) (insert n B) p')"
proof (cases "0 \<le> srv_fd s")
  case True
  obtain a p1 where 1: "sys os (Select_Read (srv_fd s) (timeval_of_ms ms)) p = Some (a, p1)" "holds (srv_fd s) B p1"
    by (rule holds_call [OF own, of "Select_Read (srv_fd s) (timeval_of_ms ms)" os]) (auto simp: call_kinds)
  have fs: "FD_SET (srv_fd s) = Some ()"
    using True room by (simp add: FD_SET_def)
  have "set (fds p1) = insert (srv_fd s) B" using 1(2) True by (simp add: holds_def)
  then have "yields (do { (a, p) \<leftarrow> sys os (Accept (srv_fd s)) p1; Some (ret a, p) }) (\<lambda>(n, p'). if n < 0
      then holds (srv_fd s) B p'
      else 0 \<le> srv_fd s \<and> n \<notin> insert (srv_fd s) B \<and> holds (srv_fd s) (insert n B) p')"
    using True by (intro yields_rules yields_mono [OF holds_accept [OF 1(2) True]]) (auto split: if_splits)
  then show ?thesis using True 1 own by (simp add: srv_accept_one_def fs)
qed (use own in \<open>simp add: srv_accept_one_def\<close>)

section \<open>Lifetimes\<close>

datatype cl_op = Cl_Connect string u16 int | Cl_Shutdown | Cl_Close

fun cl_step :: "'k os \<Rightarrow> inet_pton \<Rightarrow> TcpClient \<times> 'k process \<Rightarrow> cl_op \<Rightarrow> (TcpClient \<times> 'k process) option" where
  "cl_step os pton (c, p) (Cl_Connect host prt ms) = do { (_, c, p) \<leftarrow> cl_connect os pton host prt ms c p; Some (c, p) }"
| "cl_step os pton (c, p) Cl_Shutdown = do { p \<leftarrow> cl_shutdown os c p; Some (c, p) }"
| "cl_step os pton (c, p) Cl_Close = cl_close os c p"

datatype srv_op = Srv_Listen string u16 | Srv_Close

fun srv_step :: "'k os \<Rightarrow> inet_pton \<Rightarrow> TcpServer \<times> 'k process \<Rightarrow> srv_op \<Rightarrow> (TcpServer \<times> 'k process) option" where
  "srv_step os pton (s, p) (Srv_Listen host prt) = do { (_, s, p) \<leftarrow> srv_listen os pton host prt s p; Some (s, p) }"
| "srv_step os pton (s, p) Srv_Close = srv_close os s p"

lemma cl_shutdown_yields: "holds (cl_fd c) B p \<Longrightarrow> yields (cl_shutdown os c p) (\<lambda>p. holds (cl_fd c) B p)"
  unfolding cl_shutdown_def
  by (intro yields_rules yields_call [where B = B]) (auto simp: call_kinds)

text \<open>The loops over the connection keep the descriptors, when they return.\<close>

lemma cl_send_all_holds: "cl_send_all os c data p = Some (ok, p') \<Longrightarrow> holds (cl_fd c) B p \<Longrightarrow> holds (cl_fd c) B p'"
  unfolding cl_send_all_def
  by (erule tcp_send_all_preserves [where I = "holds (cl_fd c) B"]) (simp_all add: holds_fds [OF sys_send_fds])

lemma cl_recv_frame_holds: "cl_recv_frame os c p = Some (f, p') \<Longrightarrow> holds (cl_fd c) B p \<Longrightarrow> holds (cl_fd c) B p'"
  unfolding cl_recv_frame_def
  by (erule tcp_recv_frame_preserves [where I = "holds (cl_fd c) B"]) (simp_all add: holds_fds [OF sys_recv_fds])

lemma cl_step_yields:
  "holds (cl_fd c) B p \<Longrightarrow> fd_room B \<Longrightarrow> yields (cl_step os pton (c, p) op) (\<lambda>(c, p). holds (cl_fd c) B p)"
  by (cases op)
     (auto intro!: yields_rules cl_close_yields [of _ B] yields_mono [OF cl_connect_yields [of _ B]]
        yields_mono [OF cl_shutdown_yields [of _ B]]
        simp: opened_def holds_none)

lemma srv_step_yields: "holds (srv_fd s) B p \<Longrightarrow> yields (srv_step os pton (s, p) op) (\<lambda>(s, p). holds (srv_fd s) B p)"
  by (cases op)
     (auto intro!: yields_rules srv_close_yields [of _ B] yields_mono [OF srv_listen_yields [of _ B]]
        simp: opened_def holds_none)

interpretation cl: fd_owner cl_fd "cl_close os" "cl_step os pton" fd_room for os pton
  by unfold_locales (auto intro: cl_close_yields cl_step_yields)

interpretation srv: fd_owner srv_fd "srv_close os" "srv_step os pton" "\<lambda>B. True" for os pton
  by unfold_locales (auto intro: srv_close_yields srv_step_yields)

section \<open>Properties\<close>


text \<open>C25: opening succeeds exactly when it leaves a descriptor: each of the four calls that open a socket returns
  for any answers of the system; when it reports success the object holds one descriptor more than
  there were, the lowest that was free at most, and when it reports an error the object has none and
  the process has the descriptors it had.\<close>

theorem opening_reported:
  assumes "int (card (set (fds p))) < FD_SETSIZE"
  shows "(\<exists>e r p'. rx_open os pton ep new_receiver p = Some (e, r, p') \<and> opened (set (fds p)) e (rx_fd r) p') \<and>
    (\<exists>e t p'. tx_open os pton ep new_sender p = Some (e, t, p') \<and> opened (set (fds p)) e (tx_fd t) p') \<and>
    (\<exists>e c p'. cl_connect os pton host prt ms new_client p = Some (e, c, p') \<and> opened (set (fds p)) e (cl_fd c) p') \<and>
    (\<exists>e s p'. srv_listen os pton host prt new_server p = Some (e, s, p') \<and> opened (set (fds p)) e (srv_fd s) p')"
proof -
  have room: "fd_room (set (fds p))" using assms by (simp add: fd_room_def)
  have new: "holds (-1) (set (fds p)) p" by (simp add: holds_none)
  show ?thesis
    using rx_open_yields [of new_receiver _ p os pton ep] tx_open_yields [of new_sender _ p os pton ep]
      cl_connect_yields [of new_client _ p os pton host prt ms] srv_listen_yields [of new_server _ p os pton host prt] room new
    by (simp add: new_receiver_def new_sender_def new_client_def new_server_def yields_def)
qed

text \<open>A system in which every call succeeds, except that connections end at once.\<close>

definition plain_answer :: answer where
  "plain_answer = \<lparr>ret = 1, errno = EOTHER, out_int = 0, out_addr = \<lparr>sin_addr = 0, sin_port = 9\<rparr>, out_bytes = []\<rparr>"

definition plain_os :: "unit os" where
  "plain_os k c = (plain_answer\<lparr>ret := (case c of Send _ _ \<Rightarrow> -1 | _ \<Rightarrow> 1)\<rparr>, ())"

definition plain_process :: "unit process" where
  "plain_process = \<lparr>fds = [0, 1, 2], os_state = ()\<rparr>"


theorem opening_reported_witness:
  "\<exists>s p'. srv_listen plain_os (\<lambda>s. Some 1) ''127.0.0.1'' 0 new_server plain_process = Some (None, s, p') \<and>
     srv_fd s = 3 \<and> srv_port s = 9 \<and> opened {0, 1, 2} None 3 p'"
proof -
  have c: "int (card (set (fds plain_process))) < FD_SETSIZE" by (simp add: plain_process_def FD_SETSIZE_def)
  obtain s p' where r: "srv_listen plain_os (\<lambda>s. Some 1) ''127.0.0.1'' 0 new_server plain_process = Some (None, s, p')"
      "srv_fd s = 3" "srv_port s = 9"
    using that [of "\<lparr>srv_fd = 3, srv_port = 9\<rparr>"]
    by (simp add: srv_listen_def srv_close_def new_server_def sys_def perform_def plain_process_def plain_os_def plain_answer_def
        gives_fd_def takes_fd_def lowest_free_def Let_def)
  with opening_reported [OF c, of plain_os "\<lambda>s. Some 1" _ "''127.0.0.1''" 0 0] show ?thesis
    by (auto simp: plain_process_def)
qed

end
