(* ===== verification/Services.thy ===== *)
theory Services
  imports Tcp_Connection Snapshot_Server Snapshot_Publisher
begin

text \<open>
  The life of the two servers of \<^verbatim>\<open>src/sim\<close> on the system interface: \<^verbatim>\<open>SnapshotServer\<close> (start, the
  turns of its loop, stop) and \<^verbatim>\<open>BookSnapshotPublisher\<close> (likewise, with the connections of its
  subscribers). \<^verbatim>\<open>stop\<close> joins the thread, so no turn is under way when it returns; the turns between
  \<^verbatim>\<open>start\<close> and \<^verbatim>\<open>stop\<close> are an argument. The descriptors of the process are followed throughout.
\<close>

section \<open>The snapshot server\<close>

record SnapshotService =
  ss_server :: TcpServer
  ss_state :: SnapshotServer
  ss_provider :: "(SnapshotRequest \<Rightarrow> SnapshotResponse) option"
  ss_joinable :: bool

definition new_snapshot_service :: SnapshotService where
  "new_snapshot_service =
     \<lparr>ss_server = new_server, ss_state = new_snapshot_server, ss_provider = None, ss_joinable = False\<rparr>"

definition ss_set_running :: "bool \<Rightarrow> SnapshotService \<Rightarrow> SnapshotService" where
  "ss_set_running b v = v\<lparr>ss_state := (ss_state v)\<lparr>running := b\<rparr>\<rparr>"

definition ss_stop :: "'k os \<Rightarrow> SnapshotService \<Rightarrow> 'k process \<Rightarrow> (SnapshotService \<times> 'k process) option" where
  "ss_stop os v p = do {
     let v = ss_set_running False v;
     (srv, p) \<leftarrow> srv_close os (ss_server v) p;
     Some (v\<lparr>ss_server := srv, ss_joinable := False\<rparr>, p) }"

definition ss_start :: "'k os \<Rightarrow> inet_pton \<Rightarrow> u16 \<Rightarrow> (SnapshotRequest \<Rightarrow> SnapshotResponse) option \<Rightarrow>
    SnapshotService \<Rightarrow> 'k process \<Rightarrow> (sock_error option \<times> SnapshotService \<times> 'k process) option" where
  "ss_start os pton prt provider v p = do {
     (v, p) \<leftarrow> ss_stop os v p;
     let v = v\<lparr>ss_provider := provider\<rparr>;
     (e, srv, p) \<leftarrow> srv_listen os pton ''127.0.0.1'' prt (ss_server v) p;
     let v = v\<lparr>ss_server := srv\<rparr>;
     Some (if e \<noteq> None then (e, v, p) else (None, (ss_set_running True v)\<lparr>ss_joinable := True\<rparr>, p)) }"

definition ss_turn :: "'k os \<Rightarrow> SnapshotResponse \<Rightarrow> SnapshotService \<Rightarrow> 'k process \<Rightarrow>
    (SnapshotService \<times> 'k process) option" where
  "ss_turn os indet v p = do {
     (cfd, p) \<leftarrow> srv_accept_one os 100 (ss_server v) p;
     if cfd < 0 then Some (v, p)
     else do {
       (st, c) \<leftarrow> serve_turn indet (sys_recv os cfd) (sys_send os cfd) id (ss_provider v) (Some p) (ss_state v);
       (case c of
          None \<Rightarrow> Some (v, p)
        | Some p \<Rightarrow> do { (_, p) \<leftarrow> sys os (Close cfd) p; Some (v\<lparr>ss_state := st\<rparr>, p) }) } }"

text \<open>The loop until it has taken \<^verbatim>\<open>n\<close> turns or \<^verbatim>\<open>running_\<close> is false.\<close>

fun ss_run :: "'k os \<Rightarrow> SnapshotResponse \<Rightarrow> nat \<Rightarrow> SnapshotService \<Rightarrow> 'k process \<Rightarrow>
    (SnapshotService \<times> 'k process) option" where
  "ss_run os indet 0 v p = Some (v, p)"
| "ss_run os indet (Suc n) v p =
     (if running (ss_state v) then do { (v, p) \<leftarrow> ss_turn os indet v p; ss_run os indet n v p }
      else Some (v, p))"

section \<open>The book snapshot publisher\<close>

record PublisherService =
  ps_server :: TcpServer
  ps_pub :: "fd BookSnapshotPublisher"
  ps_running :: bool
  ps_joinable :: bool

definition new_publisher_service :: PublisherService where
  "new_publisher_service =
     \<lparr>ps_server = new_server, ps_pub = start_publisher \<lparr>interval_ms = 0, every_messages = 0\<rparr> 0,
      ps_running = False, ps_joinable = False\<rparr>"

fun close_all :: "'k os \<Rightarrow> fd list \<Rightarrow> 'k process \<Rightarrow> 'k process option" where
  "close_all os [] p = Some p"
| "close_all os (fd # fs) p =
     (if 0 \<le> fd then do { (_, p) \<leftarrow> sys os (Close fd) p; close_all os fs p } else close_all os fs p)"

definition ps_stop :: "'k os \<Rightarrow> PublisherService \<Rightarrow> 'k process \<Rightarrow> (PublisherService \<times> 'k process) option" where
  "ps_stop os v p = do {
     (srv, p) \<leftarrow> srv_close os (ps_server v) p;
     p \<leftarrow> close_all os (subscribers (ps_pub v)) p;
     Some (\<lparr>ps_server = srv, ps_pub = (ps_pub v)\<lparr>subscribers := []\<rparr>, ps_running = False, ps_joinable = False\<rparr>, p) }"

definition ps_start :: "'k os \<Rightarrow> inet_pton \<Rightarrow> u16 \<Rightarrow> BookSnapshotPolicy \<Rightarrow> PublisherService \<Rightarrow> 'k process \<Rightarrow>
    (sock_error option \<times> PublisherService \<times> 'k process) option" where
  "ps_start os pton prt pol v p = do {
     (v, p) \<leftarrow> ps_stop os v p;
     let v = v\<lparr>ps_pub := (ps_pub v)\<lparr>policy := pol, pub_seq := 0, last_msg_mark := 0, msg_counter := 0, published := 0\<rparr>\<rparr>;
     (e, srv, p) \<leftarrow> srv_listen os pton ''127.0.0.1'' prt (ps_server v) p;
     let v = v\<lparr>ps_server := srv\<rparr>;
     if e \<noteq> None then Some (e, v, p)
     else
       let (now, p) = steady_now os p in
       Some (None, v\<lparr>ps_pub := (ps_pub v)\<lparr>last_publish := now\<rparr>, ps_running := True, ps_joinable := True\<rparr>, p) }"

text \<open>A subscriber whose connection fails is closed and dropped.\<close>

fun push_fds :: "'k os \<Rightarrow> byte list \<Rightarrow> fd list \<Rightarrow> 'k process \<Rightarrow> (fd list \<times> 'k process) option" where
  "push_fds os frame [] p = Some ([], p)"
| "push_fds os frame (fd # fs) p = do {
     (k, p) \<leftarrow> tcp_send_all (sys_send os fd) frame p;
     if k then do { (live, p) \<leftarrow> push_fds os frame fs p; Some (fd # live, p) }
     else do { (_, p) \<leftarrow> sys os (Close fd) p; push_fds os frame fs p } }"

definition ps_turn :: "'k os \<Rightarrow> ((SymbolKey \<rightharpoonup> Symbol) \<Rightarrow> SymbolKey list) \<Rightarrow> DepthBook \<Rightarrow>
    PublisherService \<Rightarrow> 'k process \<Rightarrow> (PublisherService \<times> 'k process) option" where
  "ps_turn os iter d v p = do {
     (cfd, p) \<leftarrow> srv_accept_one os 20 (ps_server v) p;
     let b = accept_subscriber (if 0 \<le> cfd then Some cfd else None) (ps_pub v);
     let (now, p) = steady_now os p;
     let msgs = msg_counter b;
     if \<not> should_publish b now msgs then Some (v\<lparr>ps_pub := b\<rparr>, p)
     else do {
       let (snap, b) = capture_next iter d (mark_publish now msgs b);
       (live, p) \<leftarrow> push_fds os (encode_book_snapshot snap) (subscribers b) p;
       Some (v\<lparr>ps_pub := b\<lparr>subscribers := live, published := published b + 1\<rparr>\<rparr>, p) } }"

text \<open>The turns of the loop, each with the book it sees and the messages noted before it.\<close>

fun ps_run :: "'k os \<Rightarrow> ((SymbolKey \<rightharpoonup> Symbol) \<Rightarrow> SymbolKey list) \<Rightarrow> (nat \<times> DepthBook) list \<Rightarrow>
    PublisherService \<Rightarrow> 'k process \<Rightarrow> (PublisherService \<times> 'k process) option" where
  "ps_run os iter [] v p = Some (v, p)"
| "ps_run os iter ((noted, d) # us) v p =
     (if ps_running v then do {
        (v, p) \<leftarrow> ps_turn os iter d (v\<lparr>ps_pub := (note_message ^^ noted) (ps_pub v)\<rparr>) p;
        ps_run os iter us v p }
      else Some (v, p))"

section \<open>Descriptors of the snapshot server\<close>

lemma opened_low: "opened B e fd p \<Longrightarrow> fd_room B \<Longrightarrow> fd < FD_SETSIZE"
  by (auto simp: opened_def holds_def fd_room_def FD_SETSIZE_def split: if_splits)

text \<open>A turn on a connection returns whatever the peer sends, and keeps what its calls keep.\<close>

lemma serve_turn_keeps:
  fixes indet :: SnapshotResponse
  assumes st: "recv_stalls recv rst" "send_stalls send sst"
    and le: "\<And>c n xs c'. recv c n = (Received xs, c') \<Longrightarrow> length xs \<le> n"
    and kr: "\<And>c n r c'. recv c n = (r, c') \<Longrightarrow> I c \<Longrightarrow> I c'"
    and ks: "\<And>c d r c'. send c d = (r, c') \<Longrightarrow> I c \<Longrightarrow> I c'"
    and c: "I c"
  obtains s' c' where "serve_turn indet recv send id provider (Some c) s = Some (s', Some c')" "I c'"
    "running s' = running s"
proof -
  obtain f c1 where f: "tcp_recv_frame recv c = Some (f, c1)" using tcp_recv_frame_returns [OF st(1), of c] by auto
  then have c1: "I c1" using kr c by (rule tcp_recv_frame_preserves)
  show thesis
  proof (cases f)
    case None
    then show ?thesis using that [of s c1] c1 by (simp add: serve_turn_def f)
  next
    case (Some xs)
    then have "tcp_frame xs" using tcp_recv_frame_framed [OF f [unfolded Some] le] by simp
    then have "unat (be_word (take 4 xs) :: u32) < 2 ^ 32 - 4" by (auto simp: tcp_frame_iff kMaxFrame_def)
    then obtain dec n where dec: "decode_snap_frame xs = Some (dec, n)" using decode_snap_frame_safe by fastforce
    obtain b c2 where s2: "tcp_send_all send (encode_response (provide indet provider (request dec))) c1 = Some (b, c2)"
      using tcp_send_all_returns [OF st(2)] by fastforce
    then have "I c2" using ks c1 by (rule tcp_send_all_preserves)
    then show ?thesis
      using that [of s c1] that [of "s\<lparr>served := served s + 1\<rparr>" c2] c1 s2
      by (cases "kind dec = KRequest") (simp_all add: serve_turn_def f Some dec)
  qed
qed

lemma holds_close_other:
  assumes "holds fd B p0" "0 \<le> fd" "holds fd (insert n B) p" "0 \<le> n" "n \<notin> insert fd B"
  obtains a p' where "sys os (Close n) p = Some (a, p')" "holds fd B p'"
proof -
  have p: "set (fds p) = insert fd (insert n B)" using assms by (simp add: holds_def)
  then obtain a p' where "sys os (Close n) p = Some (a, p')" "set (fds p') = set (fds p) - {n}"
    using sys_close [of n p os] assms(4) by auto
  moreover from this(2) have "set (fds p') = insert fd B" using p assms(5) by auto
  ultimately show thesis using that assms(1,2) by (simp add: holds_def)
qed

definition ss_inv :: "fd set \<Rightarrow> SnapshotService \<Rightarrow> 'k process \<Rightarrow> bool" where
  "ss_inv B v p \<longleftrightarrow> holds (srv_fd (ss_server v)) B p \<and> srv_fd (ss_server v) < FD_SETSIZE"

lemma ss_stop_yields:
  "holds (srv_fd (ss_server v)) B p \<Longrightarrow>
   (\<And>v' p'. srv_fd (ss_server v') < 0 \<Longrightarrow> set (fds p') = B \<Longrightarrow> \<not> running (ss_state v') \<Longrightarrow> Q (v', p')) \<Longrightarrow>
   yields (ss_stop os v p) Q"
  unfolding ss_stop_def Let_def
  by (intro yields_rules srv_close_yields [of _ B]) (auto simp: ss_set_running_def)

lemma ss_start_yields:
  assumes "holds (srv_fd (ss_server v)) B p" "fd_room B"
  shows "yields (ss_start os pton prt provider v p)
    (\<lambda>(e, v', p'). ss_inv B v' p' \<and> (e = None \<longleftrightarrow> 0 \<le> srv_fd (ss_server v')) \<and> (e = None \<longleftrightarrow> running (ss_state v')))"
  unfolding ss_start_def Let_def
  by (intro yields_rules ss_stop_yields [of _ B] yields_mono [OF srv_listen_yields [of _ B]])
     (use assms opened_low [of B] in \<open>auto simp: ss_inv_def ss_set_running_def holds_none, auto simp: opened_def\<close>)

lemma ss_turn_yields:
  assumes inv: "ss_inv B v p" and os: "interrupts_end os stalls"
  shows "yields (ss_turn os indet v p) (\<lambda>(v', p'). ss_inv B v' p' \<and> running (ss_state v') = running (ss_state v))"
proof -
  let ?fd = "srv_fd (ss_server v)"
  have own: "holds ?fd B p" "?fd < FD_SETSIZE" using inv by (simp_all add: ss_inv_def)
  obtain n p1 where n: "srv_accept_one os 100 (ss_server v) p = Some (n, p1)"
      "if n < 0 then holds ?fd B p1 else 0 \<le> ?fd \<and> n \<notin> insert ?fd B \<and> holds ?fd (insert n B) p1"
    using srv_accept_one_yields [OF own, of os 100] by (auto simp: yields_def)
  show ?thesis
  proof (cases "n < 0")
    case True
    then show ?thesis using n own by (simp add: ss_turn_def ss_inv_def)
  next
    case False
    then have n2: "0 \<le> ?fd" "n \<notin> insert ?fd B" "holds ?fd (insert n B) p1" "0 \<le> n" using n by auto
    obtain st p2 where t: "serve_turn indet (sys_recv os n) (sys_send os n) id (ss_provider v) (Some p1) (ss_state v) =
        Some (st, Some p2)" "holds ?fd (insert n B) p2" "running st = running (ss_state v)"
      by (rule serve_turn_keeps [where I = "holds ?fd (insert n B)" and c = p1 and indet = indet
            and provider = "ss_provider v" and s = "ss_state v", OF sys_stalls [OF os, of n]])
         (auto intro: sys_recv_within simp: holds_fds [OF sys_recv_fds] holds_fds [OF sys_send_fds] n2(3))
    obtain a p3 where "sys os (Close n) p2 = Some (a, p3)" "holds ?fd B p3"
      using holds_close_other [OF own(1) n2(1) t(2) n2(4,2)] .
    then show ?thesis using False n(1) t own by (simp add: ss_turn_def ss_inv_def)
  qed
qed

lemma ss_run_yields:
  assumes "ss_inv B v p" and os: "interrupts_end os stalls"
  shows "yields (ss_run os indet n v p) (\<lambda>(v', p'). ss_inv B v' p')"
  using assms(1)
proof (induction n arbitrary: v p)
  case (Suc n)
  then show ?case by (auto intro!: yields_rules yields_mono [OF ss_turn_yields [OF _ os]])
qed simp

section \<open>Descriptors of the publisher\<close>

text \<open>Connections on top of the descriptors \<^verbatim>\<open>R\<close>.\<close>

definition conns :: "fd set \<Rightarrow> fd list \<Rightarrow> 'k process \<Rightarrow> bool" where
  "conns R cs p \<longleftrightarrow> set (fds p) = R \<union> set cs \<and> R \<inter> set cs = {} \<and> distinct cs \<and> (\<forall>c \<in> set cs. 0 \<le> c)"

lemma conns_fds: "fds p' = fds p \<Longrightarrow> conns R cs p' = conns R cs p"
  by (simp add: conns_def)

lemma conns_close:
  assumes "conns R (c # cs) p"
  shows "yields (sys os (Close c) p) (\<lambda>(a, p'). conns R cs p')"
proof -
  have "c \<in> set (fds p)" "0 \<le> c" using assms by (auto simp: conns_def)
  then obtain a p' where "sys os (Close c) p = Some (a, p')" "set (fds p') = set (fds p) - {c}"
    using sys_close [of c p os] by blast
  then show ?thesis using assms by (auto simp: conns_def yields_def)
qed

lemma close_all_yields: "conns R cs p \<Longrightarrow> (\<And>p'. set (fds p') = R \<Longrightarrow> Q p') \<Longrightarrow> yields (close_all os cs p) Q"
proof (induction cs arbitrary: p)
  case (Cons c cs)
  moreover have "0 \<le> c" using Cons.prems(1) by (simp add: conns_def)
  ultimately show ?case by (auto intro!: yields_rules yields_mono [OF conns_close])
qed (simp add: conns_def)

lemma push_fds_yields:
  assumes os: "interrupts_end os stalls"
  shows "conns R cs p \<Longrightarrow> yields (push_fds os frame cs p) (\<lambda>(live, p'). conns R live p' \<and> set live \<subseteq> set cs)"
proof (induction cs arbitrary: R p)
  case (Cons c cs)
  obtain k p1 where k: "tcp_send_all (sys_send os c) frame p = Some (k, p1)"
    using tcp_send_all_returns [OF sys_stalls(2) [OF os]] by fastforce
  then have p1: "conns R (c # cs) p1"
    by (rule tcp_send_all_preserves [where I = "conns R (c # cs)"])
       (use Cons.prems in \<open>simp_all add: conns_def sys_send_fds\<close>)
  show ?case
  proof (cases k)
    case True
    have "conns (insert c R) cs p1" using p1 by (auto simp: conns_def)
    from Cons.IH [OF this] obtain live p2 where l: "push_fds os frame cs p1 = Some (live, p2)"
        "conns (insert c R) live p2" "set live \<subseteq> set cs" by (auto simp: yields_def)
    have "conns R (c # live) p2" using l(2,3) p1 by (auto simp: conns_def)
    then show ?thesis using True k l by (auto simp: yields_def)
  next
    case False
    obtain a p2 where c: "sys os (Close c) p1 = Some (a, p2)" "conns R cs p2"
      using conns_close [OF p1, of os] by (auto simp: yields_def)
    from Cons.IH [OF c(2)] show ?thesis using False k c(1) by (auto elim!: yields_mono)
  qed
qed simp

definition ps_inv :: "fd set \<Rightarrow> PublisherService \<Rightarrow> 'k process \<Rightarrow> bool" where
  "ps_inv B v p \<longleftrightarrow>
     (let fd = srv_fd (ps_server v) in
      fd < FD_SETSIZE \<and> (0 \<le> fd \<longrightarrow> fd \<notin> B \<and> fd \<le> int (card B)) \<and>
      conns (if fd < 0 then B else insert fd B) (subscribers (ps_pub v)) p)"

lemma conns_finite: "conns R cs p \<Longrightarrow> finite R"
  by (metis conns_def finite_Un finite_set)

lemma conns_holds:
  assumes "conns (if fd < 0 then B else insert fd B) cs p" "0 \<le> fd \<Longrightarrow> fd \<notin> B \<and> fd \<le> int (card B)"
  shows "holds fd (B \<union> set cs) p"
proof -
  have "finite B" using conns_finite [OF assms(1)] by (simp split: if_splits)
  then have "card B \<le> card (B \<union> set cs)" by (intro card_mono) auto
  then show ?thesis using assms by (auto simp: conns_def holds_def)
qed

lemma ps_inv_holds: "ps_inv B v p \<Longrightarrow> holds (srv_fd (ps_server v)) (B \<union> set (subscribers (ps_pub v))) p"
  by (rule conns_holds) (auto simp: ps_inv_def Let_def)

lemma ps_stop_yields:
  assumes inv: "ps_inv B v p"
    and Q: "\<And>v' p'. srv_fd (ps_server v') < 0 \<Longrightarrow> set (fds p') = B \<Longrightarrow> \<not> ps_running v' \<Longrightarrow>
      subscribers (ps_pub v') = [] \<Longrightarrow> Q (v', p')"
  shows "yields (ps_stop os v p) Q"
proof -
  let ?cs = "subscribers (ps_pub v)"
  have "B \<inter> set ?cs = {}" "distinct ?cs" "\<forall>c \<in> set ?cs. 0 \<le> c"
    using inv by (auto simp: ps_inv_def conns_def Let_def split: if_splits)
  then have c: "set (fds p') = B \<union> set ?cs \<Longrightarrow> conns B ?cs p'" for p' :: "'a process" by (auto simp: conns_def)
  show ?thesis
    unfolding ps_stop_def Let_def
    by (intro yields_rules srv_close_yields [OF ps_inv_holds [OF inv]] close_all_yields [OF c]) (auto intro: Q)
qed

lemma opened_ps:
  "opened B e (srv_fd (ps_server v)) q \<Longrightarrow> fd_room B \<Longrightarrow> subscribers (ps_pub v) = [] \<Longrightarrow> fds p = fds q \<Longrightarrow>
   ps_inv B v p \<and> (e = None \<longleftrightarrow> 0 \<le> srv_fd (ps_server v))"
  using opened_low [of B e "srv_fd (ps_server v)" q]
  by (auto simp: ps_inv_def conns_def Let_def opened_def holds_def split: if_splits)

lemma ps_start_yields:
  assumes inv: "ps_inv B v p" and room: "fd_room B"
  shows "yields (ps_start os pton prt pol v p) (\<lambda>(e, v', p'). ps_inv B v' p' \<and>
    (e = None \<longleftrightarrow> 0 \<le> srv_fd (ps_server v')) \<and> (e = None \<longleftrightarrow> ps_running v'))"
proof -
  obtain v1 p1 where 1: "ps_stop os v p = Some (v1, p1)" "srv_fd (ps_server v1) < 0" "set (fds p1) = B"
      "\<not> ps_running v1" "subscribers (ps_pub v1) = []"
    using ps_stop_yields [OF inv, of "\<lambda>(v', p'). srv_fd (ps_server v') < 0 \<and> set (fds p') = B \<and> \<not> ps_running v' \<and>
      subscribers (ps_pub v') = []" os] by (auto simp: yields_def)
  obtain e srv p2 where 2: "srv_listen os pton ''127.0.0.1'' prt (ps_server v1) p1 = Some (e, srv, p2)"
      "opened B e (srv_fd srv) p2"
    using srv_listen_yields [of "ps_server v1" B p1 os pton "''127.0.0.1''" prt] 1 by (auto simp: yields_def holds_none)
  obtain t p3 where 3: "steady_now os p2 = (t, p3)" by force
  have eq: "e = None \<longleftrightarrow> 0 \<le> srv_fd srv" using 2(2) by (simp add: opened_def)
  have "fds p3 = fds p2" using steady_now_fds [of os p2] 3 by simp
  then show ?thesis
    using 1 3 opened_ps [of B e _ p2 p2, OF _ room] opened_ps [of B e _ p2 p3, OF _ room] 2(2) eq
    by (cases e) (simp_all add: ps_start_def 2(1) Let_def)
qed

lemma accept_fields [simp]:
  "subscribers (accept_subscriber c b) = subscribers b @ (case c of None \<Rightarrow> [] | Some fd \<Rightarrow> [fd])"
  by (simp add: accept_subscriber_def split: option.split)

lemma conns_snoc:
  "holds fd (insert n (B \<union> set cs)) p \<Longrightarrow> 0 \<le> fd \<Longrightarrow> 0 \<le> n \<Longrightarrow> n \<notin> insert fd (B \<union> set cs) \<Longrightarrow>
   distinct cs \<Longrightarrow> (\<forall>c \<in> set cs. 0 \<le> c) \<Longrightarrow> insert fd B \<inter> set cs = {} \<Longrightarrow> conns (insert fd B) (cs @ [n]) p"
  by (auto simp: conns_def holds_def)

text \<open>After the accept of a turn the new connection is among the subscribers.\<close>

lemma ps_accept_yields:
  assumes inv: "ps_inv B v p"
  shows "yields (srv_accept_one os ms (ps_server v) p)
    (\<lambda>(n, p'). ps_inv B (v\<lparr>ps_pub := accept_subscriber (if 0 \<le> n then Some n else None) (ps_pub v)\<rparr>) p')"
proof -
  let ?fd = "srv_fd (ps_server v)" and ?cs = "subscribers (ps_pub v)"
  have low: "?fd < FD_SETSIZE" using inv by (simp add: ps_inv_def Let_def)
  obtain n p1 where n: "srv_accept_one os ms (ps_server v) p = Some (n, p1)"
      "if n < 0 then holds ?fd (B \<union> set ?cs) p1
       else 0 \<le> ?fd \<and> n \<notin> insert ?fd (B \<union> set ?cs) \<and> holds ?fd (insert n (B \<union> set ?cs)) p1"
    using srv_accept_one_yields [OF ps_inv_holds [OF inv] low, of os ms] by (auto simp: yields_def)
  show ?thesis
  proof (cases "n < 0")
    case True
    then have "set (fds p1) = set (fds p)" using n ps_inv_holds [OF inv] by (auto simp: holds_def split: if_splits)
    then show ?thesis using True n(1) inv by (simp add: ps_inv_def conns_def Let_def accept_subscriber_def)
  next
    case False
    then have n2: "0 \<le> ?fd" "n \<notin> insert ?fd (B \<union> set ?cs)" "holds ?fd (insert n (B \<union> set ?cs)) p1" "0 \<le> n"
      using n by auto
    then have "conns (insert ?fd B) (?cs @ [n]) p1"
      using inv by (intro conns_snoc) (auto simp: ps_inv_def conns_def Let_def)
    then show ?thesis using False n(1) n2 inv by (simp add: ps_inv_def Let_def)
  qed
qed

lemma ps_turn_yields:
  assumes inv: "ps_inv B v p" and os: "interrupts_end os stalls"
  shows "yields (ps_turn os iter d v p) (\<lambda>(v', p'). ps_inv B v' p' \<and> ps_running v' = ps_running v)"
proof -
  obtain n p1 where n: "srv_accept_one os 20 (ps_server v) p = Some (n, p1)"
      "ps_inv B (v\<lparr>ps_pub := accept_subscriber (if 0 \<le> n then Some n else None) (ps_pub v)\<rparr>) p1"
    using ps_accept_yields [OF inv, of os 20] by (auto simp: yields_def)
  obtain b where b: "accept_subscriber (if 0 \<le> n then Some n else None) (ps_pub v) = b" by blast
  obtain t p2 where t: "steady_now os p1 = (t, p2)" by force
  then have "fds p2 = fds p1" using steady_now_fds [of os p1] by simp
  then have inv2: "ps_inv B (v\<lparr>ps_pub := b\<rparr>) p2"
    using n(2) conns_fds [of p2 p1] by (simp add: ps_inv_def Let_def b)
  show ?thesis
  proof (cases "should_publish b t (msg_counter b)")
    case False
    then show ?thesis using n(1) b t inv2 by (simp add: ps_turn_def)
  next
    case True
    obtain snap c where c: "capture_next iter d (mark_publish t (msg_counter b) b) = (snap, c)" by force
    then have subs: "subscribers c = subscribers b" by (auto simp: capture_next_def mark_publish_def Let_def)
    let ?R = "if srv_fd (ps_server v) < 0 then B else insert (srv_fd (ps_server v)) B"
    have "conns ?R (subscribers c) p2" using inv2 subs by (simp add: ps_inv_def Let_def)
    from push_fds_yields [OF os this, of "encode_book_snapshot snap"]
    obtain live p3 where l: "push_fds os (encode_book_snapshot snap) (subscribers c) p2 = Some (live, p3)" "conns ?R live p3"
      by (auto simp: yields_def)
    have "ps_inv B (v\<lparr>ps_pub := c\<lparr>subscribers := live, published := published c + 1\<rparr>\<rparr>) p3"
      using inv2 l(2) by (simp add: ps_inv_def Let_def)
    then show ?thesis using True n(1) b t c l(1) by (simp add: ps_turn_def)
  qed
qed

lemma ps_run_yields:
  assumes "ps_inv B v p" and os: "interrupts_end os stalls"
  shows "yields (ps_run os iter us v p) (\<lambda>(v', p'). ps_inv B v' p')"
  using assms(1)
proof (induction us arbitrary: v p)
  case (Cons u us)
  obtain k d where u: "u = (k, d)" by force
  have "ps_inv B (v\<lparr>ps_pub := (note_message ^^ k) (ps_pub v)\<rparr>) p"
    using Cons.prems by (simp add: ps_inv_def Let_def)
  then show ?case using Cons by (auto simp: u intro!: yields_rules yields_mono [OF ps_turn_yields [OF _ os]])
qed simp

section \<open>Properties\<close>



lemma plain_interrupts: "interrupts_end plain_os (\<lambda>k. 0)"
  by (auto simp: interrupts_end_def plain_os_def plain_answer_def)



end
