(* ===== verification/Program_Text.thy ===== *)
theory Program_Text
  imports Prelude
begin

text \<open>
  What the programs of the repository use of the C library on text: the decimal numbers of their
  command lines (\<^verbatim>\<open>atoi\<close>, \<^verbatim>\<open>atoll\<close>) and of their reports (\<^verbatim>\<open>printf\<close> with \<^verbatim>\<open>%llu\<close>, \<^verbatim>\<open>%zu\<close>, \<^verbatim>\<open>%u\<close>). A
  number outside the type of \<^verbatim>\<open>atoi\<close> or \<^verbatim>\<open>atoll\<close> is undefined behaviour, the outcome \<^verbatim>\<open>None\<close>.
\<close>

definition newline :: string where
  "newline = [CHR 0x0A]"

section \<open>Reading numbers\<close>

definition is_space :: "char \<Rightarrow> bool" where
  "is_space c \<longleftrightarrow> c \<in> {CHR 0x20, CHR 0x09, CHR 0x0A, CHR 0x0B, CHR 0x0C, CHR 0x0D}"

definition digit_of :: "char \<Rightarrow> nat option" where
  "digit_of c = (let n = of_char c in if 48 \<le> n \<and> n \<le> 57 then Some (n - 48) else None)"

fun read_digits :: "nat \<Rightarrow> string \<Rightarrow> nat" where
  "read_digits acc [] = acc"
| "read_digits acc (c # cs) = (case digit_of c of None \<Rightarrow> acc | Some d \<Rightarrow> read_digits (10 * acc + d) cs)"

definition read_decimal :: "string \<Rightarrow> int" where
  "read_decimal s =
     (let s = dropWhile is_space s in
      case s of
        [] \<Rightarrow> 0
      | c # cs \<Rightarrow>
          if c = CHR ''-'' then - int (read_digits 0 cs)
          else if c = CHR ''+'' then int (read_digits 0 cs)
          else int (read_digits 0 s))"

definition atoi :: "string \<Rightarrow> int option" where
  "atoi s = (let n = read_decimal s in if - (2 ^ 31) \<le> n \<and> n < 2 ^ 31 then Some n else None)"

definition atoll :: "string \<Rightarrow> int option" where
  "atoll s = (let n = read_decimal s in if - (2 ^ 63) \<le> n \<and> n < 2 ^ 63 then Some n else None)"

section \<open>Printing numbers\<close>

definition digit_char :: "nat \<Rightarrow> char" where
  "digit_char d = char_of (48 + d)"

fun print_nat :: "nat \<Rightarrow> string" where
  "print_nat n = (if n < 10 then [digit_char n] else print_nat (n div 10) @ [digit_char (n mod 10)])"

declare print_nat.simps [simp del]

definition print_u64 :: "u64 \<Rightarrow> string" where
  "print_u64 w = print_nat (unat w)"

section \<open>Round trip\<close>

lemma of_char_digit: "d < 10 \<Longrightarrow> of_char (digit_char d) = 48 + d"
  by (simp add: digit_char_def)

lemma digit_of_char: "d < 10 \<Longrightarrow> digit_of (digit_char d) = Some d"
  by (simp add: digit_of_def of_char_digit)

lemma read_digits_append:
  "(\<forall>c \<in> set xs. digit_of c \<noteq> None) \<Longrightarrow> read_digits a (xs @ ys) = read_digits (read_digits a xs) ys"
  by (induction xs arbitrary: a) auto

lemma print_nat_digits: "c \<in> set (print_nat n) \<Longrightarrow> \<exists>d < 10. c = digit_char d"
proof (induction n rule: print_nat.induct)
  case (1 n)
  then show ?case
    by (subst (asm) (2) print_nat.simps) (auto split: if_splits intro: exI [of _ "n mod 10"])
qed

lemma read_print_nat: "read_digits 0 (print_nat n) = n"
proof (induction n rule: print_nat.induct)
  case (1 n)
  have "\<forall>c \<in> set (print_nat (n div 10)). digit_of c \<noteq> None"
    using print_nat_digits digit_of_char by fastforce
  then show ?case
    using 1 by (subst print_nat.simps) (simp add: read_digits_append digit_of_char)
qed

lemma print_nat_nonempty: "print_nat n \<noteq> []"
  by (subst print_nat.simps) simp

lemma digit_char_plain:
  assumes "d < 10"
  shows "\<not> is_space (digit_char d) \<and> digit_char d \<noteq> CHR ''-'' \<and> digit_char d \<noteq> CHR ''+''"
proof -
  have "(of_char (digit_char d) :: nat) \<ge> 48" using assms by (simp add: of_char_digit)
  then show ?thesis by (auto simp: is_space_def)
qed

text \<open>What the reports print, the command lines read back.\<close>

lemma read_print_decimal: "read_decimal (print_nat n) = int n"
proof -
  obtain c cs where p: "print_nat n = c # cs" using print_nat_nonempty by (metis list.exhaust)
  then obtain d where "d < 10" "c = digit_char d" using print_nat_digits [of c n] by auto
  then have "\<not> is_space c" "c \<noteq> CHR ''-''" "c \<noteq> CHR ''+''" using digit_char_plain by auto
  then show ?thesis using read_print_nat [of n] by (simp add: read_decimal_def p)
qed

lemma atoll_print_nat: "n < 2 ^ 63 \<Longrightarrow> atoll (print_nat n) = Some (int n)"
  by (simp add: atoll_def read_print_decimal)

lemma atoll_print: "unat w < 2 ^ 63 \<Longrightarrow> atoll (print_u64 w) = Some (int (unat w))"
  by (simp only: print_u64_def atoll_print_nat)

lemma atoi_print: "n < 2 ^ 31 \<Longrightarrow> atoi (print_nat n) = Some (int n)"
  by (simp add: atoi_def read_print_decimal)

end
