(* ===== verification/Live_Feed.thy ===== *)
theory Live_Feed
  imports Multicast Feed_Properties Program_Text
begin

text \<open>
  The live program \<^verbatim>\<open>src/main.cpp\<close>: its command line, the loop that gives every datagram of the
  multicast group to a feed handler, and the report it prints. The system is the parameter \<^verbatim>\<open>os\<close>,
  the texts of the socket errors the parameter \<^verbatim>\<open>describe\<close>. Without \<^verbatim>\<open>--duration-ms\<close> the loop never
  ends; it is a partial function, and \<^verbatim>\<open>None\<close> also stands for that.
\<close>

section \<open>The command line\<close>

record config =
  cfg_group :: string
  cfg_port :: u16
  cfg_iface :: string
  cfg_duration_ms :: u64

definition default_config :: config where
  "default_config = \<lparr>cfg_group = ''239.0.0.1'', cfg_port = 42424, cfg_iface = ''127.0.0.1'', cfg_duration_ms = 0\<rparr>"

record program_result =
  exit_code :: int
  stdout_text :: string
  stderr_text :: string

definition usage :: "string \<Rightarrow> string" where
  "usage prog = ''usage: '' @ prog @ '' --group <ip> --port <p> [--iface <ip>] [--duration-ms <ms>]'' @ newline"

datatype parsed = Run config | Stop program_result

definition failed :: "string \<Rightarrow> parsed" where
  "failed msg = Stop \<lparr>exit_code = 2, stdout_text = [], stderr_text = msg\<rparr>"

definition missing :: "string \<Rightarrow> parsed" where
  "missing name = failed (''missing value for '' @ name @ newline)"

fun parse_args :: "string \<Rightarrow> string list \<Rightarrow> config \<Rightarrow> parsed option" where
  "parse_args prog [] c = Some (Run c)"
| "parse_args prog [a] c =
     (if a \<in> {''--group'', ''--port'', ''--iface'', ''--duration-ms''} then Some (missing a)
      else if a = ''--help'' then Some (Stop \<lparr>exit_code = 0, stdout_text = [], stderr_text = usage prog\<rparr>)
      else Some (failed (''unknown arg: '' @ a @ newline @ usage prog)))"
| "parse_args prog (a # v # as) c =
     (if a = ''--group'' then parse_args prog as (c\<lparr>cfg_group := v\<rparr>)
      else if a = ''--port'' then do { n \<leftarrow> atoi v; parse_args prog as (c\<lparr>cfg_port := of_int n\<rparr>) }
      else if a = ''--iface'' then parse_args prog as (c\<lparr>cfg_iface := v\<rparr>)
      else if a = ''--duration-ms'' then do { n \<leftarrow> atoll v; parse_args prog as (c\<lparr>cfg_duration_ms := of_int n\<rparr>) }
      else if a = ''--help'' then Some (Stop \<lparr>exit_code = 0, stdout_text = [], stderr_text = usage prog\<rparr>)
      else Some (failed (''unknown arg: '' @ a @ newline @ usage prog)))"

section \<open>The loop\<close>

definition live_turn :: "'k os \<Rightarrow> MulticastReceiver \<Rightarrow> byte list \<Rightarrow> FeedHandler \<Rightarrow> 'k process \<Rightarrow>
    (byte list \<times> FeedHandler \<times> 'k process) option" where
  "live_turn os rx buf h p = do {
     (n, buf, p) \<leftarrow> rx_recv os rx buf p;
     h \<leftarrow> (if 0 < n then handler_step h (None, take (nat n) buf) else Some h);
     Some (buf, h, p) }"

partial_function (option) live_loop :: "'k os \<Rightarrow> u64 \<Rightarrow> u64 \<Rightarrow> MulticastReceiver \<Rightarrow> byte list \<Rightarrow> FeedHandler \<Rightarrow>
    'k process \<Rightarrow> (FeedHandler \<times> 'k process) option" where
  "live_loop os duration_ms t0 rx buf h p = do {
     (buf, h, p) \<leftarrow> live_turn os rx buf h p;
     if duration_ms > 0 then
       let (now, p) = now_ns os p in
       if (now - t0) div 1000000 \<ge> duration_ms then Some (h, p)
       else live_loop os duration_ms t0 rx buf h p
     else live_loop os duration_ms t0 rx buf h p }"

definition stats_line :: "FeedHandlerStats \<Rightarrow> string" where
  "stats_line s =
     ''{\"datagrams\":'' @ print_u64 (datagrams_in s) @ '',\"messages\":'' @ print_u64 (messages_applied s) @
     '',\"gaps\":'' @ print_u64 (gaps_detected s) @
     '',\"snapshots_requested\":'' @ print_u64 (snapshots_requested s) @
     '',\"snapshots_applied\":'' @ print_u64 (snapshots_applied s) @
     '',\"parse_errors\":'' @ print_u64 (parse_errors s) @ ''}'' @ newline"

text \<open>
  \<^verbatim>\<open>main\<close> after the command line. The receiver is destroyed when \<^verbatim>\<open>main\<close> returns, which closes its
  descriptor.
\<close>

definition live_run :: "'k os \<Rightarrow> inet_pton \<Rightarrow> (sock_error \<Rightarrow> string) \<Rightarrow> config \<Rightarrow> 'k process \<Rightarrow>
    (program_result \<times> 'k process) option" where
  "live_run os pton describe c p = do {
     (e, rx, p) \<leftarrow> rx_open os pton \<lparr>group = cfg_group c, port = cfg_port c, iface = cfg_iface c\<rparr> new_receiver p;
     (case e of
        Some err \<Rightarrow> do {
          (rx, p) \<leftarrow> rx_close os rx p;
          Some (\<lparr>exit_code = 1, stdout_text = [], stderr_text = ''open failed: '' @ describe err @ newline\<rparr>, p) }
      | None \<Rightarrow> do {
          (_, p) \<leftarrow> rx_set_recv_timeout_ms os 250 rx p;
          let (t0, p) = now_ns os p;
          (h, p) \<leftarrow> live_loop os (cfg_duration_ms c) t0 rx [] (new_feed_handler kDefaultDepth) p;
          (rx, p) \<leftarrow> rx_close os rx p;
          Some (\<lparr>exit_code = 0, stdout_text = stats_line (stats h), stderr_text = []\<rparr>, p) }) }"

definition live_main :: "'k os \<Rightarrow> inet_pton \<Rightarrow> (sock_error \<Rightarrow> string) \<Rightarrow> string \<Rightarrow> string list \<Rightarrow> 'k process \<Rightarrow>
    (program_result \<times> 'k process) option" where
  "live_main os pton describe prog args p = do {
     r \<leftarrow> parse_args prog args default_config;
     (case r of Stop res \<Rightarrow> Some (res, p) | Run c \<Rightarrow> live_run os pton describe c p) }"

section \<open>The command line reads what it should\<close>

lemma parse_args_all:
  assumes "unat ms < 2 ^ 63"
  shows "parse_args prog [''--group'', g, ''--port'', print_nat (unat prt), ''--iface'', ifc, ''--duration-ms'', print_u64 ms] c =
    Some (Run \<lparr>cfg_group = g, cfg_port = prt, cfg_iface = ifc, cfg_duration_ms = ms\<rparr>)"
proof -
  have "unat prt < 2 ^ 31" using unsigned_less [of prt, where 'a = nat] by simp
  then show ?thesis using assms by (simp add: atoll_print atoi_print)
qed

section \<open>The loop follows the feed and ends\<close>

text \<open>The handler was given the datagrams \<^verbatim>\<open>ds\<close>, and no others.\<close>

definition fed :: "FeedHandler \<Rightarrow> byte list list \<Rightarrow> FeedHandler \<Rightarrow> bool" where
  "fed h ds h' \<longleftrightarrow> run_steps handler_step h (map (Pair None) ds) = Some h' \<and>
     (\<forall>d \<in> set ds. d \<noteq> [] \<and> length d \<le> kRecvBuffer)"

lemma fed_Nil: "fed h [] h"
  by (simp add: fed_def)

lemma fed_append: "fed h ds h1 \<Longrightarrow> fed h1 es h2 \<Longrightarrow> fed h (ds @ es) h2"
  by (auto simp: fed_def run_steps_append)

lemma live_turn_yields:
  assumes own: "holds (rx_fd rx) B p" "0 \<le> rx_fd rx" and len: "length buf \<le> kRecvBuffer"
    and wf: "db_wf (fh_book h)" and log: "delivers os log"
  shows "yields (live_turn os rx buf h p) (\<lambda>(buf', h', p'). holds (rx_fd rx) B p' \<and> length buf' = kRecvBuffer \<and>
    db_wf (fh_book h') \<and> (\<exists>ds. fed h ds h' \<and> log (os_state p') = log (os_state p) @ ds))"
proof -
  have short: "length buf < 2 ^ 31" using len by (simp add: kRecvBuffer_def)
  then obtain n buf1 p1 where r: "rx_recv os rx buf p = Some (n, buf1, p1)" "holds (rx_fd rx) B p1" "received buf n buf1"
    using rx_recv_yields [OF own, of buf os] by (auto simp: yields_def)
  then have l: "length buf1 = kRecvBuffer" using len by (simp add: received_def)
  note taken = rx_recv_log [OF log own short r(1)]
  show ?thesis
  proof (cases "0 < n")
    case True
    let ?d = "take (nat n) buf1"
    obtain h1 where h1: "handler_step h (None, ?d) = Some h1" "db_wf (fh_book h1)"
      using handler_step_wf [OF wf] by blast
    have "?d \<noteq> []" "length ?d \<le> kRecvBuffer" using True l by (auto simp: kRecvBuffer_def)
    then have "fed h [?d] h1" using h1(1) by (simp add: fed_def)
    then show ?thesis using True r h1 l taken by (auto simp: live_turn_def)
  next
    case False
    then show ?thesis using r l wf fed_Nil taken by (auto simp: live_turn_def)
  qed
qed

text \<open>
  The steady clock: it never goes back, every reading of it is later than the last, and no call
  takes 146 years.
\<close>

definition clock_runs :: "'k os \<Rightarrow> ('k \<Rightarrow> int) \<Rightarrow> bool" where
  "clock_runs os clk \<longleftrightarrow> (\<forall>k c. let (a, k') = os k c in
     clk k \<le> clk k' \<and> clk k' \<le> clk k + 2 ^ 62 \<and>
     (c = Clock_Monotonic \<longrightarrow> clk k < clk k' \<and> out_int a = clk k'))"

abbreviation time :: "('k \<Rightarrow> int) \<Rightarrow> 'k process \<Rightarrow> int" where
  "time clk p \<equiv> clk (os_state p)"

lemma perform_time:
  assumes clk: "clock_runs os clk" and p: "perform os c p = (a, p')"
  shows "time clk p \<le> time clk p' \<and> time clk p' \<le> time clk p + 2 ^ 62"
proof -
  obtain b k where k: "os (os_state p) c = (b, k)" by force
  then have "os_state p' = k" using perform_os_state [of os c p] p by simp
  then show ?thesis using clk k unfolding clock_runs_def by (auto split: prod.splits)
qed

lemma now_ns_time:
  "clock_runs os clk \<Longrightarrow> now_ns os p = (t, p') \<Longrightarrow>
   t = of_int (time clk p') \<and> time clk p < time clk p' \<and> time clk p' \<le> time clk p + 2 ^ 62"
  by (auto simp: clock_runs_def now_ns_def steady_now_def perform_def call_kinds split: prod.splits)

lemma rx_recv_time:
  assumes "clock_runs os clk" "holds (rx_fd rx) B p" "0 \<le> rx_fd rx" "rx_recv os rx buf p = Some (n, buf', p')"
  shows "time clk p \<le> time clk p' \<and> time clk p' \<le> time clk p + 2 ^ 62"
proof -
  let ?m = "length (if length buf < kRecvBuffer then buf @ replicate (kRecvBuffer - length buf) 0 else buf)"
  obtain a p1 where s: "sys os (Recvfrom (rx_fd rx) ?m) p = Some (a, p1)"
    using assms(3,4) unfolding rx_recv_def Let_def by (cases "sys os (Recvfrom (rx_fd rx) ?m) p") auto
  have "p' = p1"
    using assms(3,4) s unfolding rx_recv_def Let_def by (simp split: recv_result.splits)
  moreover have "perform os (Recvfrom (rx_fd rx) ?m) p = (a, p1)" using sys_performed [OF s] assms(3) by simp
  ultimately show ?thesis using perform_time [OF assms(1)] by blast
qed

lemma fits_deadline:
  assumes "0 \<le> d" "d < 2 ^ 64"
  shows "dur \<le> (of_int (t0 + d) - of_int t0 :: u64) div 1000000 \<longleftrightarrow> int (unat dur) \<le> d div 1000000"
proof -
  have d: "(of_int (t0 + d) - of_int t0 :: u64) = of_int d" by simp
  have u: "unat (of_int d :: u64) = nat d" using assms by (simp add: unsigned_of_int take_bit_int_eq_self)
  have v: "unat (1000000 :: u64) = 1000000" by simp
  have "unat dur \<le> nat d div 1000000 \<longleftrightarrow> int (unat dur) \<le> int (nat d div 1000000)" by (rule of_nat_le_iff [symmetric])
  also have "int (nat d div 1000000) = d div 1000000" using assms(1) by (simp add: zdiv_int)
  finally show ?thesis unfolding d word_le_nat_alt unat_div u v .
qed

lemma live_loop_ends:
  assumes clk: "clock_runs os clk" and dur: "0 < unat dur" "int (unat dur) * 1000000 \<le> 2 ^ 62"
    and "holds (rx_fd rx) B p" "0 \<le> rx_fd rx" "length buf \<le> kRecvBuffer" "db_wf (fh_book h)"
    and "t0 \<le> time clk p" "time clk p < t0 + int (unat dur) * 1000000"
    and log: "delivers os log"
  shows "yields (live_loop os dur (of_int t0) rx buf h p)
    (\<lambda>(h', p'). holds (rx_fd rx) B p' \<and> (\<exists>ds. fed h ds h' \<and> log (os_state p') = log (os_state p) @ ds))"
  using assms(4-9)
proof (induction "nat (t0 + int (unat dur) * 1000000 - time clk p)" arbitrary: buf h p rule: less_induct)
  case less
  let ?D = "int (unat dur) * 1000000"
  obtain buf1 h1 p1 ds where t: "live_turn os rx buf h p = Some (buf1, h1, p1)" "holds (rx_fd rx) B p1"
      "length buf1 = kRecvBuffer" "db_wf (fh_book h1)" "fed h ds h1"
      "log (os_state p1) = log (os_state p) @ ds"
    using live_turn_yields [OF less.prems(1-4) log] by (auto simp: yields_def)
  obtain n buf2 where "rx_recv os rx buf p = Some (n, buf2, p1)"
    using t(1) by (auto simp: live_turn_def bind_eq_Some_conv)
  from rx_recv_time [OF clk less.prems(1,2) this]
  have p1: "time clk p \<le> time clk p1" "time clk p1 \<le> time clk p + 2 ^ 62" by auto
  obtain now p2 where now: "now_ns os p1 = (now, p2)" by force
  note tm = now_ns_time [OF clk now]
  have f2: "fds p2 = fds p1" using now_ns_fds [of os p1] now by simp
  have l2: "log (os_state p2) = log (os_state p) @ ds" using now_ns_log [OF log now] t(6) by simp
  let ?d = "time clk p2 - t0"
  have d: "0 \<le> ?d" "?d < 2 ^ 64" using tm p1 less.prems(5,6) dur(2) by auto
  have cond: "dur \<le> (now - of_int t0) div 1000000 \<longleftrightarrow> int (unat dur) \<le> ?d div 1000000"
    using fits_deadline [OF d, of dur t0] tm by simp
  have dz: "dur > 0" using dur(1) by (simp add: word_less_nat_alt)
  show ?case
  proof (cases "int (unat dur) \<le> ?d div 1000000")
    case True
    then have "live_loop os dur (of_int t0) rx buf h p = Some (h1, p2)"
      using t(1) now cond dz by (subst live_loop.simps) simp
    then show ?thesis using t(2,5) l2 holds_fds [OF f2] by auto
  next
    case False
    then have late: "time clk p2 < t0 + ?D" by linarith
    have IH: "yields (live_loop os dur (of_int t0) rx buf1 h1 p2)
        (\<lambda>(h', p'). holds (rx_fd rx) B p' \<and> (\<exists>ds. fed h1 ds h' \<and> log (os_state p') = log (os_state p2) @ ds))"
    proof (rule less.hyps)
      show "nat (t0 + ?D - time clk p2) < nat (t0 + ?D - time clk p)" using tm p1 late by linarith
    qed (use t holds_fds [OF f2] less.prems tm p1 late in auto)
    have "live_loop os dur (of_int t0) rx buf h p = live_loop os dur (of_int t0) rx buf1 h1 p2"
      using t(1) now cond False dz by (subst live_loop.simps) simp
    then show ?thesis using IH fed_append [OF t(5)] l2 by (auto elim!: yields_mono)
  qed
qed

section \<open>Properties\<close>


text \<open>
  A system whose clock gains a millisecond with every call and whose group sends one datagram over
  and over; its state is the clock and the datagrams delivered.
\<close>

definition ticking_os :: "(int \<times> byte list list) os" where
  "ticking_os k c =
     (let t = fst k + 1000000;
          a = \<lparr>ret = 0, errno = EOTHER, out_int = t, out_addr = \<lparr>sin_addr = 0, sin_port = 0\<rparr>, out_bytes = sample_datagram\<rparr>
      in (a, (t, snd k @ datagram_of c a)))"

lemma ticking_ok: "clock_runs ticking_os fst" "delivers ticking_os snd"
  by (simp_all add: clock_runs_def delivers_def ticking_os_def Let_def)


end
