(* ===== verification/Gap_Stall.thy ===== *)
theory Gap_Stall
  imports Live_Feed
begin

text \<open>
  What the live program does after a loss: \<^verbatim>\<open>src/main.cpp\<close> sets neither a recovery requester nor gap
  skipping, so the handler waits for the number that is missing, whatever else arrives.
\<close>

section \<open>A gap that nothing recovers\<close>

text \<open>The statistics do not steer the handler: states that differ in them only stay so.\<close>

definition same_feed :: "FeedHandler \<Rightarrow> FeedHandler \<Rightarrow> bool" where
  "same_feed h k \<longleftrightarrow> fh_book k = fh_book h \<and> fh_gap k = fh_gap h \<and> skip_gaps k = skip_gaps h \<and>
     has_gap_observer k = has_gap_observer h"

lemma same_feed_trans: "same_feed h k \<Longrightarrow> same_feed k m \<Longrightarrow> same_feed h m"
  by (simp add: same_feed_def)

lemma check_sequence_same:
  assumes "same_feed h k"
  shows "fst (check_sequence None k loc seq) = fst (check_sequence None h loc seq) \<and>
    same_feed (snd (snd (check_sequence None h loc seq))) (snd (snd (check_sequence None k loc seq)))"
  using assms
  by (auto simp: check_sequence_def case_prod_unfold Let_def same_feed_def step_past_def)

lemma apply_payload_same:
  assumes "same_feed h k" "apply_payload h body = Some (r, snap, h')"
  shows "\<exists>k'. apply_payload k body = Some (r, snap, k') \<and> same_feed h' k'"
proof -
  obtain pr where pr: "decode_frame body = Some pr" using decode_frame_safe [of body] by auto
  show ?thesis
  proof (cases "status pr = Ok \<and> message pr \<noteq> None")
    case True
    then obtain m where m: "status pr = Ok" "message pr = Some m" by auto
    then obtain ch sn d where a: "apply_msg (fh_book h) m = Some (ch, sn, d)"
      using assms(2) by (cases "apply_msg (fh_book h) m") (auto simp: apply_payload_def pr)
    then show ?thesis using assms by (cases ch) (auto simp: apply_payload_def pr m same_feed_def Let_def)
  next
    case False
    then have "apply_payload j body = Some (False, None, parse_error j)" for j
      by (auto simp: apply_payload_def pr split: ParseStatus.split option.split)
    then show ?thesis using assms by (auto simp: same_feed_def parse_error_def)
  qed
qed

definition hdr_locate :: "byte list \<Rightarrow> StockLocate" where
  "hdr_locate d = be_word (take 2 d)"

definition hdr_sequence :: "byte list \<Rightarrow> SequenceNumber" where
  "hdr_sequence d = be_word (take 8 (drop 2 d))"

lemma on_datagram_cases:
  assumes "12 \<le> length d"
  obtains ret reps h1 where "(if hdr_sequence d \<noteq> 0 then check_sequence None (counted h d) (hdr_locate d) (hdr_sequence d)
      else (None, [], counted h d)) = (ret, reps, h1)"
    "on_datagram None h d = (case ret of Some r \<Rightarrow> Some (r, reps, None, h1)
      | None \<Rightarrow> do { (r, snap, h) \<leftarrow> apply_payload h1 (drop 10 d); Some (r, reps, snap, h) })"
proof -
  obtain ret reps h1 where c: "(if hdr_sequence d \<noteq> 0 then check_sequence None (counted h d) (hdr_locate d) (hdr_sequence d)
      else (None, [], counted h d)) = (ret, reps, h1)" by (metis prod_cases3)
  have "hdr_u16 d 0 = Some (hdr_locate d)" "hdr_u64 d 2 = Some (hdr_sequence d)"
    using hdr_in_bounds [of d] assms by (simp_all add: hdr_locate_def hdr_sequence_def)
  from that [OF c on_datagram_eq [OF assms this c]] show thesis .
qed

lemma handler_step_same:
  assumes same: "same_feed h k" and h': "handler_step h (None, d) = Some h'"
  shows "\<exists>k'. handler_step k (None, d) = Some k' \<and> same_feed h' k'"
proof (cases "length d < 12")
  case True
  then have "handler_step j (None, d) = Some (parse_error (counted j d))" for j
    by (simp add: handler_step_def on_datagram_def kTransportHeaderSize_def Let_def counted_def)
  then show ?thesis using same h' by (auto simp: same_feed_def parse_error_def)
next
  case False
  then have len: "12 \<le> length d" by simp
  have c: "same_feed (counted h d) (counted k d)" using same by (simp add: same_feed_def)
  obtain ret reps h1 where h1: "(if hdr_sequence d \<noteq> 0 then check_sequence None (counted h d) (hdr_locate d) (hdr_sequence d)
      else (None, [], counted h d)) = (ret, reps, h1)"
    "on_datagram None h d = (case ret of Some r \<Rightarrow> Some (r, reps, None, h1)
      | None \<Rightarrow> do { (r, snap, h) \<leftarrow> apply_payload h1 (drop 10 d); Some (r, reps, snap, h) })"
    using on_datagram_cases [OF len, of h] .
  obtain ret2 reps2 k1 where k1: "(if hdr_sequence d \<noteq> 0 then check_sequence None (counted k d) (hdr_locate d) (hdr_sequence d)
      else (None, [], counted k d)) = (ret2, reps2, k1)"
    "on_datagram None k d = (case ret2 of Some r \<Rightarrow> Some (r, reps2, None, k1)
      | None \<Rightarrow> do { (r, snap, h) \<leftarrow> apply_payload k1 (drop 10 d); Some (r, reps2, snap, h) })"
    using on_datagram_cases [OF len, of k] .
  have e: "ret2 = ret \<and> same_feed h1 k1"
    using check_sequence_same [OF c, of "hdr_locate d" "hdr_sequence d"] h1(1) k1(1) c by (auto split: if_splits)
  show ?thesis
  proof (cases ret)
    case None
    then obtain r sn hx where p: "apply_payload h1 (drop 10 d) = Some (r, sn, hx)"
      using h' h1(2) by (cases "apply_payload h1 (drop 10 d)") (auto simp: handler_step_def)
    obtain kx where "apply_payload k1 (drop 10 d) = Some (r, sn, kx)" "same_feed hx kx"
      using apply_payload_same [OF _ p] e by blast
    then show ?thesis using None e h' p h1(2) k1(2) by (simp add: handler_step_def)
  next
    case (Some r)
    then show ?thesis using e h' h1(2) k1(2) by (simp add: handler_step_def)
  qed
qed

text \<open>Datagrams of one locate under numbers other than the one due.\<close>

definition off_sequence :: "StockLocate \<Rightarrow> SequenceNumber \<Rightarrow> byte list \<Rightarrow> bool" where
  "off_sequence l e d \<longleftrightarrow> 12 \<le> length d \<and> hdr_locate d = l \<and> hdr_sequence d \<noteq> 0 \<and> hdr_sequence d \<noteq> e"

definition of_locate :: "StockLocate \<Rightarrow> byte list \<Rightarrow> bool" where
  "of_locate l d \<longleftrightarrow> 12 \<le> length d \<and> hdr_locate d = l"

lemma off_sequence_ignored:
  assumes off: "off_sequence l e d" and due: "due h l = Some e" and "\<not> skip_gaps h"
  shows "\<exists>h'. handler_step h (None, d) = Some h' \<and> same_feed h h'"
proof -
  have len: "12 \<le> length d" and l: "hdr_locate d = l" and s: "hdr_sequence d \<noteq> 0" "hdr_sequence d \<noteq> e"
    using off by (auto simp: off_sequence_def)
  obtain ret reps h1 where h1: "check_sequence None (counted h d) l (hdr_sequence d) = (ret, reps, h1)"
    "on_datagram None h d = (case ret of Some r \<Rightarrow> Some (r, reps, None, h1)
      | None \<Rightarrow> do { (r, snap, h) \<leftarrow> apply_payload h1 (drop 10 d); Some (r, reps, snap, h) })"
    using on_datagram_cases [OF len, of h] s(1) l by auto
  obtain ret2 reps2 h2 where "check_sequence None (counted h d) l (hdr_sequence d) = (ret2, reps2, h2)"
    "fh_book h2 = fh_book h" "skip_gaps h2 = skip_gaps h" "ret2 = Some False" "due h2 = due h"
    using check_no_recovery [OF s(1), of "counted h d" l] due s(2) assms(3) by auto
  moreover from this h1(1) have "has_gap_observer h1 = has_gap_observer h"
    by (auto simp: check_sequence_def case_prod_unfold Let_def split: if_splits)
  ultimately show ?thesis using h1 by (auto simp: handler_step_def same_feed_def)
qed

lemma handler_step_skip:
  assumes h': "handler_step h (None, d) = Some h'"
  shows "skip_gaps h' = skip_gaps h"
proof (cases "length d < 12")
  case True
  then show ?thesis using h'
    by (auto simp: handler_step_def on_datagram_def kTransportHeaderSize_def Let_def parse_error_def)
next
  case False
  then have len: "12 \<le> length d" by simp
  obtain ret reps h1 where h1: "(if hdr_sequence d \<noteq> 0 then check_sequence None (counted h d) (hdr_locate d) (hdr_sequence d)
      else (None, [], counted h d)) = (ret, reps, h1)"
    "on_datagram None h d = (case ret of Some r \<Rightarrow> Some (r, reps, None, h1)
      | None \<Rightarrow> do { (r, snap, h) \<leftarrow> apply_payload h1 (drop 10 d); Some (r, reps, snap, h) })"
    using on_datagram_cases [OF len, of h] .
  have "skip_gaps h1 = skip_gaps h"
    using check_no_recovery [of "hdr_sequence d" "counted h d" "hdr_locate d"] h1(1) by (auto split: if_splits)
  then show ?thesis
    using h' h1(2) apply_payload_frame by (cases ret) (auto simp: handler_step_def bind_eq_Some_conv)
qed

text \<open>The other datagrams leave the number due alone.\<close>

lemma other_keeps_due:
  assumes "\<not> of_locate l d" and h': "handler_step h (None, d) = Some h'" and "\<not> skip_gaps h"
  shows "due h' l = due h l \<and> \<not> skip_gaps h'"
proof (cases "length d < 12")
  case True
  then show ?thesis using h' assms(3)
    by (auto simp: handler_step_def on_datagram_def kTransportHeaderSize_def Let_def parse_error_def)
next
  case False
  then have len: "12 \<le> length d" and l: "hdr_locate d \<noteq> l" using assms(1) by (auto simp: of_locate_def)
  obtain ret reps h1 where h1: "(if hdr_sequence d \<noteq> 0 then check_sequence None (counted h d) (hdr_locate d) (hdr_sequence d)
      else (None, [], counted h d)) = (ret, reps, h1)"
    "on_datagram None h d = (case ret of Some r \<Rightarrow> Some (r, reps, None, h1)
      | None \<Rightarrow> do { (r, snap, h) \<leftarrow> apply_payload h1 (drop 10 d); Some (r, reps, snap, h) })"
    using on_datagram_cases [OF len, of h] .
  have d1: "due h1 l = due h l \<and> skip_gaps h1 = skip_gaps h"
  proof (cases "hdr_sequence d = 0")
    case True
    then show ?thesis using h1(1) by auto
  next
    case False
    obtain h2 where "h1 = h2" "skip_gaps h2 = skip_gaps h"
        "due h2 = (due h)(hdr_locate d \<mapsto> hdr_sequence d + 1) \<or> due h2 = due h"
      using check_no_recovery [OF False, of "counted h d" "hdr_locate d"] h1(1) False by (auto split: if_splits)
    then show ?thesis using l by auto
  qed
  show ?thesis
    using h' h1(2) d1 apply_payload_frame assms(3)
    by (cases ret) (auto simp: handler_step_def bind_eq_Some_conv)
qed

lemma fed_keeps:
  "db_wf (fh_book h) \<Longrightarrow> \<not> skip_gaps h \<Longrightarrow> run_steps handler_step h (map (Pair None) ds) = Some h' \<Longrightarrow>
   db_wf (fh_book h') \<and> \<not> skip_gaps h'"
proof (induction ds arbitrary: h)
  case (Cons d ds)
  obtain h1 where h1: "handler_step h (None, d) = Some h1" "db_wf (fh_book h1)"
    using handler_step_wf [OF Cons.prems(1)] by blast
  moreover have "\<not> skip_gaps h1" using handler_step_skip [OF h1(1)] Cons.prems(2) by simp
  ultimately show ?case using Cons by simp
qed simp

lemma stalled_run:
  assumes "db_wf (fh_book h)" "\<not> skip_gaps h" "due h l = Some e" "db_wf (fh_book k)" "same_feed h k"
    and "\<forall>d \<in> set ds. of_locate l d \<longrightarrow> off_sequence l e d"
  shows "\<exists>h' k'. run_steps handler_step h (map (Pair None) ds) = Some h' \<and>
    run_steps handler_step k (map (Pair None) (filter (\<lambda>d. \<not> of_locate l d) ds)) = Some k' \<and> same_feed h' k' \<and>
    due h' l = Some e"
  using assms
proof (induction ds arbitrary: h k)
  case Nil
  then show ?case by simp
next
  case (Cons d ds)
  obtain h1 where h1: "handler_step h (None, d) = Some h1" "db_wf (fh_book h1)"
    using handler_step_wf [OF Cons.prems(1)] by blast
  show ?case
  proof (cases "of_locate l d")
    case True
    then have "off_sequence l e d" using Cons.prems(6) by simp
    from off_sequence_ignored [OF this Cons.prems(3,2)] have s: "same_feed h h1" using h1(1) by auto
    then have "same_feed h1 k" "due h1 l = Some e" "\<not> skip_gaps h1"
      using Cons.prems by (auto simp: same_feed_def)
    from Cons.IH [OF h1(2) this(3,2) Cons.prems(4) this(1)] show ?thesis using True h1(1) Cons.prems(6) by simp
  next
    case False
    obtain k1 where k1: "handler_step k (None, d) = Some k1" "same_feed h1 k1"
      using handler_step_same [OF Cons.prems(5) h1(1)] by blast
    have "db_wf (fh_book k1)" using handler_step_wf [OF Cons.prems(4), of "(None, d)"] k1(1) by auto
    moreover have "due h1 l = Some e" "\<not> skip_gaps h1"
      using other_keeps_due [OF False h1(1) Cons.prems(2)] Cons.prems(3) by auto
    ultimately show ?thesis using Cons.IH [OF h1(2) _ _ _ k1(2)] False h1(1) k1(1) Cons.prems(6) by simp
  qed
qed

section \<open>Properties\<close>

text \<open>C27: an unrecovered gap stalls its locate: once the live program's handler waits for a number of a locate,
  then as long as that number (or an unnumbered message) does not arrive, no datagram of the locate
  has any effect: the books and the numbers due are those of a run in which the locate's datagrams
  are left out, and the number due stays.\<close>

theorem unrecovered_gap_stalls:
  assumes "fed (new_feed_handler kDefaultDepth) past h" and "due h l = Some e"
    and "\<forall>d \<in> set ds. of_locate l d \<longrightarrow> off_sequence l e d"
  shows "\<exists>h' k'. run_steps handler_step h (map (Pair None) ds) = Some h' \<and>
    run_steps handler_step h (map (Pair None) (filter (\<lambda>d. \<not> of_locate l d) ds)) = Some k' \<and>
    fh_book h' = fh_book k' \<and> due h' = due k' \<and> due h' l = Some e"
proof -
  have "db_wf (fh_book h) \<and> \<not> skip_gaps h"
    using assms(1) by (intro fed_keeps [of "new_feed_handler kDefaultDepth" past])
      (auto simp: fed_def new_feed_handler_def db_wf_new)
  then show ?thesis
    using stalled_run [of h l e h ds] assms(2,3) by (auto simp: same_feed_def)
qed

text \<open>The sample datagram under the number 9, when number 2 is due.\<close>

definition late_datagram :: "byte list" where
  "late_datagram = take 9 sample_datagram @ [9] @ drop 10 sample_datagram"

theorem unrecovered_gap_stalls_witness:
  "\<exists>h h'. fed (new_feed_handler kDefaultDepth) [sample_datagram] h \<and> due h 3 = Some 2 \<and>
     run_steps handler_step h [(None, late_datagram), (None, late_datagram)] = Some h' \<and>
     fh_book h' = fh_book h \<and> due h' 3 = Some 2"
proof -
  let ?h0 = "new_feed_handler kDefaultDepth"
  have good: "handler_good kDefaultDepth False ?h0" and view: "handler_view ?h0 = (Map.empty, Map.empty)"
    by (simp_all add: handler_good_def handler_view_def new_feed_handler_def db_inv_new new_gap_detector_def)
  obtain h where h: "handler_step ?h0 (None, sample_datagram) = Some h" "expected_map (fh_gap h) = [3 \<mapsto> 2]"
    using handler_delivers [OF good sample_carries] view by (auto simp: handler_view_def)
  have len: "length sample_datagram = 31" by (simp add: sample_datagram_def length_wire_bytes framed_size_def)
  have f: "fed ?h0 [sample_datagram] h" using h(1) len by (auto simp: fed_def kRecvBuffer_def)
  have d: "due h 3 = Some 2" using h(2) by simp
  have "hdr_locate late_datagram = 3" "hdr_sequence late_datagram = 9" "12 \<le> length late_datagram"
    using len by (simp_all add: late_datagram_def sample_datagram_def hdr_locate_def hdr_sequence_def be_word_def)
  then have "\<forall>d \<in> set [late_datagram, late_datagram]. of_locate 3 d \<longrightarrow> off_sequence 3 2 d"
      "\<not> (\<not> of_locate 3 late_datagram)"
    by (auto simp: off_sequence_def of_locate_def)
  with unrecovered_gap_stalls [OF f d this(1)] show ?thesis using f d by auto
qed

end
