(* ===== verification/Pcap_IO.thy ===== *)
theory Pcap_IO
  imports Prelude
begin

text \<open>
  \<^verbatim>\<open>src/pcap/pcap_io.h\<close> and \<^verbatim>\<open>pcap_io.cpp\<close>: the writer of capture files with synthetic
  Ethernet, IPv4 and UDP headers, and the reader that strips them. The C library's \<^verbatim>\<open>fwrite\<close> and
  libpcap's \<^verbatim>\<open>pcap_next_ex\<close> are parameters; \<^verbatim>\<open>None\<close> is an access outside a buffer or, for the
  reader, a call that never returns.
\<close>

section \<open>Constants\<close>

definition kEthHeaderLen :: nat where "kEthHeaderLen = 14"
definition kIpv4HeaderLen :: nat where "kIpv4HeaderLen = 20"
definition kUdpHeaderLen :: nat where "kUdpHeaderLen = 8"
definition kHeadersLen :: nat where "kHeadersLen = kEthHeaderLen + kIpv4HeaderLen + kUdpHeaderLen"

definition kPcapMagic :: u32 where "kPcapMagic = 0xA1B2C3D4"
definition kPcapVersionMajor :: u16 where "kPcapVersionMajor = 2"
definition kPcapVersionMinor :: u16 where "kPcapVersionMinor = 4"
definition kSnapLen :: u32 where "kSnapLen = 65535"
definition kDltEn10mb :: u32 where "kDltEn10mb = 1"

lemmas header_lens = kHeadersLen_def kEthHeaderLen_def kIpv4HeaderLen_def kUdpHeaderLen_def

section \<open>Byte writers\<close>

definition put_u16le :: "byte list \<Rightarrow> u16 \<Rightarrow> byte list" where
  "put_u16le v x = v @ [ucast x] @ [ucast (drop_bit 8 x)]"

definition put_u32le :: "byte list \<Rightarrow> u32 \<Rightarrow> byte list" where
  "put_u32le v x = foldl (\<lambda>v i. v @ [ucast (drop_bit (i * 8) x)]) v [0..<4]"

definition put_u16be :: "byte list \<Rightarrow> u16 \<Rightarrow> byte list" where
  "put_u16be v x = v @ [ucast (drop_bit 8 x)] @ [ucast x]"

section \<open>The IPv4 checksum\<close>

text \<open>The loop over pairs of bytes, then a last odd byte.\<close>

fun sum_words :: "byte list \<Rightarrow> u32 \<Rightarrow> u32" where
  "sum_words (a # b # xs) s = sum_words xs (s + (push_bit 8 (ucast a) OR ucast b))"
| "sum_words [a] s = s + push_bit 8 (ucast a)"
| "sum_words [] s = s"

text \<open>The loop that adds the carries back terminates: the sum shrinks.\<close>

lemma carry_parts:
  "unat (drop_bit 16 (s :: u32)) = unat s div 65536" "unat (s AND 0xFFFF) = unat s mod 65536"
proof -
  show "unat (drop_bit 16 s) = unat s div 65536"
    by (simp only: unat_drop_bit_eq) (simp add: drop_bit_eq_div)
  have "(0xFFFF :: u32) = mask 16" by (simp add: mask_eq_exp_minus_1)
  then show "unat (s AND 0xFFFF) = unat s mod 65536"
    by (simp only: take_bit_eq_mask [symmetric] unsigned_take_bit_eq) (simp add: take_bit_nat_def)
qed

lemma carry_add: "unat ((s AND 0xFFFF) + drop_bit 16 s) = unat s mod 65536 + unat (s :: u32) div 65536"
proof -
  have "unat s mod 65536 < 65536" "unat s div 65536 < 65536"
    using unsigned_less [of s, where 'a = nat] by (simp_all add: less_mult_imp_div_less)
  then have "unat (s AND 0xFFFF) + unat (drop_bit 16 s) < 2 ^ LENGTH(32)" unfolding carry_parts by simp
  then have "unat ((s AND 0xFFFF) + drop_bit 16 s) = unat (s AND 0xFFFF) + unat (drop_bit 16 s)"
    by (rule unat_add_lem [THEN iffD1])
  then show ?thesis by (simp only: carry_parts)
qed

lemma carry_less: "drop_bit 16 (s :: u32) \<noteq> 0 \<Longrightarrow> unat ((s AND 0xFFFF) + drop_bit 16 s) < unat s"
proof -
  assume "drop_bit 16 s \<noteq> 0"
  then have "unat s div 65536 \<noteq> 0" using carry_parts(1) [of s] unat_0_iff by metis
  moreover have "unat s = 65536 * (unat s div 65536) + unat s mod 65536" by (rule mult_div_mod_eq [symmetric])
  ultimately have "unat s mod 65536 + unat s div 65536 < unat s" by linarith
  then show ?thesis by (simp only: carry_add)
qed

function fold_carries :: "u32 \<Rightarrow> u32" where
  "fold_carries s = (if drop_bit 16 s \<noteq> 0 then fold_carries ((s AND 0xFFFF) + drop_bit 16 s) else s)"
  by pat_completeness auto
termination
  by (relation "measure unat") (simp_all add: carry_less)

declare fold_carries.simps [simp del]

definition ip_checksum :: "byte list \<Rightarrow> u16" where
  "ip_checksum xs = ucast (NOT (fold_carries (sum_words xs 0)) AND 0xFFFF)"

section \<open>The writer\<close>

type_synonym 'f fwrite = "'f \<Rightarrow> byte list \<Rightarrow> nat \<times> 'f"

definition eth_header :: "byte list" where
  "eth_header = put_u16be ([0x01, 0x00, 0x5e, 0x00, 0x00, 0x07] @ [0x02, 0x00, 0x00, 0x00, 0x00, 0x01]) 0x0800"

definition udp_length :: "nat \<Rightarrow> u16" where
  "udp_length n = of_nat (kUdpHeaderLen + n)"

definition ip_total_length :: "nat \<Rightarrow> u16" where
  "ip_total_length n = of_nat (kIpv4HeaderLen + unat (udp_length n))"

text \<open>The IPv4 header with the checksum still zero.\<close>

definition push_ip_header :: "byte list \<Rightarrow> u16 \<Rightarrow> byte list" where
  "push_ip_header frame ip_total =
     (let frame = frame @ [0x45];
          frame = frame @ [0x00];
          frame = put_u16be frame ip_total;
          frame = put_u16be frame 0x0000;
          frame = put_u16be frame 0x0000;
          frame = frame @ [0x10];
          frame = frame @ [0x11];
          frame = put_u16be frame 0x0000;
          frame = frame @ [127] @ [0] @ [0] @ [1]
      in frame @ [239] @ [0] @ [0] @ [7])"

definition build_frame :: "byte list \<Rightarrow> u16 \<Rightarrow> byte list" where
  "build_frame payload dst_port =
     (let udp_len = udp_length (length payload);
          ip_total = ip_total_length (length payload);
          frame = eth_header;
          ip_off = length frame;
          frame = push_ip_header frame ip_total;
          ipck = ip_checksum (take kIpv4HeaderLen (drop ip_off frame));
          frame = frame[ip_off + 10 := ucast (drop_bit 8 ipck)];
          frame = frame[ip_off + 11 := ucast ipck];
          frame = put_u16be frame 50007;
          frame = put_u16be frame dst_port;
          frame = put_u16be frame udp_len;
          frame = put_u16be frame 0x0000
      in frame @ payload)"

definition record_header :: "u64 \<Rightarrow> nat \<Rightarrow> byte list" where
  "record_header ts_us frame_size =
     (let rhdr = put_u32le [] (ucast (ts_us div 1000000));
          rhdr = put_u32le rhdr (ucast (ts_us mod 1000000));
          rhdr = put_u32le rhdr (of_nat frame_size)
      in put_u32le rhdr (of_nat frame_size))"

definition global_header :: "byte list" where
  "global_header =
     (let ghdr = put_u32le [] kPcapMagic;
          ghdr = put_u16le ghdr kPcapVersionMajor;
          ghdr = put_u16le ghdr kPcapVersionMinor;
          ghdr = put_u32le ghdr 0;
          ghdr = put_u32le ghdr 0;
          ghdr = put_u32le ghdr kSnapLen
      in put_u32le ghdr kDltEn10mb)"

text \<open>
  The writer is the file it has open. \<^verbatim>\<open>close\<close> hands it to \<^verbatim>\<open>fclose\<close>; \<^verbatim>\<open>f\<close> is what \<^verbatim>\<open>fopen\<close>
  returned. The first component is the file that has been closed, if any.
\<close>

definition writer_close :: "'f option \<Rightarrow> 'f option \<times> 'f option" where
  "writer_close w = (w, None)"

definition writer_open :: "'f fwrite \<Rightarrow> 'f option \<Rightarrow> bool \<times> 'f option" where
  "writer_open fwr f =
     (case f of
        None \<Rightarrow> (False, None)
      | Some f \<Rightarrow>
          let (n, f) = fwr f global_header in
          if n \<noteq> length global_header then (False, None) else (True, Some f))"

definition write_datagram :: "'f fwrite \<Rightarrow> byte list \<Rightarrow> u64 \<Rightarrow> u16 \<Rightarrow> 'f option \<Rightarrow> bool \<times> 'f option" where
  "write_datagram fwr payload ts_us dst_port w =
     (case w of
        None \<Rightarrow> (False, None)
      | Some f \<Rightarrow>
          let frame = build_frame payload dst_port;
              rhdr = record_header ts_us (length frame);
              (n, f) = fwr f rhdr in
          if n \<noteq> length rhdr then (False, Some f)
          else let (n, f) = fwr f frame in
            if n \<noteq> length frame then (False, Some f) else (True, Some f))"

section \<open>The reader\<close>

text \<open>A packet of libpcap: its header, and the captured bytes.\<close>

record packet =
  caplen :: u32
  tv_sec :: int
  tv_usec :: int
  pk_data :: "byte list"

record PcapRecord =
  ts_us :: u64
  payload :: "byte list"

record 'p PcapReader =
  rd_handle :: "'p option"
  rd_eof :: bool

definition new_reader :: "'p PcapReader" where
  "new_reader = \<lparr>rd_handle = None, rd_eof = False\<rparr>"

definition reader_close :: "'p PcapReader \<Rightarrow> 'p PcapReader" where
  "reader_close r = (if rd_handle r \<noteq> None then r\<lparr>rd_handle := None\<rparr> else r)\<lparr>rd_eof := False\<rparr>"

text \<open>\<^verbatim>\<open>opened\<close> is what \<^verbatim>\<open>pcap_open_offline\<close> returned, \<^verbatim>\<open>datalink\<close> is \<^verbatim>\<open>pcap_datalink\<close>.\<close>

definition DLT_EN10MB :: int where "DLT_EN10MB = 1"

definition reader_open :: "('p \<Rightarrow> int) \<Rightarrow> 'p option \<Rightarrow> 'p PcapReader \<Rightarrow> bool \<times> 'p PcapReader" where
  "reader_open datalink opened r =
     (let r = reader_close r in
      case opened of
        None \<Rightarrow> (False, r)
      | Some p \<Rightarrow>
          if datalink p \<noteq> DLT_EN10MB then (False, r)
          else (True, r\<lparr>rd_handle := Some p, rd_eof := False\<rparr>))"

definition PCAP_ERROR_BREAK :: int where "PCAP_ERROR_BREAK = -2"

type_synonym 'p next_ex = "'p \<Rightarrow> int \<times> packet option \<times> 'p"

text \<open>
  The loop of \<^verbatim>\<open>next\<close> on an open handle: the next record, or none when the loop returns false, which
  is when it sets \<^verbatim>\<open>eof\<close>.
\<close>

partial_function (option) next_loop :: "'p next_ex \<Rightarrow> 'p \<Rightarrow> (PcapRecord option \<times> 'p) option" where
  "next_loop nx p =
     (let (rc, pkt, p) = nx p in
      if rc = PCAP_ERROR_BREAK then Some (None, p)
      else case pkt of
        None \<Rightarrow> if rc < 0 then Some (None, p) else next_loop nx p
      | Some k \<Rightarrow>
          if rc \<noteq> 1 then (if rc < 0 then Some (None, p) else next_loop nx p)
          else if unat (caplen k) \<le> kHeadersLen then next_loop nx p
          else do {
            xs \<leftarrow> bslice kHeadersLen (unat (caplen k) - kHeadersLen) (pk_data k);
            Some (Some \<lparr>ts_us = of_int (tv_sec k) * 1000000 + of_int (tv_usec k), payload = xs\<rparr>, p) })"

definition reader_next :: "'p next_ex \<Rightarrow> 'p PcapReader \<Rightarrow> (PcapRecord option \<times> 'p PcapReader) option" where
  "reader_next nx r =
     (case rd_handle r of
        None \<Rightarrow> Some (None, r)
      | Some p \<Rightarrow> do {
          (rec, p) \<leftarrow> next_loop nx p;
          Some (rec, r\<lparr>rd_handle := Some p, rd_eof := (if rec = None then True else rd_eof r)\<rparr>) })"

end
