(* ===== verification/Pcap_Tools.thy ===== *)
theory Pcap_Tools
  imports Publisher Feed_Handler Pcap_IO
begin

text \<open>
  The two capture programs: \<^verbatim>\<open>src/pcap_gen.cpp\<close>, which writes a synthetic session to two capture
  files, and \<^verbatim>\<open>src/pcap_replay.cpp\<close>, which runs a capture through the feed handler. Their
  argument parsing and printing are left out; opened files are arguments.
\<close>

section \<open>pcap_gen\<close>

definition kMessages :: nat where "kMessages = 1000"
definition kGapLo :: u64 where "kGapLo = 500"
definition kGapHi :: u64 where "kGapHi = 510"
definition kDstPort :: u16 where "kDstPort = 46007"

type_synonym Datagram = "byte list \<times> u64"

text \<open>The loop of \<^verbatim>\<open>generate\<close>. The generator's last state is returned too.\<close>

fun generate_loop :: "'r uniform \<Rightarrow> nat \<Rightarrow> 'r MessageGenerator \<Rightarrow> (Datagram list \<times> 'r MessageGenerator) option" where
  "generate_loop u 0 g = Some ([], g)"
| "generate_loop u (Suc n) g = do {
     (len, buf, hdr, g) \<leftarrow> next_datagram u g;
     (out, g) \<leftarrow> generate_loop u n g;
     Some ((if len \<noteq> 0 then [(buf, th_sequence hdr)] else []) @ out, g) }"

text \<open>\<^verbatim>\<open>r\<close> is the engine seeded with \<^verbatim>\<open>0xCAFE\<close>.\<close>

definition generate :: "'r uniform \<Rightarrow> 'r \<Rightarrow> (Datagram list \<times> 'r MessageGenerator) option" where
  "generate u r =
     (let g = new_generator r 1 in do {
        dirs \<leftarrow> directory_messages g;
        (out, g) \<leftarrow> generate_loop u kMessages g;
        Some (map (\<lambda>d. (d, 0)) dirs @ out, g) })"

text \<open>The loop of \<^verbatim>\<open>write_pcap\<close>: its result, the packets written, and the writer.\<close>

fun write_loop :: "'f fwrite \<Rightarrow> bool \<Rightarrow> Datagram list \<Rightarrow> u64 \<Rightarrow> u64 \<Rightarrow> 'f option \<Rightarrow> bool \<times> u64 \<times> 'f option" where
  "write_loop fwr drop_gap [] t written w = (True, written, w)"
| "write_loop fwr drop_gap ((bytes, seq) # ds) t written w =
     (if drop_gap \<and> seq \<ge> kGapLo \<and> seq \<le> kGapHi then write_loop fwr drop_gap ds (t + 100) written w
      else let (ok, w) = write_datagram fwr bytes t kDstPort w in
        if \<not> ok then (False, written, w)
        else write_loop fwr drop_gap ds (t + 100) (written + 1) w)"

text \<open>The result and the file that has been closed; \<^verbatim>\<open>f\<close> is what \<^verbatim>\<open>fopen\<close> returned.\<close>

definition write_pcap :: "'f fwrite \<Rightarrow> 'f option \<Rightarrow> Datagram list \<Rightarrow> bool \<Rightarrow> bool \<times> 'f option" where
  "write_pcap fwr f datagrams drop_gap =
     (let (ok, w) = writer_open fwr f in
      if \<not> ok then (False, None)
      else let (ok, written, w) = write_loop fwr drop_gap datagrams (1700000000 * 1000000) 0 w in
        (ok, fst (writer_close w)))"

text \<open>The exit status, and the two files.\<close>

definition pcap_gen_main :: "'f fwrite \<Rightarrow> 'r uniform \<Rightarrow> 'r \<Rightarrow> 'f option \<Rightarrow> 'f option \<Rightarrow>
    (int \<times> 'f option \<times> 'f option) option" where
  "pcap_gen_main fwr u r f1 f2 = do {
     (datagrams, g) \<leftarrow> generate u r;
     let (ok, f1) = write_pcap fwr f1 datagrams False in
     if \<not> ok then Some (1, f1, f2)
     else let (ok, f2) = write_pcap fwr f2 datagrams True in
       if \<not> ok then Some (1, f1, f2) else Some (0, f1, f2) }"

section \<open>pcap_replay\<close>

record Replay =
  rp_handler :: FeedHandler
  rp_gaps :: "gap_report list"
  replayed :: u64
  skipped :: u64
  have_first_ts :: bool
  first_ts_us :: u64
  prev_cap_us :: u64
  slept :: "int list"

definition start_replay :: "bool \<Rightarrow> Replay" where
  "start_replay skip =
     \<lparr>rp_handler = (set_skip_gaps (new_feed_handler 10) skip)\<lparr>has_gap_observer := True\<rparr>, rp_gaps = [],
      replayed = 0, skipped = 0, have_first_ts = False, first_ts_us = 0, prev_cap_us = 0, slept = []\<rparr>"

text \<open>
  The pacing. \<^verbatim>\<open>pace\<close> is present when \<^verbatim>\<open>--speedup\<close> is positive; applied to the captured distance
  it is the time to sleep, when the quotient computed in floating point is at least one.
\<close>

type_synonym pacing = "(u64 \<Rightarrow> int option) option"

definition pace_packet :: "pacing \<Rightarrow> PcapRecord \<Rightarrow> Replay \<Rightarrow> Replay" where
  "pace_packet pace rec s =
     (case pace of
        None \<Rightarrow> s
      | Some sleep_us \<Rightarrow>
          let cap_delta_us = (if ts_us rec > prev_cap_us s then ts_us rec - prev_cap_us s else 0) in
          case sleep_us cap_delta_us of
            None \<Rightarrow> s
          | Some d \<Rightarrow> s\<lparr>slept := slept s @ [d]\<rparr>)"

text \<open>
  One turn of the loop: whether it breaks, and the new state. The comparison of the elapsed time
  with \<^verbatim>\<open>--start-offset\<close>, made in floating point, is the argument \<^verbatim>\<open>early\<close>.
\<close>

definition replay_one :: "pacing \<Rightarrow> (u64 \<Rightarrow> bool) \<Rightarrow> u64 \<Rightarrow> PcapRecord \<Rightarrow> Replay \<Rightarrow> (bool \<times> Replay) option" where
  "replay_one pace early stop_after rec s =
     (let s = (if have_first_ts s then s
               else s\<lparr>first_ts_us := ts_us rec, have_first_ts := True, prev_cap_us := ts_us rec\<rparr>) in
      if early (ts_us rec - first_ts_us s)
      then Some (False, s\<lparr>skipped := skipped s + 1, prev_cap_us := ts_us rec\<rparr>)
      else let s = (pace_packet pace rec s)\<lparr>prev_cap_us := ts_us rec\<rparr> in do {
        (r, reports, snap, h) \<leftarrow> on_datagram None (rp_handler s) (payload rec);
        let s = s\<lparr>rp_handler := h, rp_gaps := rp_gaps s @ reports, replayed := replayed s + 1\<rparr> in
        Some (stop_after \<noteq> 0 \<and> replayed s \<ge> stop_after, s) })"

partial_function (option) replay_loop :: "'p next_ex \<Rightarrow> pacing \<Rightarrow> (u64 \<Rightarrow> bool) \<Rightarrow> u64 \<Rightarrow> 'p PcapReader \<Rightarrow> Replay \<Rightarrow>
    (Replay \<times> 'p PcapReader) option" where
  "replay_loop nx pace early stop_after r s = do {
     (rec, r) \<leftarrow> reader_next nx r;
     case rec of
       None \<Rightarrow> Some (s, r)
     | Some x \<Rightarrow> do {
         (brk, s) \<leftarrow> replay_one pace early stop_after x s;
         if brk then Some (s, r) else replay_loop nx pace early stop_after r s } }"

text \<open>The exit status and, when the capture could be opened, the state that is printed.\<close>

definition pcap_replay_main :: "'p next_ex \<Rightarrow> ('p \<Rightarrow> int) \<Rightarrow> pacing \<Rightarrow> (u64 \<Rightarrow> bool) \<Rightarrow> u64 \<Rightarrow> bool \<Rightarrow> 'p option \<Rightarrow>
    (int \<times> Replay option) option" where
  "pcap_replay_main nx datalink pace early stop_after skip opened =
     (let (ok, r) = reader_open datalink opened new_reader in
      if \<not> ok then Some (2, None)
      else do {
        (s, r) \<leftarrow> replay_loop nx pace early stop_after r (start_replay skip);
        Some (0, Some s) })"

end
