(* ===== verification/Pcap_Frames.thy ===== *)
theory Pcap_Frames
  imports Pcap_IO
begin

text \<open>
  The layout of what the capture writer emits, and the one's complement arithmetic behind the
  header checksum.
\<close>

section \<open>One's complement sums\<close>

fun word_sum :: "byte list \<Rightarrow> nat" where
  "word_sum (a # b # xs) = 256 * unat a + unat b + word_sum xs"
| "word_sum [a] = 256 * unat a"
| "word_sum [] = 0"

lemma pair_value: "unat (push_bit 8 (ucast a) OR ucast b :: u32) = 256 * unat (a :: byte) + unat (b :: byte)"
proof -
  have "(push_bit 8 (ucast a) OR ucast b :: u32) = push_bit 8 (ucast a) + ucast b"
    by (rule disjunctive_add_eq_or [symmetric], rule bit_word_eqI) (auto simp: bit_simps dest: bit_imp_le_length)
  moreover have "unat a < 256" "unat b < 256"
    using unsigned_less [of a, where 'a = nat] unsigned_less [of b, where 'a = nat] by simp_all
  ultimately show ?thesis
    by (simp add: unat_word_ariths push_bit_eq_mult unsigned_ucast_eq take_bit_nat_eq_self)
qed

lemma word_sum_bound: "word_sum xs \<le> 65535 * ((length xs + 1) div 2)"
proof (induction xs rule: word_sum.induct)
  case (1 a b xs)
  have "unat a < 256" "unat b < 256"
    using unsigned_less [of a, where 'a = nat] unsigned_less [of b, where 'a = nat] by simp_all
  then show ?case using 1 by simp
next
  case (2 a)
  have "unat a < 256" using unsigned_less [of a, where 'a = nat] by simp
  then show ?case by simp
qed simp

lemma sum_words_value:
  "unat s + word_sum xs < 2 ^ 32 \<Longrightarrow> unat (sum_words xs s) = unat s + word_sum xs"
proof (induction xs s rule: sum_words.induct)
  case (1 a b xs s)
  have "unat (s + (push_bit 8 (ucast a) OR ucast b)) = unat s + (256 * unat a + unat b)"
    using 1 by (subst unat_word_ariths) (simp add: pair_value)
  then show ?case using 1 by simp
next
  case (2 a s)
  have "unat (push_bit 8 (ucast a) :: u32) = 256 * unat a"
    using pair_value [of a 0] by simp
  then show ?case using 2 by (simp add: unat_word_ariths)
qed simp

lemma fold_carries_value:
  "unat (fold_carries s) < 65536 \<and> unat (fold_carries s) mod 65535 = unat s mod 65535 \<and>
   (fold_carries s = 0 \<longleftrightarrow> s = 0)"
proof (induction s rule: fold_carries.induct)
  case (1 s)
  show ?case
  proof (cases "drop_bit 16 s = 0")
    case True
    then have "fold_carries s = s" by (simp add: fold_carries.simps [of s])
    moreover have "unat s div 65536 = 0" using carry_parts(1) [of s] True by simp
    then have "unat s < 65536" by (simp add: div_eq_0_iff)
    ultimately show ?thesis by simp
  next
    case False
    let ?t = "(s AND 0xFFFF) + drop_bit 16 s"
    have eq: "fold_carries s = fold_carries ?t" by (simp add: fold_carries.simps [of s] False)
    have split: "unat s = 65536 * (unat s div 65536) + unat s mod 65536" by simp
    then have "unat s = 65535 * (unat s div 65536) + unat ?t" unfolding carry_add by linarith
    then have m: "unat ?t mod 65535 = unat s mod 65535" by (metis mod_mult_self2 add.commute)
    have "unat s div 65536 \<noteq> 0" using False carry_parts(1) [of s] unat_0_iff by metis
    then have "unat ?t \<noteq> 0" "unat s \<noteq> 0" unfolding carry_add by (simp, metis div_0)
    then have "?t \<noteq> 0" "s \<noteq> 0" by auto
    then show ?thesis using 1 [OF False] eq m by simp
  qed
qed

lemma low_complement: "unat (s :: u32) < 65536 \<Longrightarrow> unat (ucast (NOT s AND 0xFFFF) :: u16) = 65535 - unat s"
proof -
  assume s: "unat s < 65536"
  have m: "(0xFFFF :: u32) = mask 16" by (simp add: mask_eq_exp_minus_1)
  have "(ucast (NOT s AND 0xFFFF) :: u16) = ucast (NOT s)"
    unfolding m by (intro bit_word_eqI) (simp add: bit_simps)
  also have "\<dots> = NOT (ucast s)" by (intro bit_word_eqI) (simp add: bit_simps)
  finally have "unat (ucast (NOT s AND 0xFFFF) :: u16) = unat (NOT (ucast s :: u16))" by simp
  also have "\<dots> = unat (- 1 - ucast s :: u16)" by (simp only: not_eq_complement diff_conv_add_uminus add.commute)
  also have "\<dots> = unat (- 1 :: u16) - unat (ucast s :: u16)" by (rule unat_sub) simp
  also have "unat (- 1 :: u16) = 65535" by (simp add: unsigned_minus_1_eq_mask mask_eq_exp_minus_1)
  finally show ?thesis using s by (simp add: unsigned_ucast_eq take_bit_nat_eq_self)
qed


text \<open>
  Storing the checksum of a header whose checksum bytes are zero makes the sum over the whole
  header one the receiver accepts.
\<close>

lemma word_sum_append: "even (length xs) \<Longrightarrow> word_sum (xs @ ys) = word_sum xs + word_sum ys"
  by (induction xs rule: word_sum.induct) auto

lemma ip_checksum_value:
  assumes "length xs \<le> 65536"
  shows "\<exists>r. unat (ip_checksum xs) = 65535 - r \<and> r < 65536 \<and> r mod 65535 = word_sum xs mod 65535 \<and>
    (r = 0 \<longleftrightarrow> word_sum xs = 0)"
proof -
  have "(length xs + 1) div 2 \<le> 32768" using assms by simp
  then have "word_sum xs \<le> 65535 * 32768" using word_sum_bound [of xs] by (meson le_trans mult_le_mono2)
  then have s: "unat (sum_words xs 0) = word_sum xs" using sum_words_value [of 0 xs] by simp
  let ?f = "fold_carries (sum_words xs 0)"
  have f: "unat ?f < 65536" "unat ?f mod 65535 = word_sum xs mod 65535" "?f = 0 \<longleftrightarrow> sum_words xs 0 = 0"
    using fold_carries_value [of "sum_words xs 0"] s by simp_all
  have "unat ?f = 0 \<longleftrightarrow> unat (sum_words xs 0) = 0" using f(3) by (simp only: unat_eq_0)
  then have "unat ?f = 0 \<longleftrightarrow> word_sum xs = 0" using s by simp
  moreover have "unat (ip_checksum xs) = 65535 - unat ?f"
    unfolding ip_checksum_def by (rule low_complement [OF f(1)])
  ultimately show ?thesis using f(1,2) by (intro exI [of _ "unat ?f"] conjI)
qed

lemma checksum_verifies:
  assumes len: "even (length xs)" "length (xs @ 0 # 0 # ys) \<le> 65536"
    and ck: "c = ip_checksum (xs @ 0 # 0 # ys)"
  shows "ip_checksum (xs @ ucast (drop_bit 8 c) # ucast c # ys) = 0"
proof -
  let ?z = "xs @ 0 # 0 # ys" and ?w = "xs @ ucast (drop_bit 8 c) # ucast c # ys"
  from ip_checksum_value [OF len(2)] obtain r where rr: "unat (ip_checksum ?z) = 65535 - r \<and> r < 65536 \<and>
      r mod 65535 = word_sum ?z mod 65535 \<and> (r = 0 \<longleftrightarrow> word_sum ?z = 0)" by (rule exE)
  then have r: "unat c = 65535 - r" "r < 65536" "r mod 65535 = word_sum ?z mod 65535"
    and r0: "r = 0 \<longleftrightarrow> word_sum ?z = 0" unfolding ck by simp_all
  have hl: "256 * unat (ucast (drop_bit 8 c) :: byte) + unat (ucast c :: byte) = unat c"
  proof -
    have "unat c < 65536" using unsigned_less [of c, where 'a = nat] by simp
    then have "unat c div 256 < 256" by (simp add: less_mult_imp_div_less)
    moreover have "unat (drop_bit 8 c) = unat c div 256"
      by (simp only: unat_drop_bit_eq) (simp add: drop_bit_eq_div)
    ultimately show ?thesis by (simp add: unsigned_ucast_eq take_bit_nat_def)
  qed
  have w: "word_sum ?w = word_sum ?z + unat c"
    using len(1) hl by (simp add: word_sum_append)
  have "(word_sum ?z + unat c) mod 65535 = (r + (65535 - r)) mod 65535"
    using r by (metis mod_add_left_eq)
  then have w0: "word_sum ?w mod 65535 = 0" using r(2) w by simp
  have "length ?w \<le> 65536" using len(2) by simp
  from ip_checksum_value [OF this] obtain q where qq: "unat (ip_checksum ?w) = 65535 - q \<and> q < 65536 \<and>
      q mod 65535 = word_sum ?w mod 65535 \<and> (q = 0 \<longleftrightarrow> word_sum ?w = 0)" by (rule exE)
  then have q: "unat (ip_checksum ?w) = 65535 - q" "q < 65536" "q mod 65535 = word_sum ?w mod 65535"
    and q0: "q = 0 \<longleftrightarrow> word_sum ?w = 0" by simp_all
  have "word_sum ?w \<noteq> 0"
  proof
    assume "word_sum ?w = 0"
    then have z: "word_sum ?z = 0" and c0: "unat c = 0" using w by simp_all
    then show False using r(1) r0 by simp
  qed
  then have "q \<noteq> 0" "q mod 65535 = 0" using q(3) q0 w0 by simp_all
  then have "q = 65535" using q(2) by (auto simp: mod_eq_0_iff_dvd elim!: dvdE)
  then show ?thesis using q(1) by (simp add: unat_eq_0)
qed

section \<open>The layout of a frame\<close>

definition ip_head :: "u16 \<Rightarrow> byte list" where
  "ip_head t = [0x45, 0] @ be_bytes 2 t @ [0, 0, 0, 0, 0x10, 0x11]"

definition ip_addresses :: "byte list" where
  "ip_addresses = [127, 0, 0, 1, 239, 0, 0, 7]"

definition ip_header :: "u16 \<Rightarrow> byte list" where
  "ip_header t = (let c = ip_checksum (ip_head t @ 0 # 0 # ip_addresses)
     in ip_head t @ ucast (drop_bit 8 c) # ucast c # ip_addresses)"

definition udp_header :: "u16 \<Rightarrow> u16 \<Rightarrow> byte list" where
  "udp_header dst n = be_bytes 2 (50007 :: u16) @ be_bytes 2 dst @ be_bytes 2 n @ [0, 0]"

lemma put_u16be_alt: "put_u16be v x = v @ be_bytes 2 x"
  by (simp add: put_u16be_def be_bytes_expand)

lemma frame_parts_length [simp, bounds_simps]:
  "length eth_header = 14" "length (ip_head t) = 10" "length ip_addresses = 8"
  "length (ip_header t) = 20" "length (udp_header dst n) = 8"
  by (simp_all add: eth_header_def put_u16be_alt ip_head_def ip_addresses_def ip_header_def udp_header_def Let_def)

lemma put_u16be_zero: "put_u16be v 0 = v @ [0, 0]"
  by (simp add: put_u16be_def)

lemma push_ip_header_alt: "push_ip_header v t = v @ ip_head t @ 0 # 0 # ip_addresses"
  by (simp add: push_ip_header_def put_u16be_zero put_u16be_alt [of _ t] ip_head_def ip_addresses_def Let_def)

lemma build_frame_alt:
  "build_frame xs dst = eth_header @ ip_header (ip_total_length (length xs)) @
     udp_header dst (udp_length (length xs)) @ xs"
proof -
  let ?t = "ip_total_length (length xs)"
  let ?c = "ip_checksum (ip_head ?t @ 0 # 0 # ip_addresses)"
  have ck: "take kIpv4HeaderLen (drop (length eth_header) (push_ip_header eth_header ?t)) =
      ip_head ?t @ 0 # 0 # ip_addresses"
    by (simp add: push_ip_header_alt kIpv4HeaderLen_def)
  have "(push_ip_header eth_header ?t)[length eth_header + 10 := x, length eth_header + 11 := y] =
      eth_header @ ip_head ?t @ x # y # ip_addresses" for x y
    by (simp add: push_ip_header_alt list_update_append)
  then show ?thesis
    unfolding build_frame_def Let_def ck put_u16be_alt ip_header_def udp_header_def
    by (simp add: be_bytes_expand)
qed

lemma length_build_frame [simp, bounds_simps]: "length (build_frame xs dst) = kHeadersLen + length xs"
  by (simp add: build_frame_alt header_lens)

lemma frame_payload: "drop kHeadersLen (build_frame xs dst) = xs"
  by (simp add: build_frame_alt header_lens)

text \<open>Every captured frame is well formed: its IPv4 header passes the receiver's check, its payload
  starts where the reader looks for it, it carries the destination port, and, for every payload a
  UDP datagram can carry, the two length fields state the true lengths.\<close>

theorem captured_frame_valid:
  "ip_checksum (take 20 (drop 14 (build_frame xs dst))) = 0 \<and>
   drop kHeadersLen (build_frame xs dst) = xs \<and>
   be_word (take 2 (drop 36 (build_frame xs dst))) = dst \<and>
   (length xs \<le> 65507 \<longrightarrow>
      unat (be_word (take 2 (drop 16 (build_frame xs dst))) :: u16) = 20 + 8 + length xs \<and>
      unat (be_word (take 2 (drop 38 (build_frame xs dst))) :: u16) = 8 + length xs)"
proof (intro conjI impI)
  let ?f = "build_frame xs dst" and ?t = "ip_total_length (length xs)" and ?u = "udp_length (length xs)"
  have "take 20 (drop 14 ?f) = ip_header ?t" by (simp add: build_frame_alt)
  then show "ip_checksum (take 20 (drop 14 ?f)) = 0"
    using checksum_verifies [of "ip_head ?t" ip_addresses] by (simp add: ip_header_def Let_def)
  show "drop kHeadersLen ?f = xs" by (rule frame_payload)
  show "be_word (take 2 (drop 36 ?f)) = dst" by (simp add: build_frame_alt udp_header_def)
  have t: "take 2 (drop 16 ?f) = be_bytes 2 ?t"
    by (simp add: build_frame_alt ip_header_def ip_head_def Let_def)
  have u: "take 2 (drop 38 ?f) = be_bytes 2 ?u" by (simp add: build_frame_alt udp_header_def)
  assume "length xs \<le> 65507"
  then have un: "unat ?u = 8 + length xs" and tn: "unat (of_nat (20 + (8 + length xs)) :: u16) = 20 + (8 + length xs)"
    unfolding udp_length_def kUdpHeaderLen_def by (intro unat_of_nat_small; simp)+
  show "unat (be_word (take 2 (drop 16 ?f)) :: u16) = 20 + 8 + length xs"
      "unat (be_word (take 2 (drop 38 ?f)) :: u16) = 8 + length xs"
    unfolding t u be_word_be_bytes_std ip_total_length_def kIpv4HeaderLen_def un tn by simp_all
qed

theorem captured_frame_valid_witness:
  "unat (be_word (take 2 (drop 38 (build_frame [1, 2, 3] 46007))) :: u16) = 11"
  using captured_frame_valid [of "[1, 2, 3]" 46007] by simp

end
