(* ===== verification/Capture_File.thy ===== *)
theory Capture_File
  imports Pcap_Frames
begin

text \<open>
  Writing a capture file and reading it back, under the documented behaviour of \<^verbatim>\<open>fwrite\<close> and of
  libpcap's savefile reader.
\<close>

section \<open>The contracts of the two libraries\<close>

text \<open>\<^verbatim>\<open>fwrite\<close> appends as many bytes as it returns.\<close>

definition fwrite_ok :: "'f fwrite \<Rightarrow> ('f \<Rightarrow> byte list) \<Rightarrow> bool" where
  "fwrite_ok fwr content \<longleftrightarrow> (\<forall>f xs. fst (fwr f xs) \<le> length xs \<and>
     content (snd (fwr f xs)) = content f @ take (fst (fwr f xs)) xs)"

text \<open>
  The layout of a savefile, as its manual page gives it for a little-endian writer: a header of 24
  bytes, then for each packet the seconds, the microseconds, the captured and the original length,
  and the captured bytes.
\<close>

definition le_bytes :: "nat \<Rightarrow> 'a::len word \<Rightarrow> byte list" where
  "le_bytes n v = rev (be_bytes n v)"

definition le_word :: "byte list \<Rightarrow> 'a::len word" where
  "le_word xs = be_word (rev xs)"

definition savefile_header :: "byte list" where
  "savefile_header = le_bytes 4 (0xA1B2C3D4 :: u32) @ le_bytes 2 (2 :: u16) @ le_bytes 2 (4 :: u16) @
     replicate 8 0 @ le_bytes 4 (65535 :: u32) @ le_bytes 4 (1 :: u32)"

definition savefile_packet :: "u32 \<Rightarrow> u32 \<Rightarrow> u32 \<Rightarrow> u32 \<Rightarrow> byte list \<Rightarrow> byte list" where
  "savefile_packet s us n orig xs = le_bytes 4 s @ le_bytes 4 us @ le_bytes 4 n @ le_bytes 4 orig @ xs"

text \<open>
  \<^verbatim>\<open>pcap_next_ex\<close> returns the packets of the file in order and then its end. \<^verbatim>\<open>rest\<close> is what the
  handle has not read yet; seconds are taken below 2 ^ 31, where their sign does not matter.
\<close>

definition savefile_ok :: "'p next_ex \<Rightarrow> ('p \<Rightarrow> byte list) \<Rightarrow> bool" where
  "savefile_ok nx rest \<longleftrightarrow>
     (\<forall>p. rest p = [] \<longrightarrow> fst (nx p) = PCAP_ERROR_BREAK) \<and>
     (\<forall>p s us n orig xs after. rest p = savefile_packet s us n orig xs @ after \<longrightarrow>
        unat s < 2 ^ 31 \<longrightarrow> unat us < 1000000 \<longrightarrow> length xs = unat n \<longrightarrow> unat n \<le> 65535 \<longrightarrow>
        (\<exists>p'. nx p = (1, Some \<lparr>caplen = n, tv_sec = int (unat s), tv_usec = int (unat us), pk_data = xs\<rparr>, p') \<and>
           rest p' = after))"

definition open_ok :: "(byte list \<Rightarrow> 'p option) \<Rightarrow> ('p \<Rightarrow> int) \<Rightarrow> ('p \<Rightarrow> byte list) \<Rightarrow> bool" where
  "open_ok opener datalink rest \<longleftrightarrow>
     (\<forall>after. \<exists>p. opener (savefile_header @ after) = Some p \<and> datalink p = DLT_EN10MB \<and> rest p = after)"

lemma savefile_okD:
  "savefile_ok nx rest \<Longrightarrow> rest p = [] \<Longrightarrow> fst (nx p) = PCAP_ERROR_BREAK"
  "savefile_ok nx rest \<Longrightarrow> rest p = savefile_packet s us n orig xs @ after \<Longrightarrow> unat s < 2 ^ 31 \<Longrightarrow>
     unat us < 1000000 \<Longrightarrow> length xs = unat n \<Longrightarrow> unat n \<le> 65535 \<Longrightarrow>
     \<exists>p'. nx p = (1, Some \<lparr>caplen = n, tv_sec = int (unat s), tv_usec = int (unat us), pk_data = xs\<rparr>, p') \<and>
       rest p' = after"
  unfolding savefile_ok_def by blast+

section \<open>What the writer emits\<close>

lemma put_le_alt: "put_u16le v x = v @ le_bytes 2 x" "put_u32le v y = v @ le_bytes 4 y"
  by (simp_all add: put_u16le_def put_u32le_def le_bytes_def be_bytes_expand upt_rec)

lemma length_le_bytes [simp, bounds_simps]: "length (le_bytes n v) = n"
  by (simp add: le_bytes_def)

lemma le_word_le_bytes [simp]: "le_word (le_bytes 4 v) = (v :: u32)"
  by (simp add: le_word_def le_bytes_def)

lemma global_header_alt: "global_header = savefile_header"
proof -
  have "le_bytes 4 (0 :: u32) = [0, 0, 0, 0]" by (simp add: le_bytes_def be_bytes_expand)
  then have "le_bytes 4 (0 :: u32) @ le_bytes 4 (0 :: u32) = replicate 8 0" by (simp add: numeral_eq_Suc)
  then show ?thesis
    by (simp add: global_header_def savefile_header_def put_le_alt kPcapMagic_def kPcapVersionMajor_def
        kPcapVersionMinor_def kSnapLen_def kDltEn10mb_def Let_def)
qed

definition packet_bytes :: "u64 \<Rightarrow> byte list \<Rightarrow> byte list" where
  "packet_bytes t frame = savefile_packet (ucast (t div 1000000)) (ucast (t mod 1000000))
     (of_nat (length frame)) (of_nat (length frame)) frame"

lemma packet_bytes_alt: "record_header t (length frame) @ frame = packet_bytes t frame"
  by (simp add: record_header_def packet_bytes_def savefile_packet_def put_le_alt Let_def)

lemma write_datagram_content:
  assumes "fwrite_ok fwr content" and "write_datagram fwr xs t dst (Some f) = (True, w)"
  shows "\<exists>f'. w = Some f' \<and> content f' = content f @ packet_bytes t (build_frame xs dst)"
  using assms
  by (auto simp: write_datagram_def Let_def case_prod_unfold fwrite_ok_def simp flip: packet_bytes_alt split: if_splits)

lemma writer_open_content:
  assumes "fwrite_ok fwr content" and "writer_open fwr (Some f) = (True, w)"
  shows "\<exists>f'. w = Some f' \<and> content f' = content f @ savefile_header"
  using assms
  by (auto simp: writer_open_def Let_def case_prod_unfold fwrite_ok_def global_header_alt split: if_splits)

section \<open>What the reader gets\<close>

definition capture_time_ok :: "u64 \<Rightarrow> bool" where
  "capture_time_ok t \<longleftrightarrow> unat t < 2 ^ 31 * 1000000"

lemma time_parts:
  assumes "capture_time_ok t"
  shows "unat (ucast (t div 1000000) :: u32) = unat t div 1000000"
    and "unat (ucast (t mod 1000000) :: u32) = unat t mod 1000000"
    and "unat t div 1000000 < 2 ^ 31"
proof -
  show s: "unat t div 1000000 < 2 ^ 31"
    using assms by (simp add: capture_time_ok_def less_mult_imp_div_less)
  have "unat (t div 1000000) = unat t div 1000000" "unat (t mod 1000000) = unat t mod 1000000"
    by (simp_all add: unat_div unat_mod)
  moreover have "unat t mod 1000000 < 1000000" by simp
  ultimately show "unat (ucast (t div 1000000) :: u32) = unat t div 1000000"
      "unat (ucast (t mod 1000000) :: u32) = unat t mod 1000000"
    using s by (simp_all add: unsigned_ucast_eq take_bit_nat_eq_self)
qed

lemma time_joined:
  "of_nat (unat t div 1000000) * 1000000 + of_nat (unat t mod 1000000) = (t :: u64)"
proof -
  have "of_nat (unat t div 1000000) * 1000000 + of_nat (unat t mod 1000000) =
      (of_nat (unat t div 1000000 * 1000000 + unat t mod 1000000) :: u64)"
    by (simp only: of_nat_add of_nat_mult of_nat_numeral)
  also have "\<dots> = t" by (simp only: div_mult_mod_eq) simp
  finally show ?thesis .
qed

text \<open>One packet: its payload, unless that is empty, in which case the reader goes on.\<close>

lemma next_loop_packet:
  assumes nx: "savefile_ok nx rest" and p: "rest p = packet_bytes t (build_frame xs dst) @ after"
    and ok: "capture_time_ok t" "length xs \<le> 65493"
  shows "\<exists>p'. rest p' = after \<and>
    next_loop nx p = (if xs = [] then next_loop nx p' else Some (Some \<lparr>ts_us = t, payload = xs\<rparr>, p'))"
proof -
  let ?f = "build_frame xs dst"
  have len: "length ?f = 42 + length xs" by (simp add: header_lens)
  then have n: "unat (of_nat (length ?f) :: u32) = 42 + length xs"
    using ok(2) by (simp only: len) (rule unat_of_nat_small, simp)
  obtain p' where p': "nx p = (1, Some \<lparr>caplen = of_nat (length ?f), tv_sec = int (unat t div 1000000),
      tv_usec = int (unat t mod 1000000), pk_data = ?f\<rparr>, p')" "rest p' = after"
    using savefile_okD(2) [OF nx p [unfolded packet_bytes_def]] time_parts [OF ok(1)] n len ok(2) by auto
  have "bslice kHeadersLen (length xs) ?f = Some xs"
    by (simp add: bslice_def frame_payload)
  then have "next_loop nx p = (if xs = [] then next_loop nx p' else Some (Some \<lparr>ts_us = t, payload = xs\<rparr>, p'))"
    using n by (simp add: next_loop.simps [of nx p] p' PCAP_ERROR_BREAK_def time_joined header_lens del: of_nat_add)
  then show ?thesis using p'(2) by blast
qed

lemma next_loop_end: "savefile_ok nx rest \<Longrightarrow> rest p = [] \<Longrightarrow> \<exists>p'. next_loop nx p = Some (None, p')"
  using savefile_okD(1) [of nx rest p] by (simp add: next_loop.simps [of nx p] case_prod_unfold Let_def)

text \<open>Reading a capture to its end, as the clients do.\<close>

partial_function (option) read_all :: "'p next_ex \<Rightarrow> 'p PcapReader \<Rightarrow> (PcapRecord list \<times> 'p PcapReader) option" where
  "read_all nx r = do {
     (rec, r) \<leftarrow> reader_next nx r;
     case rec of
       None \<Rightarrow> Some ([], r)
     | Some x \<Rightarrow> do { (xs, r) \<leftarrow> read_all nx r; Some (x # xs, r) } }"

text \<open>The datagrams of a capture, each with its time and port, and the records they are read back as.\<close>

type_synonym datagrams = "(byte list \<times> u64 \<times> u16) list"

definition capture_ok :: "datagrams \<Rightarrow> bool" where
  "capture_ok ds \<longleftrightarrow> (\<forall>(xs, t, dst) \<in> set ds. length xs \<le> 65493 \<and> capture_time_ok t)"

definition packets_bytes :: "datagrams \<Rightarrow> byte list" where
  "packets_bytes ds = concat (map (\<lambda>(xs, t, dst). packet_bytes t (build_frame xs dst)) ds)"

definition as_records :: "datagrams \<Rightarrow> PcapRecord list" where
  "as_records ds = map (\<lambda>(xs, t, dst). \<lparr>ts_us = t, payload = xs\<rparr>) (filter (\<lambda>d. fst d \<noteq> []) ds)"

lemma capture_ok_simps [simp]:
  "capture_ok []" "capture_ok ((xs, t, dst) # ds) \<longleftrightarrow> length xs \<le> 65493 \<and> capture_time_ok t \<and> capture_ok ds"
  by (auto simp: capture_ok_def)

lemma packets_simps [simp]:
  "packets_bytes [] = []"
  "packets_bytes ((xs, t, dst) # ds) = packet_bytes t (build_frame xs dst) @ packets_bytes ds"
  "as_records [] = []"
  "as_records ((xs, t, dst) # ds) = (if xs = [] then [] else [\<lparr>ts_us = t, payload = xs\<rparr>]) @ as_records ds"
  by (simp_all add: packets_bytes_def as_records_def)

text \<open>One call of the reader on the packets of a capture.\<close>

lemma next_loop_packets:
  assumes "savefile_ok nx rest" and "capture_ok ds" and "rest p = packets_bytes ds"
  shows "\<exists>p'. (as_records ds = [] \<and> next_loop nx p = Some (None, p')) \<or>
    (\<exists>ds' x. as_records ds = x # as_records ds' \<and> length ds' < length ds \<and> capture_ok ds' \<and>
       rest p' = packets_bytes ds' \<and> next_loop nx p = Some (Some x, p'))"
  using assms(2,3)
proof (induction ds arbitrary: p)
  case Nil
  then show ?case using next_loop_end [OF assms(1)] by simp
next
  case (Cons d ds)
  obtain xs t dst where d: "d = (xs, t, dst)" by (cases d)
  obtain p' where p': "rest p' = packets_bytes ds"
      "next_loop nx p = (if xs = [] then next_loop nx p' else Some (Some \<lparr>ts_us = t, payload = xs\<rparr>, p'))"
    using next_loop_packet [OF assms(1), of p t xs dst "packets_bytes ds"] Cons.prems d by auto
  show ?case
  proof (cases "xs = []")
    case True
    then show ?thesis using Cons.IH [of p'] Cons.prems d p' by (auto intro: less_SucI)
  next
    case False
    then show ?thesis
      using Cons.prems d p' by (intro exI [of _ p'] disjI2 exI [of _ ds]) simp
  qed
qed

lemma read_all_packets:
  assumes "savefile_ok nx rest"
  shows "capture_ok ds \<Longrightarrow> rd_handle r = Some p \<Longrightarrow> rest p = packets_bytes ds \<Longrightarrow>
    \<exists>r'. read_all nx r = Some (as_records ds, r') \<and> rd_eof r'"
proof (induction ds arbitrary: r p rule: length_induct)
  case (1 ds)
  obtain p' where "(as_records ds = [] \<and> next_loop nx p = Some (None, p')) \<or>
    (\<exists>ds' x. as_records ds = x # as_records ds' \<and> length ds' < length ds \<and> capture_ok ds' \<and>
       rest p' = packets_bytes ds' \<and> next_loop nx p = Some (Some x, p'))"
    using next_loop_packets [OF assms "1.prems"(1,3)] by blast
  then show ?case
  proof (elim disjE conjE exE)
    assume "as_records ds = []" "next_loop nx p = Some (None, p')"
    then show ?thesis by (simp add: read_all.simps [of nx r] reader_next_def "1.prems"(2))
  next
    fix ds' x
    assume x: "as_records ds = x # as_records ds'" "length ds' < length ds" "capture_ok ds'"
      "rest p' = packets_bytes ds'" "next_loop nx p = Some (Some x, p')"
    let ?r = "r\<lparr>rd_handle := Some p'\<rparr>"
    obtain r' where "read_all nx ?r = Some (as_records ds', r')" "rd_eof r'"
      using "1.IH" [rule_format, OF x(2,3), of ?r p'] x(4) by auto
    moreover have "reader_next nx r = Some (Some x, ?r)" by (simp add: reader_next_def "1.prems"(2) x(5))
    ultimately show ?thesis by (simp add: read_all.simps [of nx r] x(1))
  qed
qed

section \<open>The round trip\<close>

fun write_all :: "'f fwrite \<Rightarrow> datagrams \<Rightarrow> 'f option \<Rightarrow> bool \<times> 'f option" where
  "write_all fwr [] w = (True, w)"
| "write_all fwr ((xs, t, dst) # ds) w =
     (let (ok, w) = write_datagram fwr xs t dst w in if ok then write_all fwr ds w else (False, w))"

lemma write_all_content:
  assumes "fwrite_ok fwr content"
  shows "write_all fwr ds (Some f) = (True, w) \<Longrightarrow> \<exists>f'. w = Some f' \<and> content f' = content f @ packets_bytes ds"
proof (induction ds arbitrary: f)
  case (Cons d ds)
  obtain xs t dst where d: "d = (xs, t, dst)" by (cases d)
  then obtain w1 where w1: "write_datagram fwr xs t dst (Some f) = (True, w1)" "write_all fwr ds w1 = (True, w)"
    using Cons.prems by (auto simp: Let_def case_prod_unfold split: if_splits)
      (metis prod.collapse)
  obtain f1 where "w1 = Some f1" "content f1 = content f @ packet_bytes t (build_frame xs dst)"
    using write_datagram_content [OF assms w1(1)] by blast
  then show ?case using Cons.IH [of f1] w1(2) d by auto
qed auto

lemma reader_open_written:
  assumes "open_ok opener datalink rest"
  shows "\<exists>r p. reader_open datalink (opener (savefile_header @ bs)) new_reader = (True, r) \<and>
    rd_handle r = Some p \<and> rest p = bs"
  using assms unfolding open_ok_def
  by (auto simp: reader_open_def reader_close_def new_reader_def Let_def dest!: spec [of _ bs])

text \<open>C35: captures round trip: whatever datagrams are written, through a writer that reports success for
  each, the reader opens the file and returns the same payloads with the same capture times, in
  order and none else, and then reports the end of the file; only empty payloads are left out.\<close>

theorem capture_roundtrip:
  assumes fwr: "fwrite_ok fwr content" and libpcap: "savefile_ok nx rest" "open_ok opener datalink rest"
    and new: "content f0 = []" and wr: "writer_open fwr (Some f0) = (True, w)"
    and all: "write_all fwr ds w = (True, Some f)" and ds: "capture_ok ds"
  shows "\<exists>r r'. reader_open datalink (opener (content f)) new_reader = (True, r) \<and>
    read_all nx r = Some (as_records ds, r') \<and> rd_eof r'"
proof -
  obtain f1 where f1: "w = Some f1" "content f1 = savefile_header"
    using writer_open_content [OF fwr wr] new by auto
  then have "content f = savefile_header @ packets_bytes ds"
    using write_all_content [OF fwr, of ds f1 "Some f"] all by auto
  then obtain r p where r: "reader_open datalink (opener (content f)) new_reader = (True, r)"
      "rd_handle r = Some p" "rest p = packets_bytes ds"
    using reader_open_written [OF libpcap(2), of "packets_bytes ds"] by auto
  then show ?thesis using read_all_packets [OF libpcap(1) ds r(2,3)] by blast
qed

text \<open>A file in memory, and a reader of it, that meet the contracts.\<close>

definition mem_fwrite :: "byte list fwrite" where
  "mem_fwrite f xs = (length xs, f @ xs)"

definition mem_open :: "byte list \<Rightarrow> byte list option" where
  "mem_open bs = (if take 24 bs = savefile_header then Some (drop 24 bs) else None)"

definition mem_next :: "byte list next_ex" where
  "mem_next p =
     (if p = [] then (PCAP_ERROR_BREAK, None, p)
      else let n = le_word (take 4 (drop 8 p)) in
        (1, Some \<lparr>caplen = n, tv_sec = int (unat (le_word (take 4 p) :: u32)),
           tv_usec = int (unat (le_word (take 4 (drop 4 p)) :: u32)),
           pk_data = take (unat n) (drop 16 p)\<rparr>, drop (16 + unat n) p))"

lemma mem_contracts:
  "fwrite_ok mem_fwrite id" "savefile_ok mem_next id" "open_ok mem_open (\<lambda>p. DLT_EN10MB) id"
proof -
  show "fwrite_ok mem_fwrite id" by (simp add: fwrite_ok_def mem_fwrite_def)
  show "open_ok mem_open (\<lambda>p. DLT_EN10MB) id"
    by (simp add: open_ok_def mem_open_def savefile_header_def)
  have "mem_next [] = (PCAP_ERROR_BREAK, None, [])" by (simp add: mem_next_def)
  moreover have "mem_next (savefile_packet s us n orig xs @ after) =
      (1, Some \<lparr>caplen = n, tv_sec = int (unat s), tv_usec = int (unat us), pk_data = xs\<rparr>, after)"
    if "length xs = unat n" for s us n orig xs after
  proof -
    have ne: "le_bytes 4 s \<noteq> []" using length_le_bytes [of 4 s] by (auto simp del: length_le_bytes)
    show ?thesis using that ne by (simp add: mem_next_def savefile_packet_def Let_def)
  qed
  ultimately show "savefile_ok mem_next id" by (simp add: savefile_ok_def)
qed

definition sample_capture :: datagrams where
  "sample_capture = [([7, 8], 1000001, 46007), ([], 1000002, 46007), ([9], 1000003, 46007)]"

theorem capture_roundtrip_witness:
  "\<exists>w f r r'. writer_open mem_fwrite (Some []) = (True, w) \<and> write_all mem_fwrite sample_capture w = (True, Some f) \<and>
     reader_open (\<lambda>p. DLT_EN10MB) (mem_open f) new_reader = (True, r) \<and>
     read_all mem_next r = Some ([\<lparr>ts_us = 1000001, payload = [7, 8]\<rparr>, \<lparr>ts_us = 1000003, payload = [9]\<rparr>], r')"
proof -
  have w: "writer_open mem_fwrite (Some []) = (True, Some global_header)"
    by (simp add: writer_open_def mem_fwrite_def)
  have "\<exists>f. write_all mem_fwrite ds (Some f0) = (True, Some f)" for ds f0
    by (induction ds arbitrary: f0) (auto simp: write_datagram_def mem_fwrite_def Let_def)
  then obtain f where f: "write_all mem_fwrite sample_capture (Some global_header) = (True, Some f)" by blast
  have "capture_ok sample_capture" by (simp add: sample_capture_def capture_time_ok_def)
  then obtain r r' where "reader_open (\<lambda>p. DLT_EN10MB) (mem_open f) new_reader = (True, r)"
      "read_all mem_next r = Some (as_records sample_capture, r')"
    using capture_roundtrip [OF mem_contracts _ w f] by auto
  then show ?thesis using w f by (auto simp: sample_capture_def)
qed

end
