(* ===== verification/Capture_Session.thy ===== *)
theory Capture_Session
  imports Pcap_Tools Capture_File Publisher_Correct
begin

text \<open>
  The capture programs end to end: what \<^verbatim>\<open>pcap_gen\<close> generates, and what \<^verbatim>\<open>pcap_replay\<close> makes of it.
\<close>

section \<open>The session of one symbol\<close>

text \<open>
  With one symbol every datagram is of locate 100 and the sequence numbers count up from 1.
\<close>

lemma next_datagram_locate:
  assumes nd: "next_datagram u g = Some (len, out, hdr, g')" and u: "uniform_ok u" and ne: "symbols g \<noteq> []"
  shows "symbols g' = symbols g \<and> (\<exists>si < length (symbols g). th_locate hdr = base_locate g + of_nat si)"
proof -
  obtain loc m g1 where gm: "gen_message u g = Some (loc, m, g1)" and tl: "th_locate hdr = loc"
      "symbols g' = symbols g1"
    using nd by (auto simp: next_datagram_def take_seq_def bind_eq_Some_conv Let_def split: option.splits)
  obtain si r1 where d1: "u 0 (length (symbols g) - 1) (rng g) = (si, r1)" by fastforce
  have si: "si < length (symbols g)" using uniform_bounds(2) [OF u d1] ne by (cases "symbols g") auto
  have e: "symbols g2 = symbols g0" if "erase_live g0 oi = Some g2" for g0 g2 :: "'a MessageGenerator" and oi
    using that by (auto simp: erase_live_def bind_eq_Some_conv)
  have "loc = base_locate g + of_nat si \<and> symbols g1 = symbols g"
    using gm ne d1 si
    by (auto simp: gen_message_def vat_Some Let_def case_prod_unfold bind_eq_Some_conv gen_add_def
        gen_cancel_def gen_execute_def gen_delete_def gen_replace_def dest!: e split: if_splits)
  then show ?thesis using tl si by auto
qed

definition single :: "nat \<Rightarrow> 'r MessageGenerator \<Rightarrow> bool" where
  "single k g \<longleftrightarrow> length (symbols g) = 1 \<and>
     next_seq g = (if k = 0 then Map.empty else [100 \<mapsto> of_nat (k + 1)])"

abbreviation deliveries_ok :: "bool \<Rightarrow> feed_view \<Rightarrow> (byte list \<times> delivery) list \<Rightarrow> bool" where
  "deliveries_ok sk \<equiv> admissible (\<lambda>v x. deliver sk v (snd x)) delivery_ok (\<lambda>v. True)"

abbreviation run_deliveries :: "bool \<Rightarrow> feed_view \<Rightarrow> (byte list \<times> delivery) list \<Rightarrow> feed_view" where
  "run_deliveries sk \<equiv> foldl (\<lambda>v x. deliver sk v (snd x))"

text \<open>The deliveries of a session, numbered from \<^verbatim>\<open>k\<close>.\<close>

fun session :: "nat \<Rightarrow> (byte list \<times> delivery) list \<Rightarrow> bool" where
  "session k [] \<longleftrightarrow> True"
| "session k ((out, loc, seq, m) # xs) \<longleftrightarrow>
     loc = 100 \<and> seq = of_nat k \<and> carries out (loc, seq, m) \<and> length out \<le> 65493 \<and> session (Suc k) xs"

definition numbered_datagram :: "byte list \<times> delivery \<Rightarrow> Datagram" where
  "numbered_datagram x = (fst x, fst (snd (snd x)))"

lemma generate_loop_run:
  assumes u: "uniform_ok u"
  shows "in_step k g v \<Longrightarrow> single k g \<Longrightarrow> k + n \<le> 4000000 \<Longrightarrow>
    \<exists>xs g'. generate_loop u n g = Some (map numbered_datagram xs, g') \<and> length xs = n \<and>
      session (Suc k) xs \<and> deliveries_ok sk v xs \<and> in_step (k + n) g' (run_deliveries sk v xs)"
proof (induction n arbitrary: k g v)
  case 0
  then show ?case by (intro exI [of _ "[]"]) simp
next
  case (Suc n)
  have k: "k < 4000000" using Suc.prems by simp
  obtain out hdr m g1 where st: "next_datagram u g = Some (length out, out, hdr, g1)"
      "delivery_ok v (out, th_locate hdr, th_sequence hdr, m)"
      "in_step (Suc k) g1 (deliver sk v (th_locate hdr, th_sequence hdr, m))"
      "length out = 10 + framed_size m"
      "th_sequence hdr = (case next_seq g (th_locate hdr) of None \<Rightarrow> 1 | Some s \<Rightarrow> s)"
      "next_seq g1 = (next_seq g)(th_locate hdr \<mapsto> th_sequence hdr + 1)"
    using next_datagram_step [OF Suc.prems(1) k u, of sk] by metis
  have "base_locate g = 100" using Suc.prems(1) by (simp add: in_step_def gen_inv_def)
  moreover have "symbols g \<noteq> []" "length (symbols g) = 1" using Suc.prems(2) by (auto simp: single_def)
  ultimately have loc: "th_locate hdr = 100" and sy: "symbols g1 = symbols g"
    using next_datagram_locate [OF st(1) u] by auto
  have seq: "th_sequence hdr = of_nat (Suc k)"
    using st(5) loc Suc.prems(2) by (auto simp: single_def)
  have "single (Suc k) g1" using Suc.prems(2) st(6) loc seq sy by (auto simp: single_def)
  then obtain xs g' where xs: "generate_loop u n g1 = Some (map numbered_datagram xs, g')" "length xs = n"
      "session (Suc (Suc k)) xs" "deliveries_ok sk (deliver sk v (th_locate hdr, th_sequence hdr, m)) xs"
      "in_step (Suc k + n) g' (run_deliveries sk (deliver sk v (th_locate hdr, th_sequence hdr, m)) xs)"
    using Suc.IH [OF st(3)] Suc.prems(3) by auto
  have "framed_size m \<le> 65483" by (simp add: framed_size_def) (cases "type_of m"; simp)
  then have "session (Suc k) ((out, th_locate hdr, th_sequence hdr, m) # xs)"
    using xs(3) st(2,4) loc seq by (simp add: delivery_ok_def del: carries.simps)
  then show ?case
    using st(1-4) xs by (intro exI [of _ "(out, th_locate hdr, th_sequence hdr, m) # xs"] exI [of _ g'])
      (auto simp: numbered_datagram_def)
qed

text \<open>The whole of \<^verbatim>\<open>generate\<close>: the directory of the symbol, and the session.\<close>

lemma generate_run:
  assumes u: "uniform_ok u"
  shows "\<exists>dir m xs g. generate u r = Some ((dir, 0) # map numbered_datagram xs, g) \<and>
    carries dir (100, 0, MStockDirectory m) \<and> length dir = 51 \<and> length xs = 1000 \<and> session 1 xs \<and>
    deliveries_ok sk (Map.empty, Map.empty) xs \<and> in_step 1000 g (run_deliveries sk (Map.empty, Map.empty) xs)"
proof -
  let ?g = "new_generator r 1"
  have g: "symbols ?g = [make_symbol (hd kNames)]" "base_locate ?g = 100"
    by (simp_all add: new_generator_def kNames_def)
  have s: "single 0 ?g" by (simp add: single_def new_generator_def kNames_def)
  obtain dir where dir: "directory_datagram ?g 0 = Some (Some dir)"
      "carries dir (100, 0, directory_message ?g 0)" "length dir = 51"
    using directory_datagram_carries [of 0 ?g] g by auto
  moreover have "[0..<length (symbols ?g)] = [0]" unfolding g by simp
  ultimately have "directory_messages ?g = Some [dir]" by (simp add: directory_messages_def)
  moreover obtain xs g' where "generate_loop u 1000 ?g = Some (map numbered_datagram xs, g')" "length xs = 1000"
      "session 1 xs" "deliveries_ok sk (Map.empty, Map.empty) xs"
      "in_step 1000 g' (run_deliveries sk (Map.empty, Map.empty) xs)"
    using generate_loop_run [OF u in_step_new s, of 1000 sk] by auto
  ultimately show ?thesis
    using dir(2,3) by (simp add: generate_def kMessages_def directory_message_def) blast
qed

end
