(* ===== verification/Capture_Replay.thy ===== *)
theory Capture_Replay
  imports Capture_Session
begin

text \<open>
  What \<^verbatim>\<open>pcap_replay\<close> does with a capture: which packets it replays, and what comes of the two
  captures of \<^verbatim>\<open>pcap_gen\<close>.
\<close>

section \<open>Runs of the handler with their gap reports\<close>

fun run_datagrams :: "FeedHandler \<Rightarrow> byte list list \<Rightarrow> (gap_report list \<times> FeedHandler) option" where
  "run_datagrams h [] = Some ([], h)"
| "run_datagrams h (d # ds) = do {
     (r, reports, snap, h) \<leftarrow> on_datagram None h d;
     (rest, h) \<leftarrow> run_datagrams h ds;
     Some (reports @ rest, h) }"

lemma run_datagrams_append:
  "run_datagrams h (xs @ ys) = do {
     (rs, h) \<leftarrow> run_datagrams h xs;
     (rs', h) \<leftarrow> run_datagrams h ys;
     Some (rs @ rs', h) }"
  by (induction xs arbitrary: h) (auto simp: bind_eq_Some_conv split: bind_splits)

lemma run_datagrams_steps:
  "map_option snd (run_datagrams h ds) = run_steps handler_step h (map (\<lambda>d. (None, d)) ds)"
proof (induction ds arbitrary: h)
  case (Cons d ds)
  have "handler_step h (None, d) = map_option (\<lambda>(r, reps, snap, h'). h') (on_datagram None h d)"
    by (simp add: handler_step_def)
  then show ?case
    by (cases "on_datagram None h d") (auto simp flip: Cons split: bind_splits)
qed simp

lemma run_datagrams_wf: "db_wf (fh_book h) \<Longrightarrow> \<exists>rs h'. run_datagrams h ds = Some (rs, h') \<and> db_wf (fh_book h')"
proof (induction ds arbitrary: h)
  case (Cons d ds)
  obtain r rs snap h1 where "on_datagram None h d = Some (r, rs, snap, h1)" "db_wf (fh_book h1)"
    using handler_step_wf [OF Cons.prems, of "(None, d)"] by (auto simp: handler_step_def)
  then show ?case using Cons.IH [of h1] by auto
qed simp

section \<open>The loop of the program\<close>

fun replay_list :: "pacing \<Rightarrow> (u64 \<Rightarrow> bool) \<Rightarrow> u64 \<Rightarrow> PcapRecord list \<Rightarrow> Replay \<Rightarrow> Replay option" where
  "replay_list pace early stop [] s = Some s"
| "replay_list pace early stop (x # xs) s = do {
     (brk, s) \<leftarrow> replay_one pace early stop x s;
     if brk then Some s else replay_list pace early stop xs s }"

lemma replay_loop_list:
  "read_all nx r = Some (xs, r1) \<Longrightarrow> replay_list pace early stop xs s = Some s' \<Longrightarrow>
   \<exists>r2. replay_loop nx pace early stop r s = Some (s', r2)"
proof (induction xs arbitrary: r s)
  case Nil
  then obtain ra where "reader_next nx r = Some (None, ra)"
    by (auto simp: read_all.simps [of nx r] bind_eq_Some_conv split: option.splits)
  then show ?case using Nil by (simp add: replay_loop.simps [of nx pace early stop r])
next
  case (Cons x xs)
  from Cons.prems(1) obtain ra where ra: "reader_next nx r = Some (Some x, ra)" "read_all nx ra = Some (xs, r1)"
    by (subst (asm) read_all.simps) (auto simp: bind_eq_Some_conv split: option.splits)
  obtain brk s1 where s1: "replay_one pace early stop x s = Some (brk, s1)"
      "(if brk then Some s1 else replay_list pace early stop xs s1) = Some s'"
    using Cons.prems(2) by (auto simp: bind_eq_Some_conv)
  show ?case
    using ra(1) s1 Cons.IH [OF ra(2), of s1]
    by (cases brk) (simp_all add: replay_loop.simps [of nx pace early stop r s])
qed

text \<open>The packets that are replayed: those not too early, up to the limit.\<close>

definition on_time :: "(u64 \<Rightarrow> bool) \<Rightarrow> u64 \<Rightarrow> PcapRecord list \<Rightarrow> PcapRecord list" where
  "on_time early t xs = filter (\<lambda>x. \<not> early (ts_us x - t)) xs"

definition limited :: "u64 \<Rightarrow> nat \<Rightarrow> 'a list \<Rightarrow> 'a list" where
  "limited stop k xs = (if stop = 0 then xs else take (unat stop - k) xs)"

lemma pace_frame [simp]:
  "rp_handler (pace_packet p x s) = rp_handler s" "rp_gaps (pace_packet p x s) = rp_gaps s"
  "replayed (pace_packet p x s) = replayed s" "have_first_ts (pace_packet p x s) = have_first_ts s"
  "first_ts_us (pace_packet p x s) = first_ts_us s"
  by (simp_all add: pace_packet_def Let_def split: option.split)

lemma replay_list_run:
  assumes "have_first_ts s" and "unat (replayed s) + length xs < 2 ^ 64" and "stop \<noteq> 0 \<longrightarrow> replayed s < stop"
    and "run_datagrams (rp_handler s) (map payload (limited stop (unat (replayed s)) (on_time early (first_ts_us s) xs))) =
      Some (rs, h)"
  shows "\<exists>s'. replay_list pace early stop xs s = Some s' \<and> rp_handler s' = h \<and> rp_gaps s' = rp_gaps s @ rs \<and>
    replayed s' = replayed s + of_nat (length (limited stop (unat (replayed s)) (on_time early (first_ts_us s) xs)))"
  using assms
proof (induction xs arbitrary: s rs)
  case Nil
  then show ?case by (simp add: on_time_def limited_def split: if_splits)
next
  case (Cons x xs)
  let ?k = "unat (replayed s)" and ?ys = "on_time early (first_ts_us s) xs"
  show ?case
  proof (cases "early (ts_us x - first_ts_us s)")
    case True
    let ?s = "s\<lparr>skipped := skipped s + 1, prev_cap_us := ts_us x\<rparr>"
    have "replay_one pace early stop x s = Some (False, ?s)"
      using True Cons.prems(1) by (simp add: replay_one_def Let_def)
    moreover have "on_time early (first_ts_us s) (x # xs) = ?ys" using True by (simp add: on_time_def)
    ultimately show ?thesis using Cons.IH [of ?s rs] Cons.prems by simp
  next
    case False
    have "stop \<noteq> 0 \<Longrightarrow> unat stop - ?k = Suc (unat stop - Suc ?k)"
      using Cons.prems(3) by (simp add: word_less_nat_alt)
    then have sel: "limited stop ?k (on_time early (first_ts_us s) (x # xs)) = x # limited stop (Suc ?k) ?ys"
      using False by (auto simp: on_time_def limited_def)
    obtain r reps snap h1 rs1 where od: "on_datagram None (rp_handler s) (payload x) = Some (r, reps, snap, h1)"
        "run_datagrams h1 (map payload (limited stop (Suc ?k) ?ys)) = Some (rs1, h)" "rs = reps @ rs1"
      using Cons.prems(4) unfolding sel by (auto simp: bind_eq_Some_conv)
    let ?s = "(pace_packet pace x s)\<lparr>prev_cap_us := ts_us x, rp_handler := h1, rp_gaps := rp_gaps s @ reps,
        replayed := replayed s + 1\<rparr>"
    have k: "unat (replayed s + 1) = Suc ?k" using Cons.prems(2) by (simp add: unat_word_ariths)
    have one: "replay_one pace early stop x s = Some (stop \<noteq> 0 \<and> stop \<le> replayed s + 1, ?s)"
      using False Cons.prems(1) od(1) by (simp add: replay_one_def Let_def)
    show ?thesis
    proof (cases "stop \<noteq> 0 \<and> stop \<le> replayed s + 1")
      case True
      then have "limited stop (Suc ?k) ?ys = []" using k by (simp add: limited_def word_le_nat_alt)
      then show ?thesis using one True od sel by simp
    next
      case cont: False
      then have st: "stop \<noteq> 0 \<longrightarrow> replayed ?s < stop" by auto
      have rep: "replayed ?s = replayed s + 1" "first_ts_us ?s = first_ts_us s" "rp_handler ?s = h1"
        "have_first_ts ?s" "rp_gaps ?s = rp_gaps s @ reps" using Cons.prems(1) by simp_all
      have "unat (replayed ?s) + length xs < 2 ^ 64" using Cons.prems(2) k rep(1) by simp
      moreover have "run_datagrams (rp_handler ?s)
          (map payload (limited stop (unat (replayed ?s)) (on_time early (first_ts_us ?s) xs))) = Some (rs1, h)"
        using od(2) k unfolding rep by simp
      ultimately obtain s' where s': "replay_list pace early stop xs ?s = Some s'" "rp_handler s' = h"
          "rp_gaps s' = rp_gaps ?s @ rs1"
          "replayed s' = replayed ?s + of_nat (length (limited stop (unat (replayed ?s)) (on_time early (first_ts_us ?s) xs)))"
        using Cons.IH [OF rep(4) _ st] by blast
      have "replay_list pace early stop (x # xs) s = Some s'" using one cont s'(1) by (simp only: replay_list.simps bind.bind_lunit prod.case) simp
      moreover have "rp_gaps s' = rp_gaps s @ rs" using s'(3) od(3) unfolding rep by simp
      moreover have "replayed s' = replayed s + of_nat (length (limited stop ?k (on_time early (first_ts_us s) (x # xs))))"
        using s'(4) unfolding sel rep k by simp
      ultimately show ?thesis using s'(2) by blast
    qed
  qed
qed

text \<open>The first record sets the start of the capture; before it nothing is known of the time.\<close>

definition selected :: "(u64 \<Rightarrow> bool) \<Rightarrow> u64 \<Rightarrow> PcapRecord list \<Rightarrow> PcapRecord list" where
  "selected early stop xs = limited stop 0 (on_time early (ts_us (hd xs)) xs)"

definition replay_handler :: "bool \<Rightarrow> FeedHandler" where
  "replay_handler skip = (set_skip_gaps (new_feed_handler 10) skip)\<lparr>has_gap_observer := True\<rparr>"

lemma replay_from_start:
  assumes "length xs < 2 ^ 64" and "run_datagrams (replay_handler skip) (map payload (selected early stop xs)) = Some (rs, h)"
  shows "\<exists>s'. replay_list pace early stop xs (start_replay skip) = Some s' \<and> rp_handler s' = h \<and> rp_gaps s' = rs \<and>
    replayed s' = of_nat (length (selected early stop xs))"
proof (cases xs)
  case Nil
  then show ?thesis using assms
    by (auto simp: start_replay_def replay_handler_def selected_def on_time_def limited_def split: if_splits)
next
  case (Cons x ys)
  let ?init = "start_replay skip"
  let ?s = "?init\<lparr>first_ts_us := ts_us x, have_first_ts := True, prev_cap_us := ts_us x\<rparr>"
  have first: "\<not> have_first_ts ?init" by (simp add: start_replay_def)
  have "replay_one pace early stop x ?s = replay_one pace early stop x ?init"
    unfolding replay_one_def Let_def if_not_P [OF first] by simp
  then have eq: "replay_list pace early stop xs ?s = replay_list pace early stop xs ?init" by (simp add: Cons)
  have f: "have_first_ts ?s" "replayed ?s = 0" "first_ts_us ?s = ts_us (hd xs)" "rp_gaps ?s = []"
    "rp_handler ?s = replay_handler skip"
    by (simp_all add: start_replay_def replay_handler_def Cons)
  have "unat (replayed ?s) + length xs < 2 ^ 64" using assms(1) unfolding f by simp
  moreover have "stop \<noteq> 0 \<longrightarrow> replayed ?s < stop" unfolding f by (simp add: word_neq_0_conv)
  ultimately obtain s' where "replay_list pace early stop xs ?s = Some s'" "rp_handler s' = h" "rp_gaps s' = rp_gaps ?s @ rs"
      "replayed s' = replayed ?s + of_nat (length (limited stop (unat (replayed ?s)) (on_time early (first_ts_us ?s) xs)))"
    using replay_list_run [OF f(1), of xs stop early rs h pace] assms(2) unfolding f selected_def by auto
  then show ?thesis unfolding eq f selected_def by auto
qed

lemma replay_runs:
  assumes "reader_open datalink opened new_reader = (True, r)" and "read_all nx r = Some (xs, r1)"
    and "length xs < 2 ^ 64"
  shows "\<exists>s. pcap_replay_main nx datalink pace early stop skip opened = Some (0, Some s) \<and>
    run_datagrams (replay_handler skip) (map payload (selected early stop xs)) = Some (rp_gaps s, rp_handler s) \<and>
    replayed s = of_nat (length (selected early stop xs))"
proof -
  have "db_wf (fh_book (replay_handler skip))"
    by (simp add: replay_handler_def set_skip_gaps_def new_feed_handler_def db_wf_new)
  then obtain rs h where run: "run_datagrams (replay_handler skip) (map payload (selected early stop xs)) = Some (rs, h)"
    using run_datagrams_wf by blast
  obtain s where s: "replay_list pace early stop xs (start_replay skip) = Some s" "rp_handler s = h" "rp_gaps s = rs"
      "replayed s = of_nat (length (selected early stop xs))"
    using replay_from_start [OF assms(3) run] by blast
  obtain r2 where "replay_loop nx pace early stop r (start_replay skip) = Some (s, r2)"
    using replay_loop_list [OF assms(2) s(1)] by blast
  then have "pcap_replay_main nx datalink pace early stop skip opened = Some (0, Some s)"
    by (simp add: pcap_replay_main_def assms(1))
  then show ?thesis using run s by auto
qed

section \<open>The gap reports of a session\<close>

definition watching :: "FeedHandler \<Rightarrow> bool" where
  "watching h \<longleftrightarrow> db_wf (fh_book h) \<and> has_gap_observer h \<and> skip_gaps h"

text \<open>A datagram that is due or late is passed on, after a report of what is missing before it.\<close>

definition gap_before :: "SequenceNumber option \<Rightarrow> SequenceNumber \<Rightarrow> gap_report list" where
  "gap_before e seq = (case e of None \<Rightarrow> [] | Some e \<Rightarrow> if e = seq then [] else [(100, e, seq - 1)])"

lemma datagram_report:
  assumes w: "watching h" and c: "carries data (100, seq, m)" and seq: "seq \<noteq> 0" "seq \<noteq> - 1"
    and e: "\<forall>e. due h 100 = Some e \<longrightarrow> e \<le> seq"
  shows "\<exists>r snap h'. on_datagram None h data = Some (r, gap_before (due h 100) seq, snap, h') \<and>
    watching h' \<and> due h' 100 = Some (seq + 1)"
proof -
  let ?h = "counted h data"
  have len: "12 \<le> length data" and hdr: "hdr_u16 data 0 = Some 100" "hdr_u64 data 2 = Some seq"
    using c hdr_in_bounds [of data] by simp_all
  obtain ret reps h1 where cs: "check_sequence None ?h 100 seq = (ret, reps, h1)" by (metis prod_cases3)
  have h1: "ret = None" "due h1 100 = Some (seq + 1)" "reps = gap_before (due h 100) seq"
    "has_gap_observer h1" "skip_gaps h1"
  proof -
    have "ret = None \<and> due h1 100 = Some (seq + 1) \<and> reps = gap_before (due h 100) seq \<and>
        has_gap_observer h1 \<and> skip_gaps h1"
    proof (cases "due h 100")
      case None
      then have "due ?h 100 = None \<or> due ?h 100 = Some seq" by simp
      from check_in_order [OF this, of None] cs show ?thesis
        using None w by (auto simp: gap_before_def watching_def)
    next
      case (Some e)
      then have "due ?h 100 = Some e" "\<not> seq < e" using e by (simp_all add: not_less)
      with check_skip_step [OF _ _ seq(2) this(1) cs] show ?thesis
        using Some w by (auto simp: gap_before_def watching_def)
    qed
    then show "ret = None" "due h1 100 = Some (seq + 1)" "reps = gap_before (due h 100) seq"
      "has_gap_observer h1" "skip_gaps h1" by blast+
  qed
  have wf1: "db_wf (fh_book h1)"
    using check_sequence_wf [of ?h None 100 seq] cs w by (simp add: watching_def)
  obtain r snap h2 where p: "apply_payload h1 (drop 10 data) = Some (r, snap, h2)" "db_wf (fh_book h2)"
    using apply_payload_wf [OF wf1] by blast
  have "on_datagram None h data = Some (r, reps, snap, h2)"
    using on_datagram_eq [OF len hdr, of None h ret reps h1] cs seq(1) h1(1) p(1) by simp
  then show ?thesis using h1 p(2) apply_payload_frame [OF p(1)] by (simp add: watching_def)
qed

text \<open>A session reports at most one gap, before its first datagram.\<close>

lemma session_reports:
  "session k xs \<Longrightarrow> xs \<noteq> [] \<Longrightarrow> 0 < k \<Longrightarrow> k + length xs < 2 ^ 64 \<Longrightarrow> watching h \<Longrightarrow>
   (\<forall>e. due h 100 = Some e \<longrightarrow> e \<le> of_nat k) \<Longrightarrow>
   \<exists>h'. run_datagrams h (map fst xs) = Some (gap_before (due h 100) (of_nat k), h') \<and> watching h' \<and>
     due h' 100 = Some (of_nat (k + length xs))"
proof (induction xs arbitrary: k h)
  case (Cons x xs)
  obtain out loc seq m where x: "x = (out, loc, seq, m)" by (cases x)
  have s: "loc = 100" "seq = of_nat k" "carries out (100, of_nat k, m)" "session (Suc k) xs"
    using Cons.prems(1) by (auto simp: x simp del: carries.simps)
  have un: "unat (of_nat k :: u64) = k" using Cons.prems(4) by (intro unat_of_nat_small) simp
  have "unat (- 1 :: u64) = 2 ^ 64 - 1" by (simp add: unsigned_minus_1_eq_mask mask_eq_exp_minus_1)
  then have max: "(of_nat k :: u64) \<noteq> - 1" using un Cons.prems(4) by auto
  have "(of_nat k :: u64) \<noteq> 0" using un Cons.prems(3) by auto
  from datagram_report [OF Cons.prems(5) s(3) this max Cons.prems(6)]
  obtain r snap h1 where h1: "on_datagram None h out = Some (r, gap_before (due h 100) (of_nat k), snap, h1)"
      "watching h1" "due h1 100 = Some (of_nat (Suc k))" by (auto simp: add.commute)
  show ?case
  proof (cases "xs = []")
    case True
    then show ?thesis using h1 by (simp add: x)
  next
    case False
    have "\<exists>h'. run_datagrams h1 (map fst xs) = Some (gap_before (due h1 100) (of_nat (Suc k)), h') \<and> watching h' \<and>
        due h' 100 = Some (of_nat (Suc k + length xs))"
      using Cons.prems(4) h1(2,3) by (intro Cons.IH [OF s(4) False]) auto
    moreover have "gap_before (due h1 100) (of_nat (Suc k)) = []" by (simp add: gap_before_def h1(3) del: of_nat_Suc)
    ultimately show ?thesis using h1(1) by (auto simp: x)
  qed
qed simp

section \<open>The two captures\<close>

text \<open>What \<^verbatim>\<open>write_pcap\<close> puts into the file.\<close>

definition in_gap :: "bool \<Rightarrow> SequenceNumber \<Rightarrow> bool" where
  "in_gap drop_gap seq \<longleftrightarrow> drop_gap \<and> seq \<ge> kGapLo \<and> seq \<le> kGapHi"

fun stamped :: "bool \<Rightarrow> Datagram list \<Rightarrow> u64 \<Rightarrow> datagrams" where
  "stamped dg [] t = []"
| "stamped dg ((bytes, seq) # ds) t =
     (if in_gap dg seq then [] else [(bytes, t, kDstPort)]) @ stamped dg ds (t + 100)"

lemma stamped_payloads: "map fst (stamped dg ds t) = map fst (filter (\<lambda>d. \<not> in_gap dg (snd d)) ds)"
  by (induction dg ds t rule: stamped.induct) auto

lemma stamped_member: "d \<in> set (stamped dg ds t) \<Longrightarrow> fst d \<in> fst ` set ds"
  by (induction dg ds t rule: stamped.induct) (auto split: if_splits)

lemma write_loop_content:
  assumes "fwrite_ok fwr content"
  shows "write_loop fwr dg ds t n (Some f) = (True, n', w) \<Longrightarrow>
    \<exists>f'. w = Some f' \<and> content f' = content f @ packets_bytes (stamped dg ds t)"
proof (induction ds arbitrary: f t n)
  case (Cons d ds)
  obtain bytes seq where d: "d = (bytes, seq)" by (cases d)
  show ?case
  proof (cases "in_gap dg seq")
    case True
    then show ?thesis using Cons.IH [of "t + 100" n f] Cons.prems by (simp add: d in_gap_def)
  next
    case False
    then obtain w1 where w1: "write_datagram fwr bytes t kDstPort (Some f) = (True, w1)"
        "write_loop fwr dg ds (t + 100) (n + 1) w1 = (True, n', w)"
      using Cons.prems by (cases "write_datagram fwr bytes t kDstPort (Some f)")
        (auto simp: d in_gap_def split: if_splits)
    obtain f1 where "w1 = Some f1" "content f1 = content f @ packet_bytes t (build_frame bytes kDstPort)"
      using write_datagram_content [OF assms w1(1)] by blast
    then show ?thesis using Cons.IH [of "t + 100" "n + 1" f1] w1(2) False by (auto simp: d)
  qed
qed auto

lemma write_pcap_content:
  assumes fwr: "fwrite_ok fwr content" and new: "content f0 = []"
    and w: "write_pcap fwr (Some f0) ds dg = (True, Some f)"
  shows "content f = savefile_header @ packets_bytes (stamped dg ds 1700000000000000)"
proof -
  obtain w0 where w0: "writer_open fwr (Some f0) = (True, w0)"
    using w by (cases "writer_open fwr (Some f0)") (auto simp: write_pcap_def split: if_splits)
  obtain n' w1 where w1: "write_loop fwr dg ds 1700000000000000 0 w0 = (True, n', w1)" "w1 = Some f"
    using w w0 by (cases "write_loop fwr dg ds 1700000000000000 0 w0")
      (auto simp: write_pcap_def writer_close_def)
  obtain f1 where "w0 = Some f1" "content f1 = savefile_header"
    using writer_open_content [OF fwr w0] new by auto
  then show ?thesis using write_loop_content [OF fwr, of dg ds _ _ f1] w1 by auto
qed

lemma stamped_ok:
  "(\<forall>d \<in> set ds. length (fst d) \<le> 65493) \<Longrightarrow> unat t + 100 * length ds < 2 ^ 31 * 1000000 \<Longrightarrow> capture_ok (stamped dg ds t)"
proof (induction dg ds t rule: stamped.induct)
  case (2 dg bytes seq ds t)
  then have "unat (t + 100) = unat t + 100" by (simp add: unat_word_ariths)
  then show ?case using 2 by (auto simp: capture_time_ok_def)
qed simp

lemma records_payloads: "(\<forall>d \<in> set ds. fst d \<noteq> []) \<Longrightarrow> map payload (as_records ds) = map fst ds"
  by (induction ds) auto

text \<open>The sequence numbers of a session.\<close>

lemma session_append: "session k (xs @ ys) \<longleftrightarrow> session k xs \<and> session (k + length xs) ys"
  by (induction k xs rule: session.induct) (auto simp del: carries.simps)

lemma session_member:
  "session k xs \<Longrightarrow> x \<in> set xs \<Longrightarrow>
   \<exists>i. k \<le> i \<and> i < k + length xs \<and> fst (snd (snd x)) = of_nat i \<and> fst x \<noteq> [] \<and> length (fst x) \<le> 65493"
proof (induction k xs rule: session.induct)
  case (2 k out loc seq m xs)
  show ?case
  proof (cases "x = (out, loc, seq, m)")
    case True
    then show ?thesis using "2.prems" by (intro exI [of _ k]) auto
  next
    case False
    then obtain i where "Suc k \<le> i" "i < Suc k + length xs" "fst (snd (snd x)) = of_nat i" "fst x \<noteq> []"
        "length (fst x) \<le> 65493"
      using 2 by auto
    then show ?thesis by (intro exI [of _ i]) simp
  qed
qed simp

lemma in_gap_of_nat: "i < 2 ^ 64 \<Longrightarrow> in_gap dg (of_nat i) \<longleftrightarrow> dg \<and> 500 \<le> i \<and> i \<le> 510"
  by (simp add: in_gap_def kGapLo_def kGapHi_def word_le_nat_alt unat_of_nat_small)

lemma session_kept:
  assumes s: "session 1 xs" and len: "length xs = 1000"
  shows "filter (\<lambda>x. \<not> in_gap dg (fst (snd (snd x)))) xs = (if dg then take 499 xs @ drop 510 xs else xs)"
proof -
  let ?P = "\<lambda>x :: byte list \<times> delivery. \<not> in_gap dg (fst (snd (snd x)))"
  let ?A = "take 499 xs" and ?B = "take 11 (drop 499 xs)" and ?C = "drop 510 xs"
  have C: "?C = drop 11 (drop 499 xs)" by simp
  have xs: "xs = ?A @ ?B @ ?C" unfolding C append_take_drop_id by simp
  then have "session 1 ?A \<and> session 500 ?B \<and> session 511 ?C"
    using s len session_append [of 1 ?A "?B @ ?C"] session_append [of 500 ?B ?C] by simp
  then have A: "session 1 ?A" and B: "session 500 ?B" and C: "session 511 ?C" by blast+
  have "filter ?P ?A = ?A"
    using session_member [OF A] len by (intro filter_True) (fastforce simp: in_gap_of_nat)
  moreover have "filter ?P ?C = ?C"
    using session_member [OF C] len by (intro filter_True) (fastforce simp: in_gap_of_nat)
  moreover have "filter ?P ?B = (if dg then [] else ?B)"
    using session_member [OF B] len by (fastforce simp: in_gap_of_nat filter_empty_conv intro: filter_True)
  ultimately have "filter ?P (?A @ ?B @ ?C) = (if dg then ?A @ ?C else ?A @ ?B @ ?C)" by simp
  then show ?thesis unfolding xs [symmetric] .
qed

section \<open>Properties\<close>

text \<open>The replay program runs on any capture that can be read: the packets it passes to the feed handler
  are, in order, those not inside the leading window, cut to the limit, it counts them exactly,
  and the gaps it prints are all the handler reported for them.\<close>

theorem replay_selects:
  assumes "reader_open datalink opened new_reader = (True, r)" and "read_all nx r = Some (xs, r1)"
    and "length xs < 2 ^ 64"
  shows "\<exists>s. pcap_replay_main nx datalink pace early stop skip opened = Some (0, Some s) \<and>
    run_datagrams (replay_handler skip) (map payload (selected early stop xs)) = Some (rp_gaps s, rp_handler s) \<and>
    replayed s = of_nat (length (selected early stop xs))"
  using assms by (rule replay_runs)

lemma directory_report:
  assumes w: "watching h" and c: "carries data (loc, 0, m)"
  shows "\<exists>r snap h'. on_datagram None h data = Some (r, [], snap, h') \<and> watching h' \<and> due h' = due h"
proof -
  let ?h = "counted h data"
  have len: "12 \<le> length data" and hdr: "hdr_u16 data 0 = Some loc" "hdr_u64 data 2 = Some 0"
    using c hdr_in_bounds [of data] by simp_all
  have "db_wf (fh_book ?h)" using w by (simp add: watching_def)
  then obtain r snap h2 where p: "apply_payload ?h (drop 10 data) = Some (r, snap, h2)" "db_wf (fh_book h2)"
    using apply_payload_wf by blast
  have "on_datagram None h data = Some (r, [], snap, h2)"
    using on_datagram_eq [OF len hdr, of None h None "[]" ?h] p(1) by simp
  then show ?thesis using w p(2) apply_payload_frame [OF p(1)] by (auto simp: watching_def)
qed

lemma replay_handler_start:
  "watching (replay_handler True)" "due (replay_handler True) 100 = None"
  "handler_good 10 True (replay_handler True)" "handler_view (replay_handler True) = (Map.empty, Map.empty)"
  by (simp_all add: watching_def replay_handler_def set_skip_gaps_def new_feed_handler_def db_wf_new
      new_gap_detector_def handler_good_def handler_view_def db_inv_new)

text \<open>What the handler reports for a generated session, with and without the gap.\<close>

lemma generated_reports:
  assumes dir: "carries dir (100, 0, m)" and s: "session 1 xs" and len: "length xs = 1000"
  shows "\<exists>h. run_datagrams (replay_handler True) (dir # map fst (if dg then take 499 xs @ drop 510 xs else xs)) =
    Some (if dg then [(100, 500, 510)] else [], h)"
proof -
  let ?A = "take 499 xs" and ?C = "drop 510 xs"
  obtain r snap h0 where h0: "on_datagram None (replay_handler True) dir = Some (r, [], snap, h0)" "watching h0"
      "due h0 100 = None"
    using directory_report [OF replay_handler_start(1) dir] replay_handler_start(2) by auto
  show ?thesis
  proof (cases dg)
    case False
    have "xs \<noteq> []" using len by auto
    then have "\<exists>h. run_datagrams h0 (map fst xs) = Some (gap_before (due h0 100) (of_nat 1), h) \<and> watching h \<and>
        due h 100 = Some (of_nat (1 + length xs))"
      using len h0 by (intro session_reports [OF s]) auto
    then show ?thesis using False h0 by (auto simp: gap_before_def)
  next
    case True
    have AC: "session 1 ?A" "session 511 ?C"
      using s len session_append [of 1 ?A "drop 499 xs"] session_append [of 1 "take 510 xs" ?C] by simp_all
    have ne: "?A \<noteq> []" "?C \<noteq> []" using len by auto
    have "\<exists>h. run_datagrams h0 (map fst ?A) = Some (gap_before (due h0 100) (of_nat 1), h) \<and> watching h \<and>
        due h 100 = Some (of_nat (1 + length ?A))"
      using len h0 by (intro session_reports [OF AC(1) ne(1)]) auto
    then obtain h1 where h1: "run_datagrams h0 (map fst ?A) = Some ([], h1)" "watching h1" "due h1 100 = Some 500"
      using len h0(3) by (auto simp: gap_before_def)
    have "\<exists>h. run_datagrams h1 (map fst ?C) = Some (gap_before (due h1 100) (of_nat 511), h) \<and> watching h \<and>
        due h 100 = Some (of_nat (511 + length ?C))"
      using len h1 by (intro session_reports [OF AC(2) ne(2)]) auto
    then show ?thesis using True h0 h1 by (auto simp: gap_before_def run_datagrams_append)
  qed
qed

text \<open>Without the gap the books end as the generator's own orders.\<close>

lemma generated_books:
  assumes dir: "carries dir (100, 0, MStockDirectory m)" and ok: "deliveries_ok True (Map.empty, Map.empty) xs"
    and g: "in_step 1000 g (run_deliveries True (Map.empty, Map.empty) xs)"
    and run: "run_datagrams (replay_handler True) (dir # map fst xs) = Some (rs, h)"
  shows "strip (global (fh_book h)) = live_view g"
proof -
  let ?xs = "(dir, 100, 0, MStockDirectory m) # xs"
  have "market_fits Map.empty" by (rule market_fits_empty)
  then have "deliveries_ok True (Map.empty, Map.empty) ?xs"
    using ok dir by (simp add: delivery_ok_def del: carries.simps)
  then obtain h' where h': "run_steps deliver_step (replay_handler True) ?xs = Some h'"
      "handler_view h' = run_deliveries True (Map.empty, Map.empty) xs"
    using fh.run_sim [OF replay_handler_start(3), of ?xs] replay_handler_start(4) by auto
  have "run_steps deliver_step k ys = run_steps handler_step k (map (\<lambda>d. (None, d)) (map fst ys))" for k ys
    by (induction ys arbitrary: k) (simp_all add: deliver_step_def split: option.split)
  then have "run_steps handler_step (replay_handler True) (map (\<lambda>d. (None, d)) (dir # map fst xs)) = Some h'"
    using h'(1) by (metis fst_conv list.simps(9))
  then have "h' = h" using run_datagrams_steps [of "replay_handler True" "dir # map fst xs"] run by simp
  then show ?thesis using h'(2) g by (simp add: in_step_def handler_view_def flip: h'(2))
qed

text \<open>The two captures, from the draws to the state that is printed.\<close>

lemma capture_pair:
  assumes u: "uniform_ok u" and fwr: "fwrite_ok fwr content"
    and libpcap: "savefile_ok nx rest" "open_ok opener datalink rest" and new: "content f0 = []"
  shows "\<exists>ds g. generate u r = Some (ds, g) \<and> length ds = 1001 \<and>
    (\<forall>f dg. write_pcap fwr (Some f0) ds dg = (True, Some f) \<longrightarrow>
      (\<exists>s. pcap_replay_main nx datalink pace (\<lambda>t. False) 0 True (opener (content f)) = Some (0, Some s) \<and>
         rp_gaps s = (if dg then [(100, 500, 510)] else []) \<and> replayed s = (if dg then 990 else 1001) \<and>
         (\<not> dg \<longrightarrow> strip (global (fh_book (rp_handler s))) = live_view g)))"
proof -
  obtain dir m xs g where gen: "generate u r = Some ((dir, 0) # map numbered_datagram xs, g)"
    and dir: "carries dir (100, 0, MStockDirectory m)" "length dir = 51"
    and xs: "length xs = 1000" "session 1 xs" "deliveries_ok True (Map.empty, Map.empty) xs"
      "in_step 1000 g (run_deliveries True (Map.empty, Map.empty) xs)"
    using generate_run [OF u, of r True] by blast
  let ?ds = "(dir, 0) # map numbered_datagram xs"
  have each: "length (fst d) \<le> 65493 \<and> fst d \<noteq> []" if "d \<in> set ?ds" for d
    using that dir(2) session_member [OF xs(2)] by (fastforce simp: numbered_datagram_def)
  have "\<exists>s. pcap_replay_main nx datalink pace (\<lambda>t. False) 0 True (opener (content f)) = Some (0, Some s) \<and>
      rp_gaps s = (if dg then [(100, 500, 510)] else []) \<and> replayed s = (if dg then 990 else 1001) \<and>
      (\<not> dg \<longrightarrow> strip (global (fh_book (rp_handler s))) = live_view g)"
    if w: "write_pcap fwr (Some f0) ?ds dg = (True, Some f)" for f dg
  proof -
    let ?st = "stamped dg ?ds 1700000000000000" and ?ys = "if dg then take 499 xs @ drop 510 xs else xs"
    have pay: "map fst ?st = dir # map fst ?ys"
      using session_kept [OF xs(2,1), of dg]
      by (simp add: stamped_payloads in_gap_def kGapLo_def filter_map comp_def numbered_datagram_def)
    have "\<forall>d \<in> set ?st. fst d \<noteq> []"
    proof
      fix d assume "d \<in> set ?st"
      then have "fst d \<in> fst ` set ?ds" by (rule stamped_member)
      then show "fst d \<noteq> []" using each by (elim imageE) simp
    qed
    from records_payloads [OF this] have recs: "map payload (as_records ?st) = dir # map fst ?ys"
      by (rule trans) (rule pay)
    have n: "length (as_records ?st) = (if dg then 990 else 1001)"
      using arg_cong [OF recs, of length] xs(1) by simp
    then have small: "length (as_records ?st) < 2 ^ 64" by simp
    have ok: "capture_ok ?st" using each xs(1) by (intro stamped_ok) auto
    obtain ra p where ra: "reader_open datalink (opener (content f)) new_reader = (True, ra)"
        "rd_handle ra = Some p" "rest p = packets_bytes ?st"
      using reader_open_written [OF libpcap(2), of "packets_bytes ?st"] write_pcap_content [OF fwr new w] by auto
    obtain rb where rb: "read_all nx ra = Some (as_records ?st, rb)"
      using read_all_packets [OF libpcap(1) ok ra(2,3)] by blast
    have sel: "selected (\<lambda>t. False) 0 ys = ys" for ys by (simp add: selected_def limited_def on_time_def)
    obtain h where h: "run_datagrams (replay_handler True) (dir # map fst ?ys) =
        Some (if dg then [(100, 500, 510)] else [], h)"
      using generated_reports [OF dir(1) xs(2,1), of dg] by blast
    from replay_runs [OF ra(1) rb small, of pace "\<lambda>t. False" 0 True]
    obtain s where s: "pcap_replay_main nx datalink pace (\<lambda>t. False) 0 True (opener (content f)) = Some (0, Some s)"
        "run_datagrams (replay_handler True) (dir # map fst ?ys) = Some (rp_gaps s, rp_handler s)"
        "replayed s = of_nat (length (as_records ?st))"
      unfolding sel recs by (elim exE conjE)
    have gaps: "rp_gaps s = (if dg then [(100, 500, 510)] else [])" using s(2) unfolding h by simp
    have count: "replayed s = (if dg then 990 else 1001)" unfolding s(3) n by simp
    have books: "strip (global (fh_book (rp_handler s))) = live_view g" if "\<not> dg"
      using generated_books [OF dir(1) xs(3,4)] s(2) unfolding if_not_P [OF that] by blast
    show ?thesis using s(1) gaps count books by blast
  qed
  then show ?thesis using gen xs(1) by auto
qed

text \<open>C12: the two captures of the generator, from the random draws to the printed report: whatever the draws,
  \<^verbatim>\<open>generate\<close> succeeds, and replaying either file with gap skipping ends; the complete capture
  reports no gap and leaves the books with exactly the generator's live orders, and the other one
  reports exactly the numbers 500 to 510 of locate 100.\<close>

theorem captures_replayed:
  assumes u: "uniform_ok u" and fwr: "fwrite_ok fwr content"
    and libpcap: "savefile_ok nx rest" "open_ok opener datalink rest" and new: "content f0 = []"
  shows "\<exists>ds g. generate u r = Some (ds, g) \<and> length ds = 1001 \<and>
    (\<forall>f dg. write_pcap fwr (Some f0) ds dg = (True, Some f) \<longrightarrow>
      (\<exists>s. pcap_replay_main nx datalink pace (\<lambda>t. False) 0 True (opener (content f)) = Some (0, Some s) \<and>
         rp_gaps s = (if dg then [(100, 500, 510)] else []) \<and> replayed s = (if dg then 990 else 1001) \<and>
         (\<not> dg \<longrightarrow> strip (global (fh_book (rp_handler s))) = live_view g)))"
  using assms by (rule capture_pair)

text \<open>Both properties on the file in memory.\<close>

lemma mem_write_pcap: "\<exists>f. write_pcap mem_fwrite (Some []) ds dg = (True, Some f)"
proof -
  have "\<exists>n' f. write_loop mem_fwrite dg ds t n (Some f0) = (True, n', Some f)" for t n f0
    by (induction ds arbitrary: t n f0) (auto simp: write_datagram_def mem_fwrite_def Let_def)
  then obtain n' f where "write_loop mem_fwrite dg ds 1700000000000000 0 (Some global_header) = (True, n', Some f)"
    by blast
  then show ?thesis
    by (simp add: write_pcap_def writer_open_def mem_fwrite_def writer_close_def)
qed

theorem captures_replayed_witness:
  "\<exists>ds g f s. generate sample_uniform 5 = Some (ds, g) \<and> write_pcap mem_fwrite (Some []) ds True = (True, Some f) \<and>
     pcap_replay_main mem_next (\<lambda>p. DLT_EN10MB) None (\<lambda>t. False) 0 True (mem_open f) = Some (0, Some s) \<and>
     rp_gaps s = [(100, 500, 510)]"
proof -
  obtain ds g where ds: "generate sample_uniform 5 = Some (ds, g)"
    and all: "\<forall>f dg. write_pcap mem_fwrite (Some []) ds dg = (True, Some f) \<longrightarrow>
      (\<exists>s. pcap_replay_main mem_next (\<lambda>p. DLT_EN10MB) None (\<lambda>t. False) 0 True (mem_open f) = Some (0, Some s) \<and>
         rp_gaps s = (if dg then [(100, 500, 510)] else []) \<and> replayed s = (if dg then 990 else 1001) \<and>
         (\<not> dg \<longrightarrow> strip (global (fh_book (rp_handler s))) = live_view g))"
    using captures_replayed [OF sample_uniform_ok mem_contracts, of "[]" 5 None] unfolding id_apply by blast
  obtain f where f: "write_pcap mem_fwrite (Some []) ds True = (True, Some f)" using mem_write_pcap by blast
  then obtain s where
    "pcap_replay_main mem_next (\<lambda>p. DLT_EN10MB) None (\<lambda>t. False) 0 True (mem_open f) = Some (0, Some s)"
    "rp_gaps s = [(100, 500, 510)]" using all [rule_format, OF f] by auto
  then show ?thesis using ds f by blast
qed

theorem replay_selects_witness:
  "\<exists>s. pcap_replay_main mem_next (\<lambda>p. DLT_EN10MB) None (\<lambda>t. t < 1) 1 False (mem_open savefile_header) = Some (0, Some s) \<and>
     replayed s = 0"
proof -
  obtain r p where r: "reader_open (\<lambda>p. DLT_EN10MB) (mem_open (savefile_header @ [])) new_reader = (True, r)"
      "rd_handle r = Some p" "id p = packets_bytes []"
    using reader_open_written [OF mem_contracts(3), of "[]"] by auto
  obtain r1 where "read_all mem_next r = Some (as_records [], r1)"
    using read_all_packets [OF mem_contracts(2) _ r(2,3)] by auto
  from replay_selects [OF r(1) this, of None "\<lambda>t. t < 1" 1 False] show ?thesis
    by (auto simp: selected_def limited_def on_time_def)
qed

end
