(* ===== verification/Replay_Command.thy ===== *)
theory Replay_Command
  imports Capture_Replay Program_Text
begin

text \<open>
  The command lines and the output of \<^verbatim>\<open>src/pcap_gen.cpp\<close> and \<^verbatim>\<open>src/pcap_replay.cpp\<close> around the parts
  modelled in \<^verbatim>\<open>Pcap_Tools\<close>. Floating point is a parameter: the numbers \<^verbatim>\<open>strtod\<close> reads, the tests
  and quotients the program makes of them, and their text under \<^verbatim>\<open>%.3f\<close>; so are the files a path
  names.
\<close>

section \<open>pcap_gen\<close>

definition pcap_gen_program :: "'f fwrite \<Rightarrow> 'r uniform \<Rightarrow> 'r \<Rightarrow> (string \<Rightarrow> 'f option) \<Rightarrow> string list \<Rightarrow>
    (int \<times> (string \<times> 'f option) list) option" where
  "pcap_gen_program fwr u r fopen args =
     (case args of
        [dir] \<Rightarrow>
          let p1 = dir @ ''/itch_synthetic.pcap''; p2 = dir @ ''/itch_gap.pcap'' in do {
          (code, f1, f2) \<leftarrow> pcap_gen_main fwr u r (fopen p1) (fopen p2);
          Some (code, [(p1, f1), (p2, f2)]) }
      | _ \<Rightarrow> Some (2, []))"

section \<open>pcap_replay\<close>

record 'd floats =
  f_strtod :: "string \<Rightarrow> 'd"
  f_one :: 'd
  f_zero :: 'd
  f_positive :: "'d \<Rightarrow> bool"
  f_early :: "'d \<Rightarrow> u64 \<Rightarrow> bool"
  f_sleep :: "'d \<Rightarrow> u64 \<Rightarrow> int option"
  f_text :: "'d \<Rightarrow> string"

record 'd replay_config =
  rc_pcap :: string
  rc_speedup :: 'd
  rc_offset :: 'd
  rc_stop :: u64
  rc_skip :: bool

definition default_replay :: "'d floats \<Rightarrow> 'd replay_config" where
  "default_replay fl =
     \<lparr>rc_pcap = [], rc_speedup = f_one fl, rc_offset = f_zero fl, rc_stop = 0, rc_skip = False\<rparr>"

text \<open>The configuration, or the argument that is not known.\<close>

fun parse_replay :: "'d floats \<Rightarrow> string list \<Rightarrow> 'd replay_config \<Rightarrow> (string + 'd replay_config) option" where
  "parse_replay fl [] c = Some (Inr c)"
| "parse_replay fl [a] c = (if a = ''--skip-gaps'' then Some (Inr (c\<lparr>rc_skip := True\<rparr>)) else Some (Inl a))"
| "parse_replay fl (a # v # as) c =
     (if a = ''--pcap'' then parse_replay fl as (c\<lparr>rc_pcap := v\<rparr>)
      else if a = ''--speedup'' then parse_replay fl as (c\<lparr>rc_speedup := f_strtod fl v\<rparr>)
      else if a = ''--start-offset'' then parse_replay fl as (c\<lparr>rc_offset := f_strtod fl v\<rparr>)
      else if a = ''--stop-after'' then do { n \<leftarrow> atoll v; parse_replay fl as (c\<lparr>rc_stop := of_int n\<rparr>) }
      else if a = ''--skip-gaps'' then parse_replay fl (v # as) (c\<lparr>rc_skip := True\<rparr>)
      else Some (Inl a))"

definition gap_text :: "bool \<Rightarrow> gap_report \<Rightarrow> string" where
  "gap_text start g =
     (case g of (loc, lo, hi) \<Rightarrow>
        (if start then [] else '','') @ newline @ ''    {\"stock_locate\": '' @ print_nat (unat loc) @
        '', \"first_missing\": '' @ print_u64 lo @ '', \"last_missing\": '' @ print_u64 hi @ ''}'')"

definition gaps_text :: "gap_report list \<Rightarrow> string" where
  "gaps_text gs = concat (map (\<lambda>i. gap_text (i = 0) (gs ! i)) [0..<length gs])"

definition field :: "string \<Rightarrow> string \<Rightarrow> string" where
  "field name val = ''  \"'' @ name @ ''\": '' @ val @ '','' @ newline"

definition replay_report :: "'d floats \<Rightarrow> 'd replay_config \<Rightarrow> u64 \<Rightarrow> Replay \<Rightarrow> string" where
  "replay_report fl c wall_ns s =
     (let st = stats (rp_handler s) in
      ''{'' @ newline @
      field ''pcap'' (''\"'' @ rc_pcap c @ ''\"'') @
      field ''speedup'' (f_text fl (rc_speedup c)) @
      field ''start_offset_sec'' (f_text fl (rc_offset c)) @
      field ''skip_gaps'' (if rc_skip c then ''true'' else ''false'') @
      field ''replayed'' (print_u64 (replayed s)) @
      field ''skipped'' (print_u64 (skipped s)) @
      field ''wall_ns'' (print_u64 wall_ns) @
      field ''datagrams_in'' (print_u64 (datagrams_in st)) @
      field ''messages_applied'' (print_u64 (messages_applied st)) @
      field ''parse_errors'' (print_u64 (parse_errors st)) @
      field ''gaps_detected'' (print_u64 (gaps_detected st)) @
      field ''stale_msgs'' (print_u64 (stale_msgs st)) @
      field ''symbols'' (print_nat (symbol_count (fh_book (rp_handler s)))) @
      ''  \"gap_ranges\": ['' @ gaps_text (rp_gaps s) @
      (if rp_gaps s = [] then [] else newline @ ''  '') @ '']'' @ newline @ ''}'' @ newline)"

text \<open>The exit status and the standard output.\<close>

definition pcap_replay_program :: "'d floats \<Rightarrow> 'p next_ex \<Rightarrow> ('p \<Rightarrow> int) \<Rightarrow> (string \<Rightarrow> 'p option) \<Rightarrow> u64 \<Rightarrow>
    string list \<Rightarrow> (int \<times> string) option" where
  "pcap_replay_program fl nx datalink open_offline wall_ns args = do {
     r \<leftarrow> parse_replay fl args (default_replay fl);
     (case r of
        Inl a \<Rightarrow> Some (2, [])
      | Inr c \<Rightarrow>
          if rc_pcap c = [] then Some (2, [])
          else do {
            (code, st) \<leftarrow> pcap_replay_main nx datalink
              (if f_positive fl (rc_speedup c) then Some (f_sleep fl (rc_speedup c)) else None)
              (f_early fl (rc_offset c)) (rc_stop c) (rc_skip c) (open_offline (rc_pcap c));
            Some (case st of None \<Rightarrow> (code, []) | Some s \<Rightarrow> (code, replay_report fl c wall_ns s)) }) }"

section \<open>A capture that was written is there\<close>

lemma write_loop_file: "write_loop fwr dg ds t n w = (True, n', w') \<Longrightarrow> w \<noteq> None \<Longrightarrow> w' \<noteq> None"
proof (induction ds arbitrary: t n w)
  case (Cons d ds)
  obtain bytes seq where d: "d = (bytes, seq)" by force
  obtain ok w1 where w1: "write_datagram fwr bytes t kDstPort w = (ok, w1)" by force
  have "ok \<Longrightarrow> w1 \<noteq> None"
    using w1 by (auto simp: write_datagram_def Let_def split: option.splits prod.splits if_splits)
  then show ?case using Cons w1 by (auto simp: d split: if_splits)
qed simp

lemma write_pcap_file: "write_pcap fwr f ds dg = (True, f2) \<Longrightarrow> \<exists>g. f2 = Some g"
proof -
  assume w: "write_pcap fwr f ds dg = (True, f2)"
  obtain ok w1 where 1: "writer_open fwr f = (ok, w1)" by force
  then have ok: ok using w by (cases ok) (auto simp: write_pcap_def)
  then have "w1 \<noteq> None"
    using 1 by (auto simp: writer_open_def Let_def split: option.splits prod.splits if_splits)
  moreover obtain ok2 n w2 where 2: "write_loop fwr dg ds (1700000000 * 1000000) 0 w1 = (ok2, n, w2)" by (metis prod_cases3)
  moreover have "ok2" "f2 = w2" using w 1 2 ok by (auto simp: write_pcap_def Let_def writer_close_def)
  ultimately have "w2 \<noteq> None" using write_loop_file [of fwr dg ds "1700000000 * 1000000" 0 w1 n w2] by simp
  then show ?thesis using \<open>f2 = w2\<close> by auto
qed

lemma pcap_gen_files:
  assumes "pcap_gen_main fwr u r a b = Some (0, f1, f2)" "generate u r = Some (ds, g)"
  shows "write_pcap fwr b ds True = (True, f2)"
  using assms by (auto simp: pcap_gen_main_def Let_def split: prod.splits if_splits)

lemma printed:
  "print_nat 100 = ''100''" "print_u64 500 = ''500''" "print_u64 510 = ''510''"
  by code_simp+

section \<open>Properties\<close>

text \<open>C28: the capture programs end to end: whatever the draws, if \<^verbatim>\<open>pcap_gen\<close> with one argument exits with
  status 0, then \<^verbatim>\<open>pcap_replay\<close> on the capture with the gap, told to skip gaps, exits with status 0
  and its report ends with the one range the generator left out: numbers 500 to 510 of locate 100.\<close>

theorem capture_programs_report_gap:
  assumes u: "uniform_ok u" and fwr: "fwrite_ok fwr content"
    and libpcap: "savefile_ok nx rest" "open_ok opener datalink rest"
    and new: "content f0 = []" "fopen (dir @ ''/itch_gap.pcap'') = Some f0"
    and gen: "pcap_gen_program fwr u r fopen [dir] = Some (0, files)"
    and written: "\<And>f. (dir @ ''/itch_gap.pcap'', Some f) \<in> set files \<Longrightarrow>
      open_offline (dir @ ''/itch_gap.pcap'') = opener (content f)"
    and zero: "f_early fl (f_zero fl) = (\<lambda>t. False)"
  shows "\<exists>text. pcap_replay_program fl nx datalink open_offline wall_ns
      [''--pcap'', dir @ ''/itch_gap.pcap'', ''--skip-gaps''] =
    Some (0, text @ ''  \"gap_ranges\": ['' @ newline @
      ''    {\"stock_locate\": 100, \"first_missing\": 500, \"last_missing\": 510}'' @ newline @ ''  ]'' @ newline @ ''}'' @ newline)"
proof -
  let ?p1 = "dir @ ''/itch_synthetic.pcap''" and ?p2 = "dir @ ''/itch_gap.pcap''"
  obtain f1 f2 where m: "pcap_gen_main fwr u r (fopen ?p1) (fopen ?p2) = Some (0, f1, f2)" "files = [(?p1, f1), (?p2, f2)]"
    using gen by (cases "pcap_gen_main fwr u r (fopen ?p1) (fopen ?p2)") (auto simp: pcap_gen_program_def Let_def)
  obtain ds g where ds: "generate u r = Some (ds, g)"
    using capture_pair [OF u fwr libpcap new(1), of r] by blast
  obtain f where f: "f2 = Some f" "write_pcap fwr (Some f0) ds True = (True, Some f)"
    using pcap_gen_files [OF m(1) ds] write_pcap_file new(2) by metis
  have all: "\<exists>s. pcap_replay_main nx datalink pace (\<lambda>t. False) 0 True (opener (content f)) = Some (0, Some s) \<and>
      rp_gaps s = [(100, 500, 510)]" for pace
    using capture_pair [OF u fwr libpcap new(1), of r pace] ds f(2) by fastforce
  let ?c = "(default_replay fl)\<lparr>rc_pcap := ?p2, rc_skip := True\<rparr>"
  obtain s where s: "pcap_replay_main nx datalink
      (if f_positive fl (f_one fl) then Some (f_sleep fl (f_one fl)) else None)
      (\<lambda>t. False) 0 True (opener (content f)) = Some (0, Some s)" "rp_gaps s = [(100, 500, 510)]"
    using all by blast
  have op: "open_offline ?p2 = opener (content f)" using written m(2) f(1) by simp
  have "pcap_replay_program fl nx datalink open_offline wall_ns [''--pcap'', ?p2, ''--skip-gaps''] =
      Some (0, replay_report fl ?c wall_ns s)"
    using s op zero
    by (cases "f_positive fl (f_one fl)") (simp_all add: pcap_replay_program_def default_replay_def)
  then show ?thesis
    using s(2) by (simp add: replay_report_def Let_def gaps_text_def gap_text_def printed)
qed

definition sample_floats :: "nat floats" where
  "sample_floats = \<lparr>f_strtod = length, f_one = 1, f_zero = 0, f_positive = (\<lambda>d. 0 < d), f_early = (\<lambda>d t. unat t < d),
     f_sleep = (\<lambda>d t. None), f_text = print_nat\<rparr>"

theorem capture_programs_report_gap_witness:
  "\<exists>f text. pcap_replay_program sample_floats mem_next (\<lambda>p. DLT_EN10MB) (\<lambda>path. mem_open f) 77
      [''--pcap'', ''out/itch_gap.pcap'', ''--skip-gaps''] =
    Some (0, text @ ''  \"gap_ranges\": ['' @ newline @
      ''    {\"stock_locate\": 100, \"first_missing\": 500, \"last_missing\": 510}'' @ newline @ ''  ]'' @ newline @ ''}'' @ newline)"
proof -
  obtain ds g where ds: "generate sample_uniform 5 = Some (ds, g)"
    using capture_pair [OF sample_uniform_ok mem_contracts, of "[]" 5 None] by auto
  obtain f1 f2 where w: "write_pcap mem_fwrite (Some []) ds False = (True, Some f1)"
      "write_pcap mem_fwrite (Some []) ds True = (True, Some f2)"
    using mem_write_pcap by blast
  have gen: "pcap_gen_program mem_fwrite sample_uniform 5 (\<lambda>p. Some []) [''out''] =
      Some (0, [(''out/itch_synthetic.pcap'', Some f1), (''out/itch_gap.pcap'', Some f2)])"
    using ds w by (simp add: pcap_gen_program_def pcap_gen_main_def)
  have zero: "f_early sample_floats (f_zero sample_floats) = (\<lambda>t. False)" by (simp add: sample_floats_def)
  show ?thesis
    using capture_programs_report_gap [OF sample_uniform_ok mem_contracts _ _ gen _ zero,
        of "[]" "\<lambda>path. mem_open f2" 77]
    by (simp add: exI [of _ f2])
qed

end
