(* ===== verification/Feed_Counters.thy ===== *)
theory Feed_Counters
  imports Publisher_Correct
begin

text \<open>
  The statistics of the feed handler (\<^verbatim>\<open>FeedHandlerStats\<close>, \<^verbatim>\<open>tally_type\<close> of
  \<^verbatim>\<open>src/core/feed_handler.cpp\<close>): over datagrams in sequence the counters are those of the messages
  that found their order.
\<close>

section \<open>One datagram in sequence\<close>

definition count_message :: "FeedHandlerStats \<Rightarrow> market \<Rightarrow> nat \<Rightarrow> AnyMessage \<Rightarrow> FeedHandlerStats" where
  "count_message s g n m =
     (let s = s\<lparr>bytes_in := bytes_in s + of_nat n, datagrams_in := datagrams_in s + 1\<rparr> in
      if msg_target g m = None then s
      else s\<lparr>messages_applied := messages_applied s + 1, by_type := tally_type (by_type s) m\<rparr>)"

definition is_due :: "feed_view \<Rightarrow> delivery \<Rightarrow> bool" where
  "is_due v dl = (case dl of (loc, seq, m) \<Rightarrow> seq = 0 \<or> fst v loc = None \<or> fst v loc = Some seq)"

lemma check_in_order_stats:
  assumes "due h loc = None \<or> due h loc = Some seq"
  shows "stats (snd (snd (check_sequence rq h loc seq))) = stats h"
proof -
  have "or_ok (fst (observe (fh_gap h) loc seq))" using assms gd.accepts by blast
  then have "\<not> or_gap (fst (observe (fh_gap h) loc seq))" "\<not> or_stale (fst (observe (fh_gap h) loc seq))"
    using gd.exclusive by blast+
  then show ?thesis by (simp add: check_sequence_def case_prod_unfold Let_def)
qed

lemma apply_payload_counts:
  assumes d: "decode_frame body = Some \<lparr>status = Ok, consumed = k, message = Some m\<rparr>"
    and inv: "db_inv (fh_book h)" "msg_ok (global (fh_book h)) m"
      "market_fits (feed_step (global (fh_book h)) m)"
    and a: "apply_payload h body = Some (r, snap, h')"
  shows "stats h' = (if msg_target (global (fh_book h)) m = None then stats h
    else (stats h)\<lparr>messages_applied := messages_applied (stats h) + 1, by_type := tally_type (by_type (stats h)) m\<rparr>)"
  using apply_msg_implements [OF inv] a by (auto simp: apply_payload_def d Let_def)

lemma handler_counts:
  assumes good: "handler_good n sk h" and carry: "carries data dl" and is_due: "is_due (handler_view h) dl"
    and ok: "msg_ok (snd (handler_view h)) (snd (snd dl))"
    and fit: "market_fits (feed_step (snd (handler_view h)) (snd (snd dl)))"
    and st: "handler_step h (None, data) = Some h'"
  shows "stats h' = count_message (stats h) (snd (handler_view h)) (length data) (snd (snd dl))"
proof -
  obtain loc seq m where dl: "dl = (loc, seq, m)" by (cases dl)
  have len: "12 \<le> length data" and hdr: "hdr_u16 data 0 = Some loc" "hdr_u64 data 2 = Some seq"
    and dec: "decode_frame (drop 10 data) = Some \<lparr>status = Ok, consumed = framed_size m, message = Some m\<rparr>"
    using carry hdr_in_bounds [of data] by (simp_all add: dl)
  have inv: "db_inv (fh_book h)" using good by (simp add: handler_good_def)
  have cs: "stats (counted h data) = (stats h)\<lparr>bytes_in := bytes_in (stats h) + of_nat (length data),
      datagrams_in := datagrams_in (stats h) + 1\<rparr>" by (simp add: counted_def)
  obtain ret reps h1 where c: "(if seq \<noteq> 0 then check_sequence None (counted h data) loc seq
      else (None, [], counted h data)) = (ret, reps, h1)" by (metis prod_cases3)
  have h1: "ret = None \<and> stats h1 = stats (counted h data) \<and> fh_book h1 = fh_book h"
  proof (cases "seq = 0")
    case False
    then have d: "due (counted h data) loc = None \<or> due (counted h data) loc = Some seq"
      using is_due by (simp add: is_due_def dl handler_view_def)
    show ?thesis using check_in_order [OF d, of None] check_in_order_stats [OF d, of None] c False by auto
  qed (use c in auto)
  have "on_datagram None h data = do { (r, snap, h) \<leftarrow> apply_payload h1 (drop 10 data); Some (r, reps, snap, h) }"
    using on_datagram_eq [OF len hdr c] h1 by simp
  then obtain r snap where a: "apply_payload h1 (drop 10 data) = Some (r, snap, h')"
    using st by (auto simp: handler_step_def bind_eq_Some_conv)
  show ?thesis
    using apply_payload_counts [OF dec _ _ _ a] inv ok fit h1
    by (simp add: dl handler_view_def count_message_def Let_def cs)
qed

section \<open>Streams\<close>

type_synonym counted_view = "feed_view \<times> FeedHandlerStats"

definition counted_view :: "FeedHandler \<Rightarrow> counted_view" where
  "counted_view h = (handler_view h, stats h)"

definition count_delivery :: "bool \<Rightarrow> counted_view \<Rightarrow> byte list \<times> delivery \<Rightarrow> counted_view" where
  "count_delivery sk w x =
     (deliver sk (fst w) (snd x), count_message (snd w) (snd (fst w)) (length (fst x)) (snd (snd (snd x))))"

definition due_delivery :: "counted_view \<Rightarrow> byte list \<times> delivery \<Rightarrow> bool" where
  "due_delivery w x \<longleftrightarrow> delivery_ok (fst w) x \<and> is_due (fst w) (snd x)"

interpretation fc: simulation "handler_good n sk" counted_view deliver_step
  "count_delivery sk" due_delivery "\<lambda>w. True" for n sk
proof unfold_locales
  fix h x assume h: "handler_good n sk h" "due_delivery (counted_view h) x"
  then have ok: "delivery_ok (handler_view h) x" "is_due (handler_view h) (snd x)"
    by (auto simp: due_delivery_def counted_view_def)
  obtain h' where h': "handler_step h (None, fst x) = Some h'" "handler_good n sk h'"
      "handler_view h' = deliver sk (handler_view h) (snd x)"
    using handler_delivers [OF h(1), of "fst x" "snd x"] ok(1) unfolding delivery_ok_def by blast
  have "stats h' = count_message (stats h) (snd (handler_view h)) (length (fst x)) (snd (snd (snd x)))"
    using handler_counts [OF h(1) _ ok(2) _ _ h'(1)] ok(1) by (simp add: delivery_ok_def)
  then show "\<exists>h'. deliver_step h x = Some h' \<and> handler_good n sk h' \<and>
      counted_view h' = count_delivery sk (counted_view h) x"
    using h' by (simp add: deliver_step_def counted_view_def count_delivery_def)
qed

text \<open>The messages of a stream that act on the books: an add always, another one when its order is live.\<close>

fun acting :: "market \<Rightarrow> AnyMessage list \<Rightarrow> AnyMessage list" where
  "acting g [] = []"
| "acting g (m # ms) = (if msg_target g m = None then [] else [m]) @ acting (feed_step g m) ms"

fun is_add :: "AnyMessage \<Rightarrow> bool" where
  "is_add (MAddOrder m) = True" | "is_add (MAddOrderMPID m) = True" | "is_add m = False"

fun is_execute :: "AnyMessage \<Rightarrow> bool" where
  "is_execute (MOrderExecuted m) = True" | "is_execute (MOrderExecutedWithPrice m) = True" | "is_execute m = False"

fun is_cancel :: "AnyMessage \<Rightarrow> bool" where
  "is_cancel (MOrderCancel m) = True" | "is_cancel m = False"

fun is_delete :: "AnyMessage \<Rightarrow> bool" where
  "is_delete (MOrderDelete m) = True" | "is_delete m = False"

fun is_replace :: "AnyMessage \<Rightarrow> bool" where
  "is_replace (MOrderReplace m) = True" | "is_replace m = False"

definition counters_of :: "AnyMessage list \<Rightarrow> PerTypeCounters" where
  "counters_of ms = \<lparr>cnt_add = of_nat (length (filter is_add ms)), cnt_execute = of_nat (length (filter is_execute ms)),
     cnt_cancel = of_nat (length (filter is_cancel ms)), cnt_delete = of_nat (length (filter is_delete ms)),
     cnt_replace = of_nat (length (filter is_replace ms)), cnt_other = 0\<rparr>"

lemma counters_Nil: "counters_of [] = zero_counters"
  by (simp add: counters_of_def zero_counters_def)

lemma counters_snoc: "msg_target g m \<noteq> None \<Longrightarrow> tally_type (counters_of ms) m = counters_of (ms @ [m])"
  by (cases m) (simp_all add: counters_of_def)

definition stats_of :: "nat \<Rightarrow> nat \<Rightarrow> AnyMessage list \<Rightarrow> FeedHandlerStats" where
  "stats_of b n ms = zero_stats\<lparr>bytes_in := of_nat b, datagrams_in := of_nat n,
     messages_applied := of_nat (length ms), by_type := counters_of ms\<rparr>"

lemma stats_of_0: "stats_of 0 0 [] = zero_stats"
  by (simp add: stats_of_def zero_stats_def counters_Nil)

lemma count_message_of:
  "count_message (stats_of b n ms) g k m = stats_of (b + k) (Suc n) (ms @ (if msg_target g m = None then [] else [m]))"
  using counters_snoc [of g m ms] by (cases "msg_target g m") (simp_all add: count_message_def stats_of_def Let_def add.commute)

abbreviation msgs :: "(byte list \<times> delivery) list \<Rightarrow> AnyMessage list" where
  "msgs xs \<equiv> map (\<lambda>x. snd (snd (snd x))) xs"

lemma count_run:
  "admissible (count_delivery sk) due_delivery (\<lambda>w. True) (v, stats_of b n ms) xs \<Longrightarrow>
   foldl (count_delivery sk) (v, stats_of b n ms) xs =
     (foldl (\<lambda>v x. deliver sk v (snd x)) v xs,
      stats_of (b + sum_list (map (length \<circ> fst) xs)) (n + length xs) (ms @ acting (snd v) (msgs xs)))"
proof (induction xs arbitrary: v b n ms)
  case (Cons x xs)
  obtain data loc seq m where x: "x = (data, loc, seq, m)" by (cases x)
  obtain dm g where v: "v = (dm, g)" by (cases v)
  have step: "count_delivery sk (v, stats_of b n ms) x = (deliver sk v (snd x),
      stats_of (b + length data) (Suc n) (ms @ (if msg_target g m = None then [] else [m])))"
    by (simp add: count_delivery_def x v count_message_of)
  have "snd (deliver sk v (snd x)) = feed_step g m"
    using Cons.prems by (auto simp: x v due_delivery_def is_due_def split: option.splits)
  then show ?case
    using Cons.IH [of "deliver sk v (snd x)" "b + length data" "Suc n"
        "ms @ (if msg_target g m = None then [] else [m])"] Cons.prems
    unfolding admissible.simps foldl_Cons step by (simp add: x v add.assoc)
qed simp

lemma admissible_due:
  "in_order dm (map snd xs) \<Longrightarrow> (\<forall>x \<in> set xs. carries (fst x) (snd x)) \<Longrightarrow>
   admissible feed_step msg_ok market_fits g (msgs xs) \<Longrightarrow>
   admissible (count_delivery sk) due_delivery (\<lambda>w. True) ((dm, g), s) xs"
proof (induction xs arbitrary: dm g s)
  case (Cons x xs)
  obtain data loc seq m where x: "x = (data, loc, seq, m)" by (cases x)
  show ?case using Cons
    by (auto simp: x count_delivery_def due_delivery_def delivery_ok_def is_due_def split: option.splits if_splits)
qed simp

section \<open>Properties\<close>

text \<open>C29: over datagrams in sequence the statistics of the handler are exact: it counts every byte and
  datagram, as applied exactly the adds and the messages that name a live order, each under its own
  type, and no error, gap, snapshot or stale message; the counter for all other types stays 0.\<close>

theorem counters_exact:
  assumes "\<forall>x \<in> set xs. carries (fst x) (snd x)" and "in_order Map.empty (map snd xs)"
    and "admissible feed_step msg_ok market_fits Map.empty (map (\<lambda>x. snd (snd (snd x))) xs)"
  shows "\<exists>h. run_steps handler_step (set_skip_gaps (new_feed_handler n) sk) (map (\<lambda>x. (None, fst x)) xs) = Some h \<and>
    (let ms = acting Map.empty (map (\<lambda>x. snd (snd (snd x))) xs) in
     stats h = zero_stats\<lparr>bytes_in := of_nat (sum_list (map (length \<circ> fst) xs)), datagrams_in := of_nat (length xs),
       messages_applied := of_nat (length ms),
       by_type := \<lparr>cnt_add = of_nat (length (filter is_add ms)), cnt_execute = of_nat (length (filter is_execute ms)),
         cnt_cancel = of_nat (length (filter is_cancel ms)), cnt_delete = of_nat (length (filter is_delete ms)),
         cnt_replace = of_nat (length (filter is_replace ms)), cnt_other = 0\<rparr>\<rparr>)"
proof -
  let ?h = "set_skip_gaps (new_feed_handler n) sk"
  have good: "handler_good n sk ?h" and view: "counted_view ?h = ((Map.empty, Map.empty), stats_of 0 0 [])"
    by (simp_all add: handler_good_def counted_view_def handler_view_def set_skip_gaps_def new_feed_handler_def
        db_inv_new new_gap_detector_def stats_of_0)
  have adm: "admissible (count_delivery sk) due_delivery (\<lambda>w. True) (counted_view ?h) xs"
    unfolding view using assms(2,1,3) by (rule admissible_due)
  obtain h where h: "run_steps deliver_step ?h xs = Some h"
      "counted_view h = foldl (count_delivery sk) (counted_view ?h) xs"
    using fc.run_sim [OF good adm] by auto
  have "stats h = stats_of (sum_list (map (length \<circ> fst) xs)) (length xs) (acting Map.empty (msgs xs))"
    using h(2) unfolding view count_run [OF adm [unfolded view]] by (simp add: counted_view_def)
  then show ?thesis using h(1) by (simp add: stats_of_def counters_of_def Let_def deliver_runs)
qed

theorem counters_exact_witness:
  "\<exists>d h. run_steps handler_step (set_skip_gaps (new_feed_handler 10) False) [(None, d)] = Some h \<and>
     datagrams_in (stats h) = 1 \<and> messages_applied (stats h) = 1 \<and> cnt_add (by_type (stats h)) = 1"
proof -
  let ?m = "add_msg 7 0x41 0"
  have m: "on_wire ?m = ?m" by (simp add: add_msg_def trunc_ts_def)
  obtain d where d: "carries d (3, 1, ?m)" using frame_datagram_carries [OF m] by blast
  have a: "\<forall>x \<in> set [(d, 3, 1, ?m)]. carries (fst x) (snd x)" using d by (simp del: carries.simps)
  have fit: "market_fits (feed_step Map.empty ?m)"
    by (auto simp: add_msg_def market_add_def intro!: market_fits_small)
  have b: "in_order Map.empty (map snd [(d, 3, 1, ?m)])"
    "admissible feed_step msg_ok market_fits Map.empty (map (\<lambda>x. snd (snd (snd x))) [(d, 3, 1, ?m)])"
    using fit by (simp_all add: add_msg_def id_free_def)
  from counters_exact [OF a b, of 10 False] show ?thesis
    by (intro exI [of _ d]) (auto simp: Let_def add_msg_def)
qed

end
