(* ===== verification/Bench_Feed.thy ===== *)
theory Bench_Feed
  imports Feed_Counters Sockets Program_Text
begin

text \<open>
  What the programs of \<^verbatim>\<open>bench/\<close> share: the datagrams they generate before they measure, and floating
  point, whose operations are the parameter \<^verbatim>\<open>fp\<close>.
\<close>

section \<open>Floating point\<close>

record 'd fp =
  fp_strtod :: "string \<Rightarrow> 'd"
  fp_of_u64 :: "u64 \<Rightarrow> 'd"
  fp_to_u64 :: "'d \<Rightarrow> u64"
  fp_sub :: "'d \<Rightarrow> 'd \<Rightarrow> 'd"
  fp_mul :: "'d \<Rightarrow> 'd \<Rightarrow> 'd"
  fp_div :: "'d \<Rightarrow> 'd \<Rightarrow> 'd"
  fp_less :: "'d \<Rightarrow> 'd \<Rightarrow> bool"
  fp_text :: "nat \<Rightarrow> 'd \<Rightarrow> string"

text \<open>A literal is the number its digits denote; \<^verbatim>\<open>fp_text n\<close> prints with \<^verbatim>\<open>n\<close> digits after the point.\<close>

definition fp_zero :: "('d, 'x) fp_scheme \<Rightarrow> 'd" where
  "fp_zero fp = fp_strtod fp ''0.0''"

definition seconds :: "('d, 'x) fp_scheme \<Rightarrow> u64 \<Rightarrow> 'd" where
  "seconds fp ns = fp_div fp (fp_of_u64 fp ns) (fp_strtod fp ''1e9'')"

text \<open>\<^verbatim>\<open>sec > 0 ? double(n) / sec : 0.0\<close>, which every program prints.\<close>

definition per_second :: "('d, 'x) fp_scheme \<Rightarrow> u64 \<Rightarrow> u64 \<Rightarrow> 'd" where
  "per_second fp n ns =
     (let sec = seconds fp ns in
      if fp_less fp (fp_zero fp) sec then fp_div fp (fp_of_u64 fp n) sec else fp_zero fp)"

section \<open>The datagrams\<close>

text \<open>The loop over \<^verbatim>\<open>gen.next\<close>; the generator's last state is returned too.\<close>

fun payload_loop :: "'r uniform \<Rightarrow> nat \<Rightarrow> 'r MessageGenerator \<Rightarrow> (byte list list \<times> 'r MessageGenerator) option" where
  "payload_loop u 0 g = Some ([], g)"
| "payload_loop u (Suc n) g = do {
     (len, buf, hdr, g) \<leftarrow> next_datagram u g;
     (ps, g) \<leftarrow> payload_loop u n g;
     Some ((if len \<noteq> 0 then [buf] else []) @ ps, g) }"

text \<open>\<^verbatim>\<open>r\<close> is the engine seeded with \<^verbatim>\<open>0xBEEF\<close>.\<close>

definition bench_payloads :: "'r uniform \<Rightarrow> 'r \<Rightarrow> u64 \<Rightarrow> byte list list option" where
  "bench_payloads u r count =
     (let g = new_generator r 8 in do {
        dirs \<leftarrow> directory_messages g;
        (ps, g) \<leftarrow> payload_loop u (unat count) g;
        Some (dirs @ ps) })"

section \<open>What is generated\<close>

abbreviation counted_ok :: "bool \<Rightarrow> counted_view \<Rightarrow> (byte list \<times> delivery) list \<Rightarrow> bool" where
  "counted_ok sk \<equiv> admissible (count_delivery sk) due_delivery (\<lambda>w. True)"

lemma payload_loop_run:
  assumes u: "uniform_ok u"
  shows "in_step k g v \<Longrightarrow> k + n \<le> 4000000 \<Longrightarrow>
    \<exists>xs g'. payload_loop u n g = Some (map fst xs, g') \<and> length xs = n \<and> (\<forall>s. counted_ok sk (v, s) xs) \<and>
      acting (snd v) (msgs xs) = msgs xs"
proof (induction n arbitrary: k g v)
  case 0
  then show ?case by (intro exI [of _ "[]"]) simp
next
  case (Suc n)
  have k: "k < 4000000" using Suc.prems by simp
  obtain out hdr m g1 where st: "next_datagram u g = Some (length out, out, hdr, g1)"
      "delivery_ok v (out, th_locate hdr, th_sequence hdr, m)"
      "in_step (Suc k) g1 (deliver sk v (th_locate hdr, th_sequence hdr, m))"
      "length out = 10 + framed_size m"
      "th_sequence hdr = (case next_seq g (th_locate hdr) of None \<Rightarrow> 1 | Some s \<Rightarrow> s)"
      "msg_target (snd v) m \<noteq> None"
    using next_datagram_step [OF Suc.prems(1) k u, of sk] by metis
  let ?x = "(out, th_locate hdr, th_sequence hdr, m)"
  have "fst v = next_seq g" using Suc.prems(1) by (simp add: in_step_def)
  then have d: "is_due v (snd ?x)" using st(5) by (auto simp: is_due_def split: option.splits)
  then have act: "snd (deliver sk v (snd ?x)) = feed_step (snd v) m"
    by (cases v) (auto simp: is_due_def split: option.splits)
  have w: "count_delivery sk (v, s) ?x = (deliver sk v (snd ?x), snd (count_delivery sk (v, s) ?x))" for s
    by (simp add: count_delivery_def)
  obtain xs g' where xs: "payload_loop u n g1 = Some (map fst xs, g')" "length xs = n"
      "\<And>s. counted_ok sk (deliver sk v (snd ?x), s) xs"
      "acting (feed_step (snd v) m) (msgs xs) = msgs xs"
    using Suc.IH [of "Suc k" g1 "deliver sk v (snd ?x)"] st(3) Suc.prems(2) act by auto
  have ok: "counted_ok sk (v, s) (?x # xs)" for s
  proof -
    have "counted_ok sk (count_delivery sk (v, s) ?x) xs" using xs(3) w [of s] by metis
    then show ?thesis using st(2) d by (simp add: due_delivery_def)
  qed
  have "length out \<noteq> 0" using st(4) by simp
  then show ?case
    using st(1,6) xs ok by (intro exI [of _ "?x # xs"] exI [of _ g']) simp
qed

fun is_directory :: "AnyMessage \<Rightarrow> bool" where
  "is_directory (MStockDirectory m) = True" | "is_directory m = False"

lemma directory_from_run:
  "\<forall>i \<in> set is. i < length (symbols g) \<Longrightarrow>
   \<exists>ds. directory_from g is = Some (map fst ds) \<and> length ds = length is \<and>
     (\<forall>x \<in> set ds. carries (fst x) (snd x) \<and> fst (snd (snd x)) = 0 \<and> is_directory (snd (snd (snd x))))"
proof (induction "is")
  case (Cons i "is")
  obtain out where out: "directory_datagram g i = Some (Some out)"
      "carries out (base_locate g + of_nat i, 0, directory_message g i)"
    using directory_datagram_carries [of i g] Cons.prems by auto
  obtain ds where "directory_from g is = Some (map fst ds)" "length ds = length is"
      "\<forall>x \<in> set ds. carries (fst x) (snd x) \<and> fst (snd (snd x)) = 0 \<and> is_directory (snd (snd (snd x)))"
    using Cons by (auto simp del: carries.simps)
  then show ?case
    using out by (intro exI [of _ "(out, base_locate g + of_nat i, 0, directory_message g i) # ds"])
      (simp add: directory_message_def del: carries.simps)
qed simp

lemma directory_step: "is_directory m \<Longrightarrow> feed_step g m = g \<and> msg_target g m = None \<and> msg_ok g m"
  by (cases m) simp_all

text \<open>The directory in front of a stream changes neither what is due nor the market.\<close>

lemma directory_first:
  "\<forall>x \<in> set ds. carries (fst x) (snd x) \<and> fst (snd (snd x)) = 0 \<and> is_directory (snd (snd (snd x))) \<Longrightarrow>
   market_fits (snd v) \<Longrightarrow> (\<And>s. counted_ok sk (v, s) xs) \<Longrightarrow>
   counted_ok sk (v, s) (ds @ xs) \<and> acting (snd v) (msgs (ds @ xs)) = acting (snd v) (msgs xs)"
proof (induction ds arbitrary: s)
  case (Cons x ds)
  obtain data loc seq m where x: "x = (data, loc, seq, m)" by (cases x)
  obtain dm g where v: "v = (dm, g)" by (cases v)
  have m: "carries data (loc, 0, m)" "seq = 0" "feed_step g m = g" "msg_target g m = None" "msg_ok g m"
    using Cons.prems(1) directory_step [of m g] by (auto simp: x simp del: carries.simps)
  have step: "fst (count_delivery sk (v, s) x) = v" by (simp add: count_delivery_def x v m)
  have "counted_ok sk (v, snd (count_delivery sk (v, s) x)) (ds @ xs) \<and>
      acting (snd v) (msgs (ds @ xs)) = acting (snd v) (msgs xs)"
    using Cons by simp
  moreover have "due_delivery (v, s) x"
    using Cons.prems(2) m by (simp add: due_delivery_def delivery_ok_def is_due_def x v del: carries.simps)
  moreover have "count_delivery sk (v, s) x = (v, snd (count_delivery sk (v, s) x))"
    using step by (metis prod.collapse)
  ultimately show ?case
    using m(3,4) by (simp add: x v)
qed simp

text \<open>
  The whole feed of a bench: eight directory messages and \<^verbatim>\<open>count\<close> messages that all act on the books.
\<close>

lemma bench_payloads_run:
  assumes u: "uniform_ok u" and n: "unat count \<le> 4000000"
  shows "\<exists>ds xs. bench_payloads u r count = Some (map fst (ds @ xs)) \<and> length ds = 8 \<and> length xs = unat count \<and>
    (\<forall>x \<in> set ds. is_directory (snd (snd (snd x)))) \<and>
    counted_ok sk ((Map.empty, Map.empty), s) (ds @ xs) \<and> acting Map.empty (msgs (ds @ xs)) = msgs xs"
proof -
  let ?g = "new_generator r 8" and ?v = "(Map.empty, Map.empty)"
  have num: "length (symbols ?g) = 8" by (simp add: new_generator_def kNames_def)
  obtain ds where ds: "directory_messages ?g = Some (map fst ds)" "length ds = 8"
      "\<forall>x \<in> set ds. carries (fst x) (snd x) \<and> fst (snd (snd x)) = 0 \<and> is_directory (snd (snd (snd x)))"
    using directory_from_run [of "[0..<length (symbols ?g)]" ?g] num
    by (auto simp: directory_messages_def simp del: carries.simps)
  have st: "in_step 0 ?g ?v" by (rule in_step_new) simp
  obtain xs g' where xs: "payload_loop u (unat count) ?g = Some (map fst xs, g')" "length xs = unat count"
      "\<And>s. counted_ok sk (?v, s) xs" "acting Map.empty (msgs xs) = msgs xs"
    using payload_loop_run [OF u st, of "unat count" sk] n by auto
  show ?thesis
    using ds xs directory_first [OF ds(3), of ?v sk xs s]
    by (intro exI [of _ ds] exI [of _ xs]) (simp add: bench_payloads_def)
qed

section \<open>An instance\<close>

text \<open>A floating point of natural numbers, and a system whose clock stands still.\<close>

definition whole_fp :: "nat fp" where
  "whole_fp = \<lparr>fp_strtod = (\<lambda>s. nat (read_decimal s)), fp_of_u64 = unat, fp_to_u64 = of_nat, fp_sub = (-),
     fp_mul = (*), fp_div = (div), fp_less = (<), fp_text = (\<lambda>n. print_nat)\<rparr>"

definition still_os :: "unit os" where
  "still_os k c = (no_answer EOTHER, k)"

end
