(* ===== verification/Handler_Bench.thy ===== *)
theory Handler_Bench
  imports Bench_Feed Histogram
begin

text \<open>
  \<^verbatim>\<open>bench/handler_bench.cpp\<close>: the generated feed through a handler for throughput, a sample of it for
  latency, the decoded messages grouped by type against pre-warmed books, the JSON report, and the
  regression gate. The files of the system are a map from paths to texts; \<^verbatim>\<open>writable\<close> says which
  paths \<^verbatim>\<open>fopen\<close> opens for writing. Times come from the clock of the system interface.
\<close>

section \<open>The passes\<close>

fun feed_all :: "FeedHandler \<Rightarrow> byte list list \<Rightarrow> FeedHandler option" where
  "feed_all h [] = Some h"
| "feed_all h (p # ps) = do { (r, reports, snap, h) \<leftarrow> on_datagram None h p; feed_all h ps }"

fun latency_loop :: "'k os \<Rightarrow> byte list list \<Rightarrow> FeedHandler \<Rightarrow> Histogram \<Rightarrow> 'k process \<Rightarrow> (Histogram \<times> 'k process) option" where
  "latency_loop os [] h hist p = Some (hist, p)"
| "latency_loop os (d # ds) h hist p =
     (let (a, p) = now_ns os p in do {
        (r, reports, snap, h) \<leftarrow> on_datagram None h d;
        let (b, p) = now_ns os p in do {
        hist \<leftarrow> record_value hist (b - a);
        latency_loop os ds h hist p } })"

record 'd LatencyStats =
  lat_min :: u64
  lat_max :: u64
  lat_p50 :: u64
  lat_p95 :: u64
  lat_p99 :: u64
  lat_p999 :: u64
  lat_mean :: 'd

text \<open>The rank \<^verbatim>\<open>percentile\<close> computes from a fraction and the number of samples, and \<^verbatim>\<open>mean\<close>.\<close>

definition rank_of :: "'d fp \<Rightarrow> string \<Rightarrow> u64 \<Rightarrow> u64" where
  "rank_of fp lit n =
     (let p = fp_strtod fp lit;
          p = (if fp_less fp p (fp_zero fp) then fp_zero fp else p);
          p = (if fp_less fp (fp_strtod fp ''1.0'') p then fp_strtod fp ''1.0'' else p)
      in fp_to_u64 fp (fp_mul fp p (fp_of_u64 fp n)))"

definition mean :: "'d fp \<Rightarrow> Histogram \<Rightarrow> 'd" where
  "mean fp h =
     (if h_count h \<noteq> 0 then fp_div fp (fp_of_u64 fp (h_total h)) (fp_of_u64 fp (h_count h)) else fp_zero fp)"

definition latency_from :: "'d fp \<Rightarrow> Histogram \<Rightarrow> 'd LatencyStats option" where
  "latency_from fp h = do {
     p50 \<leftarrow> percentile (rank_of fp ''0.50'') h;
     p95 \<leftarrow> percentile (rank_of fp ''0.95'') h;
     p99 \<leftarrow> percentile (rank_of fp ''0.99'') h;
     p999 \<leftarrow> percentile (rank_of fp ''0.999'') h;
     Some \<lparr>lat_min = h_min h, lat_max = h_max h, lat_p50 = p50, lat_p95 = p95, lat_p99 = p99, lat_p999 = p999,
       lat_mean = mean fp h\<rparr> }"

section \<open>Grouping by type\<close>

definition datagram_type :: "byte list \<Rightarrow> byte" where
  "datagram_type p = (let off = kTransportHeaderSize + 2 in if off < length p then p ! off else 0x3F)"

record Groups =
  adds :: "AnyMessage list"
  executes :: "AnyMessage list"
  cancels :: "AnyMessage list"
  deletes :: "AnyMessage list"
  replaces :: "AnyMessage list"

definition no_groups :: Groups where
  "no_groups = \<lparr>adds = [], executes = [], cancels = [], deletes = [], replaces = []\<rparr>"

definition put_group :: "byte \<Rightarrow> AnyMessage \<Rightarrow> Groups \<Rightarrow> Groups" where
  "put_group tc m g =
     (if tc = 0x41 \<or> tc = 0x46 then g\<lparr>adds := adds g @ [m]\<rparr>
      else if tc = 0x45 \<or> tc = 0x43 then g\<lparr>executes := executes g @ [m]\<rparr>
      else if tc = 0x58 then g\<lparr>cancels := cancels g @ [m]\<rparr>
      else if tc = 0x44 then g\<lparr>deletes := deletes g @ [m]\<rparr>
      else if tc = 0x55 then g\<lparr>replaces := replaces g @ [m]\<rparr>
      else g)"

text \<open>A datagram shorter than the transport header would give the decoder a length below zero.\<close>

fun group_all :: "Groups \<Rightarrow> byte list list \<Rightarrow> Groups option" where
  "group_all g [] = Some g"
| "group_all g (p # ps) =
     (if length p < kTransportHeaderSize then None
      else do {
        pr \<leftarrow> decode_frame (drop kTransportHeaderSize p);
        group_all (case (status pr, message pr) of
            (Ok, Some m) \<Rightarrow> put_group (datagram_type p) m g
          | _ \<Rightarrow> g) ps })"

section \<open>Rates of the groups\<close>

fun apply_all :: "DepthBook \<Rightarrow> AnyMessage list \<Rightarrow> DepthBook option" where
  "apply_all d [] = Some d"
| "apply_all d (m # ms) = do { (changed, snap, d) \<leftarrow> apply_msg d m; apply_all d ms }"

record 'd TypeRate =
  tr_name :: string
  tr_applied :: u64
  tr_elapsed :: u64
  tr_rate :: 'd

text \<open>The book is warmed by \<^verbatim>\<open>warm\<close>; the adds themselves are timed on an empty one.\<close>

definition time_group :: "'d fp \<Rightarrow> 'k os \<Rightarrow> string \<Rightarrow> AnyMessage list \<Rightarrow> AnyMessage list \<Rightarrow> 'k process \<Rightarrow>
    ('d TypeRate \<times> 'k process) option" where
  "time_group fp os name warm ms p = do {
     book \<leftarrow> apply_all (new_depth_book 10) warm;
     let (g0, p) = now_ns os p in do {
     book \<leftarrow> apply_all book ms;
     let (g1, p) = now_ns os p;
         el = g1 - g0;
         n = of_nat (length ms) in
     Some (\<lparr>tr_name = name, tr_applied = n, tr_elapsed = el, tr_rate = per_second fp n el\<rparr>, p) } }"

definition type_rates :: "'d fp \<Rightarrow> 'k os \<Rightarrow> Groups \<Rightarrow> 'k process \<Rightarrow> ('d TypeRate list \<times> 'k process) option" where
  "type_rates fp os g p = do {
     (a, p) \<leftarrow> time_group fp os ''add'' [] (adds g) p;
     (e, p) \<leftarrow> time_group fp os ''execute'' (adds g) (executes g) p;
     (c, p) \<leftarrow> time_group fp os ''cancel'' (adds g) (cancels g) p;
     (d, p) \<leftarrow> time_group fp os ''delete'' (adds g) (deletes g) p;
     (r, p) \<leftarrow> time_group fp os ''replace'' (adds g) (replaces g) p;
     Some ([a, e, c, d, r], p) }"

section \<open>The report\<close>

definition line :: "nat \<Rightarrow> string \<Rightarrow> string \<Rightarrow> bool \<Rightarrow> string" where
  "line ind name val final =
     replicate ind (CHR '' '') @ ''\"'' @ name @ ''\": '' @ val @ (if final then [] else '','') @ newline"

definition open_line :: "string \<Rightarrow> string" where
  "open_line name = ''  \"'' @ name @ ''\": {'' @ newline"

definition rate_lines :: "'d fp \<Rightarrow> 'd TypeRate list \<Rightarrow> string" where
  "rate_lines fp rates = concat (map (\<lambda>i. line 4 (tr_name (rates ! i)) (fp_text fp 0 (tr_rate (rates ! i)))
     (\<not> i + 1 < length rates)) [0..<length rates])"

definition emit :: "'d fp \<Rightarrow> u64 \<Rightarrow> u64 \<Rightarrow> u64 \<Rightarrow> 'd LatencyStats \<Rightarrow> PerTypeCounters \<Rightarrow> 'd TypeRate list \<Rightarrow> string" where
  "emit fp messages applied elapsed_ns lat counts rates =
     ''{'' @ newline @
     line 2 ''messages_total'' (print_u64 messages) False @
     line 2 ''messages_applied'' (print_u64 applied) False @
     line 2 ''elapsed_ns'' (print_u64 elapsed_ns) False @
     line 2 ''throughput_msgs_per_sec'' (fp_text fp 0 (per_second fp applied elapsed_ns)) False @
     open_line ''latency_ns'' @
     line 4 ''min'' (print_u64 (lat_min lat)) False @
     line 4 ''mean'' (fp_text fp 1 (lat_mean lat)) False @
     line 4 ''p50'' (print_u64 (lat_p50 lat)) False @
     line 4 ''p95'' (print_u64 (lat_p95 lat)) False @
     line 4 ''p99'' (print_u64 (lat_p99 lat)) False @
     line 4 ''p999'' (print_u64 (lat_p999 lat)) False @
     line 4 ''max'' (print_u64 (lat_max lat)) True @
     ''  },'' @ newline @
     open_line ''applied_by_type'' @
     line 4 ''add'' (print_u64 (cnt_add counts)) False @
     line 4 ''execute'' (print_u64 (cnt_execute counts)) False @
     line 4 ''cancel'' (print_u64 (cnt_cancel counts)) False @
     line 4 ''delete'' (print_u64 (cnt_delete counts)) False @
     line 4 ''replace'' (print_u64 (cnt_replace counts)) False @
     line 4 ''other'' (print_u64 (cnt_other counts)) True @
     ''  },'' @ newline @
     open_line ''throughput_by_type'' @
     rate_lines fp rates @
     ''  }'' @ newline @ ''}'' @ newline"

section \<open>The regression gate\<close>

type_synonym file_system = "string \<rightharpoonup> string"

text \<open>\<^verbatim>\<open>find\<close>: the text from the first occurrence of the key on.\<close>

fun find_key :: "string \<Rightarrow> string \<Rightarrow> string option" where
  "find_key key s = (if take (length key) s = key then Some s else case s of [] \<Rightarrow> None | c # cs \<Rightarrow> find_key key cs)"

declare find_key.simps [simp del]

definition throughput_key :: string where
  "throughput_key = ''\"throughput_msgs_per_sec\"''"

definition read_baseline_throughput :: "'d fp \<Rightarrow> file_system \<Rightarrow> string \<Rightarrow> 'd option" where
  "read_baseline_throughput fp fs path = do {
     text \<leftarrow> fs path;
     rest \<leftarrow> find_key throughput_key text;
     colon \<leftarrow> find_key '':'' rest;
     let x = fp_strtod fp (c_str (tl colon)) in
     if fp_less fp (fp_zero fp) x then Some x else None }"

definition regress_gate :: "'d fp \<Rightarrow> file_system \<Rightarrow> string \<Rightarrow> 'd \<Rightarrow> 'd \<Rightarrow> int \<times> string" where
  "regress_gate fp fs path drift measured =
     (case read_baseline_throughput fp fs path of
        None \<Rightarrow> (2, ''bench-regress: cannot read baseline throughput from '' @ path @ newline)
      | Some baseline \<Rightarrow>
          let floor = fp_mul fp baseline (fp_sub fp (fp_strtod fp ''1.0'') drift);
              msg = ''bench-regress: baseline='' @ fp_text fp 0 baseline @ '' measured='' @ fp_text fp 0 measured @
                '' floor='' @ fp_text fp 0 floor @ '' (drift='' @
                fp_text fp 0 (fp_mul fp drift (fp_strtod fp ''100.0'')) @ ''%)'' @ newline in
          if fp_less fp measured floor
          then (1, msg @ ''bench-regress: FAIL throughput regressed beyond threshold'' @ newline)
          else (0, msg @ ''bench-regress: OK'' @ newline))"

section \<open>The program\<close>

record 'd bench_config =
  bc_count :: u64
  bc_out :: "string option"
  bc_regress :: "string option"
  bc_drift :: 'd

definition default_bench :: "'d fp \<Rightarrow> 'd bench_config" where
  "default_bench fp = \<lparr>bc_count = 1000000, bc_out = None, bc_regress = None, bc_drift = fp_strtod fp ''0.30''\<rparr>"

text \<open>Arguments that are not known, and a flag without its value, are skipped.\<close>

fun parse_bench :: "'d fp \<Rightarrow> string list \<Rightarrow> 'd bench_config \<Rightarrow> 'd bench_config option" where
  "parse_bench fp [] c = Some c"
| "parse_bench fp [a] c = Some c"
| "parse_bench fp (a # v # as) c =
     (if a = ''--count'' then do { n \<leftarrow> atoll v; parse_bench fp as (c\<lparr>bc_count := of_int n\<rparr>) }
      else if a = ''--out'' then parse_bench fp as (c\<lparr>bc_out := Some v\<rparr>)
      else if a = ''--regress'' then parse_bench fp as (c\<lparr>bc_regress := Some v\<rparr>)
      else if a = ''--drift'' then parse_bench fp as (c\<lparr>bc_drift := fp_strtod fp v\<rparr>)
      else parse_bench fp (v # as) c)"

record bench_result =
  br_exit :: int
  br_stdout :: string
  br_stderr :: string
  br_files :: file_system

definition bench_sample :: "byte list list \<Rightarrow> nat" where
  "bench_sample ps = (if length ps > 200000 then 200000 else length ps)"

definition handler_bench :: "'d fp \<Rightarrow> 'k os \<Rightarrow> 'r uniform \<Rightarrow> 'r \<Rightarrow> file_system \<Rightarrow> (string \<Rightarrow> bool) \<Rightarrow>
    'd bench_config \<Rightarrow> 'k process \<Rightarrow> (bench_result \<times> 'k process) option" where
  "handler_bench fp os u r fs writable c p = do {
     payloads \<leftarrow> bench_payloads u r (bc_count c);
     let (t0, p) = now_ns os p in do {
     h \<leftarrow> feed_all (new_feed_handler 10) payloads;
     let (t1, p) = now_ns os p;
         elapsed = t1 - t0;
         measured = per_second fp (messages_applied (stats h)) elapsed in do {
     (hist, p) \<leftarrow> latency_loop os (take (bench_sample payloads) payloads) (new_feed_handler 10) new_histogram p;
     lat \<leftarrow> latency_from fp hist;
     g \<leftarrow> group_all no_groups payloads;
     (rates, p) \<leftarrow> type_rates fp os g p;
     let text = emit fp (of_nat (length payloads)) (messages_applied (stats h)) elapsed lat (by_type (stats h)) rates;
         fs = (case bc_out c of None \<Rightarrow> fs | Some path \<Rightarrow> if writable path then fs(path \<mapsto> text) else fs);
         (code, err) = (case bc_regress c of None \<Rightarrow> (0, []) | Some path \<Rightarrow> regress_gate fp fs path (bc_drift c) measured)
     in Some (\<lparr>br_exit = code, br_stdout = text, br_stderr = err, br_files = fs\<rparr>, p) } } }"

definition handler_bench_main :: "'d fp \<Rightarrow> 'k os \<Rightarrow> 'r uniform \<Rightarrow> 'r \<Rightarrow> file_system \<Rightarrow> (string \<Rightarrow> bool) \<Rightarrow>
    string list \<Rightarrow> 'k process \<Rightarrow> (bench_result \<times> 'k process) option" where
  "handler_bench_main fp os u r fs writable args p = do {
     c \<leftarrow> parse_bench fp args (default_bench fp);
     handler_bench fp os u r fs writable c p }"

end
