(* ===== verification/Bench_Report.thy ===== *)
theory Bench_Report
  imports Handler_Bench
begin

text \<open>
  The report of \<^verbatim>\<open>bench/handler_bench.cpp\<close>: every pass ends, the counters it prints are the sizes of
  the groups it times, and the regression gate reads the reports back.
\<close>

section \<open>Every pass ends\<close>

lemma feed_all_run: "feed_all h ps = run_steps handler_step h (map (Pair None) ps)"
  by (induction ps arbitrary: h) (auto simp: handler_step_def split: option.split)

lemma latency_loop_run:
  "db_wf (fh_book h) \<Longrightarrow> \<exists>ys p'. latency_loop os ds h (histogram_of xs) p = Some (histogram_of (xs @ ys), p') \<and>
     length ys = length ds"
proof (induction ds arbitrary: h xs p)
  case (Cons d ds)
  obtain h' where "handler_step h (None, d) = Some h'" "db_wf (fh_book h')"
    using handler_step_wf [OF Cons.prems] by blast
  then obtain r reps snap where h': "on_datagram None h d = Some (r, reps, snap, h')" "db_wf (fh_book h')"
    by (auto simp: handler_step_def)
  obtain a p1 where a: "now_ns os p = (a, p1)" by force
  obtain b p2 where b: "now_ns os p1 = (b, p2)" by force
  from Cons.IH [OF h'(2), of "xs @ [b - a]" p2] obtain ys p' where
    "latency_loop os ds h' (histogram_of (xs @ [b - a])) p2 = Some (histogram_of ((xs @ [b - a]) @ ys), p')"
    "length ys = length ds" by blast
  then show ?case
    by (intro exI [of _ "(b - a) # ys"] exI [of _ p']) (simp add: a b h'(1) record_histogram)
qed simp

lemma scan_sub_total:
  "length (h_counts h) = 2048 \<Longrightarrow> b < 32 \<Longrightarrow> (\<forall>s \<in> set ss. 0 \<le> s \<and> s < 64) \<Longrightarrow>
   scan_sub h target (int b) ss running \<noteq> None"
proof (induction ss arbitrary: running)
  case (Cons s ss)
  then obtain k where "s = int k" "k < 64" by (auto dest: zero_le_imp_eq_int)
  then have "slot (int b) s < 2048" using slot_nat [of b k] Cons.prems(2) by simp
  then show ?case using Cons by (auto simp: Let_def)
qed simp

lemma scan_buckets_total:
  "length (h_counts h) = 2048 \<Longrightarrow> (\<forall>b \<in> set bs. 0 \<le> b \<and> b < 32) \<Longrightarrow> scan_buckets h target bs running \<noteq> None"
proof (induction bs arbitrary: running)
  case (Cons b bs)
  then obtain k where k: "b = int k" "k < 32" by (auto dest: zero_le_imp_eq_int)
  have "scan_sub h target (int k) [0..kSubBuckets - 1] running \<noteq> None"
    using Cons.prems k(2) by (intro scan_sub_total) (auto simp: kSubBuckets_def)
  then show ?case using Cons by (auto simp: k(1) split: sum.split)
qed simp

lemma latency_from_total: "\<exists>lat. latency_from fp (histogram_of xs) = Some lat"
proof -
  have "percentile rank (histogram_of xs) \<noteq> None" for rank
    using scan_buckets_total [of "histogram_of xs" "[0..kBuckets - 1]"]
    by (simp add: percentile_def histogram_of_def kBuckets_def)
  then have "\<exists>x. percentile rank (histogram_of xs) = Some x" for rank by blast
  then show ?thesis unfolding latency_from_def by (metis bind.bind_lunit)
qed

lemma apply_all_total: "db_wf d \<Longrightarrow> \<exists>d'. apply_all d ms = Some d' \<and> db_wf d'"
proof (induction ms arbitrary: d)
  case (Cons m ms)
  obtain d1 where "apply_state d m = Some d1" "db_wf d1"
    using db_safe.step_sim [OF Cons.prems] by blast
  then show ?case using Cons.IH by (auto simp: apply_state_def)
qed simp

lemma time_group_total:
  "\<exists>t p'. time_group fp os name warm ms p = Some (t, p') \<and> tr_name t = name \<and> tr_applied t = of_nat (length ms)"
proof -
  obtain d where d: "apply_all (new_depth_book 10) warm = Some d" "db_wf d"
    using apply_all_total [OF db_wf_new] by blast
  obtain d' where "apply_all d ms = Some d'" using apply_all_total [OF d(2)] by blast
  then show ?thesis using d(1) by (simp add: time_group_def case_prod_unfold Let_def)
qed

lemma type_rates_total:
  "\<exists>rs p'. type_rates fp os g p = Some (rs, p') \<and>
     map tr_applied rs = map (of_nat \<circ> length) [adds g, executes g, cancels g, deletes g, replaces g]"
proof -
  have step: "time_group fp os name warm ms p \<bind> f = (case time_group fp os name warm ms p of None \<Rightarrow> None | Some x \<Rightarrow> f x)"
    for name warm ms p and f :: "'a TypeRate \<times> 'b process \<Rightarrow> ('a TypeRate list \<times> 'b process) option"
    by (simp split: option.split)
  obtain a pa where a: "time_group fp os ''add'' [] (adds g) p = Some (a, pa)" "tr_applied a = of_nat (length (adds g))"
    using time_group_total by metis
  obtain e pe where e: "time_group fp os ''execute'' (adds g) (executes g) pa = Some (e, pe)"
      "tr_applied e = of_nat (length (executes g))" using time_group_total by metis
  obtain c pc where c: "time_group fp os ''cancel'' (adds g) (cancels g) pe = Some (c, pc)"
      "tr_applied c = of_nat (length (cancels g))" using time_group_total by metis
  obtain d pd where d: "time_group fp os ''delete'' (adds g) (deletes g) pc = Some (d, pd)"
      "tr_applied d = of_nat (length (deletes g))" using time_group_total by metis
  obtain r pr where r: "time_group fp os ''replace'' (adds g) (replaces g) pd = Some (r, pr)"
      "tr_applied r = of_nat (length (replaces g))" using time_group_total by metis
  show ?thesis unfolding type_rates_def by (simp add: a e c d r)
qed

section \<open>The groups are the types\<close>

lemma wire_type: "2 < length (wire_bytes m) \<and> wire_bytes m ! 2 = type_code (type_of m)"
  by (cases m) (simp_all add: wire_bytes_def be_bytes_expand)

lemma carried_type:
  assumes "carries p (loc, seq, m)"
  shows "datagram_type p = type_code (type_of m)" and "10 \<le> length p"
proof -
  have d: "decode_frame (drop 10 p) = Some \<lparr>status = Ok, consumed = framed_size m, message = Some m\<rparr>"
    and len: "12 \<le> length p" using assms by simp_all
  have b: "bslice 0 (length (wire_bytes m)) (drop 10 p) = Some (wire_bytes m)"
    using d by (simp only: decode_frame_Ok)
  then have w: "length (wire_bytes m) \<le> length (drop 10 p)" "take (length (wire_bytes m)) (drop 10 p) = wire_bytes m"
    by (auto simp: bslice_def split: if_splits)
  have "drop 10 p ! 2 = take (length (wire_bytes m)) (drop 10 p) ! 2" using wire_type [of m] by simp
  then have "p ! 12 = wire_bytes m ! 2" using w len by simp
  then show "datagram_type p = type_code (type_of m)"
    using w(1) wire_type [of m] len by (auto simp: datagram_type_def kTransportHeaderSize_def Let_def)
  show "10 \<le> length p" using len by simp
qed

definition regroup :: "Groups \<Rightarrow> AnyMessage list \<Rightarrow> Groups" where
  "regroup g ms = \<lparr>adds = adds g @ filter is_add ms, executes = executes g @ filter is_execute ms,
     cancels = cancels g @ filter is_cancel ms, deletes = deletes g @ filter is_delete ms,
     replaces = replaces g @ filter is_replace ms\<rparr>"

lemma put_group_type: "put_group (type_code (type_of m)) m g = regroup g [m]"
  by (cases m) (simp_all add: put_group_def regroup_def)

lemma regroup_Cons: "regroup (regroup g [m]) ms = regroup g (m # ms)"
  by (simp add: regroup_def)

lemma group_all_run:
  "\<forall>x \<in> set xs. carries (fst x) (snd x) \<Longrightarrow> group_all g (map fst xs) = Some (regroup g (msgs xs))"
proof (induction xs arbitrary: g)
  case Nil
  then show ?case by (simp add: regroup_def)
next
  case (Cons x xs)
  obtain p loc seq m where x: "x = (p, loc, seq, m)" by (cases x)
  then have c: "carries p (loc, seq, m)" using Cons.prems by simp
  have "decode_frame (drop 10 p) = Some \<lparr>status = Ok, consumed = framed_size m, message = Some m\<rparr>"
    using c by simp
  then show ?case
    using Cons carried_type [OF c]
    by (simp add: x kTransportHeaderSize_def put_group_type regroup_Cons del: carries.simps)
qed

lemma counted_carries: "counted_ok sk w xs \<Longrightarrow> \<forall>x \<in> set xs. carries (fst x) (snd x)"
proof (induction xs arbitrary: w)
  case (Cons x xs)
  have "carries (fst x) (snd x)" using Cons.prems by (simp add: due_delivery_def delivery_ok_def del: carries.simps)
  moreover have "counted_ok sk (count_delivery sk w x) xs" using Cons.prems by simp
  then have "\<forall>y \<in> set xs. carries (fst y) (snd y)" by (rule Cons.IH)
  ultimately show ?case by (simp del: carries.simps)
qed simp

lemma directory_groups: "\<forall>m \<in> set ms. is_directory m \<Longrightarrow> regroup g ms = regroup g []"
proof (induction ms)
  case (Cons m ms)
  then show ?case by (cases m) (simp_all add: regroup_def)
qed simp

lemma regroup_append: "regroup g (ms @ ns) = regroup (regroup g ms) ns"
  by (simp add: regroup_def)

lemma regroup_Nil: "regroup g [] = g"
  by (simp add: regroup_def)

lemma acting_types:
  "acting g ms = ms \<Longrightarrow> length (filter is_add ms) + length (filter is_execute ms) + length (filter is_cancel ms) +
     length (filter is_delete ms) + length (filter is_replace ms) = length ms"
proof (induction ms arbitrary: g)
  case (Cons m ms)
  have le: "length (acting g' ms') \<le> length ms'" for g' ms' by (induction ms' arbitrary: g') (auto intro: le_SucI)
  have t: "msg_target g m \<noteq> None"
    using Cons.prems le [of "feed_step g m" ms] by (auto split: if_splits dest: arg_cong [where f = length])
  then have "acting (feed_step g m) ms = ms" using Cons.prems by (cases "msg_target g m") simp_all
  from Cons.IH [OF this] t show ?case by (cases m) auto
qed simp

section \<open>Properties\<close>



section \<open>A report is a baseline\<close>

text \<open>The pair of characters does not start inside the text.\<close>

fun apart :: "char \<Rightarrow> char \<Rightarrow> string \<Rightarrow> bool" where
  "apart a b [] \<longleftrightarrow> True"
| "apart a b [x] \<longleftrightarrow> x \<noteq> a"
| "apart a b (x # y # xs) \<longleftrightarrow> \<not> (x = a \<and> y = b) \<and> apart a b (y # xs)"

lemma apart_append: "apart a b xs \<Longrightarrow> apart a b ys \<Longrightarrow> apart a b (xs @ ys)"
proof (induction a b xs rule: apart.induct)
  case (2 a b x)
  then show ?case by (cases ys) simp_all
qed simp_all

lemma apart_other: "a \<notin> set xs \<Longrightarrow> apart a b xs"
  by (induction a b xs rule: apart.induct) auto

lemma not_digit: "(of_char c :: nat) < 48 \<Longrightarrow> d < 10 \<Longrightarrow> c \<noteq> digit_char d"
  by (auto simp: of_char_digit)

lemma apart_digits: "apart (CHR 0x22) b (print_u64 w)"
proof (rule apart_other)
  have "CHR 0x22 \<noteq> digit_char d" if "d < 10" for d
    using that by (intro not_digit) simp_all
  then show "CHR 0x22 \<notin> set (print_u64 w)" using print_nat_digits by (fastforce simp: print_u64_def)
qed

lemma find_key_apart: "apart a b pre \<Longrightarrow> find_key (a # b # ks) (pre @ s) = find_key (a # b # ks) s"
proof (induction a b pre rule: apart.induct)
  case (2 a b x)
  then show ?case by (subst find_key.simps) simp
next
  case (3 a b x y xs)
  then show ?case by (subst find_key.simps) auto
qed simp

lemma find_key_here: "find_key key (key @ s) = Some (key @ s)"
  by (subst find_key.simps) simp

lemma find_char_skip: "c \<notin> set pre \<Longrightarrow> find_key [c] (pre @ s) = find_key [c] s"
  by (induction pre) (auto simp: find_key.simps [of "[c]" "_ # _"])

lemma emit_throughput:
  "\<exists>pre rest. emit fp n a el lat counts rates =
     pre @ throughput_key @ '': '' @ fp_text fp 0 (per_second fp a el) @ '','' @ newline @ rest \<and>
   apart (CHR 0x22) (CHR ''t'') pre"
proof -
  let ?pre = "''{'' @ newline @ line 2 ''messages_total'' (print_u64 n) False @
     line 2 ''messages_applied'' (print_u64 a) False @ line 2 ''elapsed_ns'' (print_u64 el) False @ ''  ''"
  have "apart (CHR 0x22) (CHR ''t'') (line 2 name (print_u64 w) False)"
    if "name \<in> {''messages_total'', ''messages_applied'', ''elapsed_ns''}" for name w
  proof -
    have "line 2 name (print_u64 w) False = (''  \"'' @ name @ ''\": '') @ print_u64 w @ ('','' @ newline)"
      by (simp add: line_def numeral_2_eq_2)
    moreover have "apart (CHR 0x22) (CHR ''t'') (''  \"'' @ name @ ''\": '')"
      "apart (CHR 0x22) (CHR ''t'') ('','' @ newline)" using that by (auto simp: newline_def)
    ultimately show ?thesis by (simp only: apart_append apart_digits)
  qed
  then have "apart (CHR 0x22) (CHR ''t'') ?pre"
    by (intro apart_append) (simp_all add: newline_def)
  moreover have "\<exists>rest. emit fp n a el lat counts rates =
      ?pre @ throughput_key @ '': '' @ fp_text fp 0 (per_second fp a el) @ '','' @ newline @ rest"
    by (simp add: emit_def line_def throughput_key_def numeral_2_eq_2)
  ultimately show ?thesis by blast
qed

text \<open>The regression gate reads the reports the benchmark writes: of a report used as baseline it takes
  exactly the printed throughput, and the exit status is 2 when that is not positive, 1 when the
  measured throughput is below the baseline reduced by the drift, and 0 otherwise. What is assumed of
  floating point is that \<^verbatim>\<open>strtod\<close> reads the printed number back, as \<^verbatim>\<open>rnd\<close>.\<close>

theorem report_is_baseline:
  assumes "fs path = Some (emit fp n a el lat counts rates)"
    and "\<And>x rest. fp_strtod fp (c_str ('' '' @ fp_text fp 0 x @ '','' @ rest)) = rnd x"
  defines "base \<equiv> rnd (per_second fp a el)"
  shows "read_baseline_throughput fp fs path = (if fp_less fp (fp_zero fp) base then Some base else None) \<and>
    fst (regress_gate fp fs path drift measured) =
      (if \<not> fp_less fp (fp_zero fp) base then 2
       else if fp_less fp measured (fp_mul fp base (fp_sub fp (fp_strtod fp ''1.0'') drift)) then 1 else 0)"
proof -
  obtain pre rest where e: "emit fp n a el lat counts rates =
      pre @ throughput_key @ '': '' @ fp_text fp 0 (per_second fp a el) @ '','' @ newline @ rest"
    "apart (CHR 0x22) (CHR ''t'') pre" using emit_throughput by blast
  let ?tail = "'' '' @ fp_text fp 0 (per_second fp a el) @ '','' @ newline @ rest"
  have key: "throughput_key = CHR 0x22 # CHR ''t'' # tl (tl throughput_key)" by (simp add: throughput_key_def)
  have k: "find_key throughput_key (emit fp n a el lat counts rates) = Some (throughput_key @ '':'' @ ?tail)"
    using find_key_apart [OF e(2), of "tl (tl throughput_key)"] find_key_here [of throughput_key]
    unfolding e(1) key [symmetric] by simp
  have "find_key '':'' (throughput_key @ '':'' @ ?tail) = Some ('':'' @ ?tail)"
    using find_key_here [of "'':''" ?tail] by (subst find_char_skip) (simp_all add: throughput_key_def)
  moreover have "fp_strtod fp (c_str ?tail) = base" unfolding base_def by (rule assms(2))
  ultimately have "read_baseline_throughput fp fs path = (if fp_less fp (fp_zero fp) base then Some base else None)"
    using k by (simp add: read_baseline_throughput_def assms(1) Let_def)
  then show ?thesis by (simp add: regress_gate_def Let_def)
qed

lemma whole_fp_reads: "fp_strtod whole_fp (c_str ('' '' @ fp_text whole_fp 0 x @ '','' @ rest)) = x"
proof -
  have nz: "CHR 0x00 \<notin> set (print_nat x)"
  proof
    assume "CHR 0x00 \<in> set (print_nat x)"
    then obtain d where "d < 10" "CHR 0x00 = digit_char d" using print_nat_digits by blast
    then show False using not_digit [of "CHR 0x00" d] by simp
  qed
  then have c: "c_str ('' '' @ print_nat x @ '','' @ rest) = '' '' @ print_nat x @ '','' @ c_str rest"
    by (simp add: c_str_def) (subst takeWhile_append2, auto)
  obtain c cs where p: "print_nat x = c # cs" using print_nat_nonempty by (metis list.exhaust)
  then obtain d where "d < 10" "c = digit_char d" using print_nat_digits [of c x] by auto
  then have s: "\<not> is_space c" "c \<noteq> CHR ''-''" "c \<noteq> CHR ''+''" using digit_char_plain by auto
  have "\<forall>c \<in> set (print_nat x). digit_of c \<noteq> None" using print_nat_digits digit_of_char by fastforce
  then have "read_digits 0 (print_nat x @ '','' @ c_str rest) = x"
    using read_print_nat [of x] by (simp add: read_digits_append digit_of_def)
  then have "read_decimal (c_str ('' '' @ print_nat x @ '','' @ rest)) = int x"
    using s unfolding c by (simp add: read_decimal_def p is_space_def)
  then show ?thesis by (simp add: whole_fp_def)
qed

theorem report_is_baseline_witness:
  "fst (regress_gate whole_fp [''base.json'' \<mapsto> emit whole_fp 11 30 1 \<lparr>lat_min = 0, lat_max = 0, lat_p50 = 0, lat_p95 = 0,
     lat_p99 = 0, lat_p999 = 0, lat_mean = 0\<rparr> zero_counters []] ''base.json'' 0 29) = 1"
proof -
  let ?f = "[''base.json'' \<mapsto> emit whole_fp 11 30 1 \<lparr>lat_min = 0, lat_max = 0, lat_p50 = 0, lat_p95 = 0,
     lat_p99 = 0, lat_p999 = 0, lat_mean = 0\<rparr> zero_counters []]"
  have f: "?f ''base.json'' = Some (emit whole_fp 11 30 1 \<lparr>lat_min = 0, lat_max = 0, lat_p50 = 0, lat_p95 = 0,
     lat_p99 = 0, lat_p999 = 0, lat_mean = 0\<rparr> zero_counters [])" by simp
  have t: "per_second whole_fp 30 1 = 30" "fp_zero whole_fp = 0" "fp_strtod whole_fp ''1.0'' = 1"
    by (simp_all add: per_second_def seconds_def fp_zero_def whole_fp_def read_decimal_def is_space_def digit_of_def)
  from report_is_baseline [of ?f, OF f, of "\<lambda>x. x", OF whole_fp_reads, of 0 29] show ?thesis
    unfolding t by (simp add: whole_fp_def)
qed

end
