(* ===== verification/Cache_Study.thy ===== *)
theory Cache_Study
  imports Bench_Feed
begin

text \<open>
  \<^verbatim>\<open>bench/cache_study.cpp\<close>: the sum over the levels of synthetic books in three memory layouts. A
  level type is the packed record or an extension of it, the template parameter the record scheme;
  its size in bytes is the argument \<^verbatim>\<open>width\<close>. A block from \<^verbatim>\<open>operator new[]\<close> holds as many levels as fit
  into the bytes asked for, with the contents \<^verbatim>\<open>raw\<close> the allocator left there, which depend on the
  alignment asked for; \<^verbatim>\<open>None\<close> is an access outside the block.
\<close>

section \<open>Levels\<close>

record LevelPacked =
  lv_price :: u32
  lv_total_qty :: u32
  lv_order_count :: u32

record LevelPadded = LevelPacked +
  lv_pad :: u32

definition sizeof_packed :: u64 where "sizeof_packed = 12"
definition sizeof_padded :: u64 where "sizeof_padded = 16"
definition kDepth :: nat where "kDepth = 10"

text \<open>The template \<^verbatim>\<open>scan\<close>, which is instantiated and not called.\<close>

fun scan_loop :: "'a LevelPacked_scheme list \<Rightarrow> nat \<Rightarrow> u64 \<Rightarrow> u64" where
  "scan_loop levels 0 acc = acc"
| "scan_loop levels (Suc n) acc = scan_loop levels n (foldl (\<lambda>acc l. acc + ucast (lv_total_qty l)) acc levels)"

definition scan :: "'a LevelPacked_scheme list \<Rightarrow> u64 \<Rightarrow> u64" where
  "scan levels iters = scan_loop levels (unat iters) 0"

section \<open>measure\<close>

type_synonym 'a allocator = "bool \<Rightarrow> nat \<Rightarrow> 'a LevelPacked_scheme"

definition alloc_levels :: "'a allocator \<Rightarrow> bool \<Rightarrow> u64 \<Rightarrow> u64 \<Rightarrow> 'a LevelPacked_scheme list" where
  "alloc_levels raw align64 width n = map (raw align64) [0..<unat (n * width) div unat width]"

fun init_levels :: "'a LevelPacked_scheme list \<Rightarrow> nat \<Rightarrow> nat \<Rightarrow> 'a LevelPacked_scheme list option" where
  "init_levels base i 0 = Some base"
| "init_levels base i (Suc n) =
     (if i < length base
      then init_levels (base[i := (base ! i)\<lparr>lv_price := of_nat (100000 + i), lv_total_qty := of_nat (100 + i mod 900),
        lv_order_count := 1\<rparr>]) (Suc i) n
      else None)"

fun sum_depth :: "'a LevelPacked_scheme list \<Rightarrow> nat \<Rightarrow> nat \<Rightarrow> u64 \<Rightarrow> u64 option" where
  "sum_depth base i 0 acc = Some acc"
| "sum_depth base i (Suc n) acc =
     (if i < length base then sum_depth base (Suc i) n (acc + ucast (lv_total_qty (base ! i))) else None)"

fun sum_books :: "'a LevelPacked_scheme list \<Rightarrow> nat \<Rightarrow> nat \<Rightarrow> u64 \<Rightarrow> u64 option" where
  "sum_books base b 0 acc = Some acc"
| "sum_books base b (Suc n) acc = do {
     acc \<leftarrow> sum_depth base (unat (of_nat b * of_nat kDepth :: u64)) kDepth acc;
     sum_books base (Suc b) n acc }"

fun sum_iters :: "'a LevelPacked_scheme list \<Rightarrow> nat \<Rightarrow> nat \<Rightarrow> u64 \<Rightarrow> u64 option" where
  "sum_iters base nbooks 0 acc = Some acc"
| "sum_iters base nbooks (Suc n) acc = do { acc \<leftarrow> sum_books base 0 nbooks acc; sum_iters base nbooks n acc }"

text \<open>The rate, the checksum printed to the standard error, and the process.\<close>

definition measure_layout :: "'d fp \<Rightarrow> 'k os \<Rightarrow> 'a allocator \<Rightarrow> u64 \<Rightarrow> u64 \<Rightarrow> u64 \<Rightarrow> bool \<Rightarrow> 'k process \<Rightarrow>
    ('d \<times> u64 \<times> 'k process) option" where
  "measure_layout fp os raw width nbooks iters align64 p =
     (let total = nbooks * of_nat kDepth in do {
        base \<leftarrow> init_levels (alloc_levels raw align64 width total) 0 (unat total);
        let (t0, p) = now_ns os p in do {
        acc \<leftarrow> sum_iters base (unat nbooks) (unat iters) 0;
        let (t1, p) = now_ns os p;
            scans = fp_mul fp (fp_mul fp (fp_of_u64 fp iters) (fp_of_u64 fp nbooks)) (fp_of_u64 fp (of_nat kDepth));
            sec = seconds fp (t1 - t0) in
        Some (if fp_less fp (fp_zero fp) sec then fp_div fp scans sec else fp_zero fp, acc, p) } })"

section \<open>The program\<close>

text \<open>Arguments that are not known, and a flag without its value, are skipped.\<close>

fun parse_study :: "string list \<Rightarrow> u64 \<times> u64 \<Rightarrow> (u64 \<times> u64) option" where
  "parse_study [] c = Some c"
| "parse_study [a] c = Some c"
| "parse_study (a # v # as) (nbooks, iters) =
     (if a = ''--books'' then do { n \<leftarrow> atoll v; parse_study as (of_int n, iters) }
      else if a = ''--iters'' then do { n \<leftarrow> atoll v; parse_study as (nbooks, of_int n) }
      else parse_study (v # as) (nbooks, iters))"

definition checksum_line :: "u64 \<Rightarrow> string" where
  "checksum_line acc = ''# checksum='' @ print_u64 acc @ newline"

definition study_report :: "'d fp \<Rightarrow> u64 \<Rightarrow> u64 \<Rightarrow> 'd \<Rightarrow> 'd \<Rightarrow> 'd \<Rightarrow> string" where
  "study_report fp nbooks iters packed padded aligned =
     ''{'' @ newline @
     ''  \"books\": '' @ print_u64 nbooks @ '','' @ newline @
     ''  \"iters\": '' @ print_u64 iters @ '','' @ newline @
     ''  \"sizeof_packed12\": '' @ print_u64 sizeof_packed @ '','' @ newline @
     ''  \"sizeof_padded16\": '' @ print_u64 sizeof_padded @ '','' @ newline @
     ''  \"levels_per_cacheline_packed\": '' @
       fp_text fp 2 (fp_div fp (fp_strtod fp ''64.0'') (fp_of_u64 fp sizeof_packed)) @ '','' @ newline @
     ''  \"levels_per_cacheline_padded\": '' @
       fp_text fp 2 (fp_div fp (fp_strtod fp ''64.0'') (fp_of_u64 fp sizeof_padded)) @ '','' @ newline @
     ''  \"scan_levels_per_sec\": {'' @ newline @
     ''    \"packed12\": '' @ fp_text fp 0 packed @ '','' @ newline @
     ''    \"padded16\": '' @ fp_text fp 0 padded @ '','' @ newline @
     ''    \"aligned64\": '' @ fp_text fp 0 aligned @ newline @
     ''  }'' @ newline @ ''}'' @ newline"

text \<open>The standard output and the standard error; the exit status is 0.\<close>

definition cache_study_main :: "'d fp \<Rightarrow> 'k os \<Rightarrow> unit allocator \<Rightarrow> unit LevelPadded_ext allocator \<Rightarrow> string list \<Rightarrow>
    'k process \<Rightarrow> (string \<times> string \<times> 'k process) option" where
  "cache_study_main fp os raw_packed raw_padded args p = do {
     (nbooks, iters) \<leftarrow> parse_study args (50000, 200);
     (packed, c1, p) \<leftarrow> measure_layout fp os raw_packed sizeof_packed nbooks iters False p;
     (padded, c2, p) \<leftarrow> measure_layout fp os raw_padded sizeof_padded nbooks iters False p;
     (aligned, c3, p) \<leftarrow> measure_layout fp os raw_padded sizeof_padded nbooks iters True p;
     Some (study_report fp nbooks iters packed padded aligned,
       checksum_line c1 @ checksum_line c2 @ checksum_line c3, p) }"

section \<open>The sums\<close>

definition sample_qty :: "nat \<Rightarrow> nat" where
  "sample_qty i = 100 + i mod 900"

lemma qty_word: "ucast (of_nat (sample_qty i) :: u32) = (of_nat (sample_qty i) :: u64)"
proof -
  have "i mod 900 < 900" by simp
  then have "sample_qty i < 1000" unfolding sample_qty_def by linarith
  then have "sample_qty i < 2 ^ 32" by simp
  then have u: "unat (of_nat (sample_qty i) :: u32) = sample_qty i" by (intro unat_of_nat_small) simp
  have "ucast (of_nat (sample_qty i) :: u32) = (of_nat (unat (of_nat (sample_qty i) :: u32)) :: u64)"
    by (rule of_nat_unat [symmetric])
  then show ?thesis unfolding u .
qed

definition filled :: "'a LevelPacked_scheme list \<Rightarrow> nat \<Rightarrow> bool" where
  "filled base n \<longleftrightarrow> n \<le> length base \<and> (\<forall>i < n. lv_total_qty (base ! i) = of_nat (sample_qty i))"

lemma init_levels_filled:
  "filled base i \<Longrightarrow> i + n \<le> length base \<Longrightarrow>
   \<exists>base'. init_levels base i n = Some base' \<and> length base' = length base \<and> filled base' (i + n)"
proof (induction n arbitrary: base i)
  case (Suc n)
  let ?b = "base[i := (base ! i)\<lparr>lv_price := of_nat (100000 + i), lv_total_qty := of_nat (100 + i mod 900),
        lv_order_count := 1\<rparr>]"
  have "filled ?b (Suc i)" using Suc.prems by (auto simp: filled_def sample_qty_def nth_list_update less_Suc_eq)
  then show ?case using Suc.IH [of ?b "Suc i"] Suc.prems(2) by simp
qed simp

lemma sum_depth_filled:
  "filled base k \<Longrightarrow> i + n \<le> k \<Longrightarrow>
   sum_depth base i n acc = Some (acc + of_nat (sum_list (map sample_qty [i..<i + n])))"
proof (induction n arbitrary: i acc)
  case (Suc n)
  have "i < length base" "lv_total_qty (base ! i) = of_nat (sample_qty i)" using Suc.prems by (auto simp: filled_def)
  then show ?case
    using Suc.IH [of "Suc i"] Suc.prems by (simp add: qty_word upt_conv_Cons add.assoc del: upt_Suc)
qed simp

lemma sum_books_filled:
  "filled base k \<Longrightarrow> (b + n) * 10 \<le> k \<Longrightarrow> k < 2 ^ 64 \<Longrightarrow>
   sum_books base b n acc = Some (acc + of_nat (sum_list (map sample_qty [b * 10..<(b + n) * 10])))"
proof (induction n arbitrary: b acc)
  case (Suc n)
  have "unat (of_nat (b * 10) :: u64) = b * 10" using Suc.prems by (intro unat_of_nat_small) simp
  then have off: "unat (of_nat b * 10 :: u64) = b * 10" by simp
  have "[b * 10..<(b + Suc n) * 10] = [b * 10..<b * 10 + 10] @ [b * 10 + 10..<(b + Suc n) * 10]"
    using upt_add_eq_append [of "b * 10" "b * 10 + 10" "n * 10"] by (simp add: algebra_simps)
  then show ?case
    using Suc.IH [of "Suc b"] sum_depth_filled [OF Suc.prems(1), of "b * 10" 10] Suc.prems
    by (simp add: off kDepth_def algebra_simps)
qed simp

lemma sum_iters_filled:
  assumes "filled base (nbooks * 10)" "nbooks * 10 < 2 ^ 64"
  shows "sum_iters base nbooks n acc = Some (acc + of_nat (n * sum_list (map sample_qty [0..<nbooks * 10])))"
  using sum_books_filled [OF assms(1), of 0 nbooks] assms(2)
  by (induction n arbitrary: acc) (simp_all add: algebra_simps)

lemma measure_layout_checksum:
  assumes "0 < unat width" "unat nbooks * 10 * unat width < 2 ^ 64"
  shows "\<exists>rate p'. measure_layout fp os raw width nbooks iters align64 p =
    Some (rate, of_nat (unat iters * sum_list (map sample_qty [0..<unat nbooks * 10])), p')"
proof -
  let ?total = "nbooks * of_nat kDepth"
  have "unat nbooks * 10 \<le> unat nbooks * 10 * unat width" using assms(1) by simp
  then have small: "unat nbooks * 10 < 2 ^ 64" using assms(2) by linarith
  then have t: "unat ?total = unat nbooks * 10" by (simp add: kDepth_def unat_word_ariths)
  then have "unat (?total * width) = unat nbooks * 10 * unat width"
    using assms(2) by (simp add: unat_word_ariths)
  then have len: "length (alloc_levels raw align64 width ?total) = unat nbooks * 10"
    using assms(1) by (simp add: alloc_levels_def)
  have "filled (alloc_levels raw align64 width ?total) 0" by (simp add: filled_def)
  from init_levels_filled [OF this, of "unat ?total"] obtain base where
    b: "init_levels (alloc_levels raw align64 width ?total) 0 (unat ?total) = Some base" "filled base (unat nbooks * 10)"
    using len t by auto
  note s = sum_iters_filled [OF b(2) small, of "unat iters" 0]
  show ?thesis
    unfolding measure_layout_def Let_def b(1) bind.bind_lunit s
    by (cases "now_ns os p"; cases "now_ns os (snd (now_ns os p))") simp
qed

section \<open>Properties\<close>

text \<open>C32: the three layouts of the cache study do the same work: as long as the largest block fits into the
  address space, the program returns, no access leaves a block, and the three checksums it prints are
  the same number, whatever the allocator left in the memory and in the padding.\<close>

theorem layouts_agree:
  assumes "parse_study args (50000, 200) = Some (nbooks, iters)" and "unat nbooks * 160 < 2 ^ 64"
  shows "\<exists>out p'. cache_study_main fp os raw_packed raw_padded args p =
    Some (out, concat (replicate 3 (checksum_line
      (of_nat (unat iters * (\<Sum>i \<leftarrow> [0..<unat nbooks * 10]. 100 + i mod 900))))), p')"
proof -
  let ?sum = "of_nat (unat iters * sum_list (map sample_qty [0..<unat nbooks * 10])) :: u64"
  have s: "0 < unat sizeof_packed" "unat nbooks * 10 * unat sizeof_packed < 2 ^ 64"
    "0 < unat sizeof_padded" "unat nbooks * 10 * unat sizeof_padded < 2 ^ 64"
    using assms(2) by (simp_all add: sizeof_packed_def sizeof_padded_def)
  obtain r1 p1 where 1: "measure_layout fp os raw_packed sizeof_packed nbooks iters False p = Some (r1, ?sum, p1)"
    using measure_layout_checksum [OF s(1,2), of fp os raw_packed iters False p] by blast
  obtain r2 p2 where 2: "measure_layout fp os raw_padded sizeof_padded nbooks iters False p1 = Some (r2, ?sum, p2)"
    using measure_layout_checksum [OF s(3,4), of fp os raw_padded iters False p1] by blast
  obtain r3 p3 where 3: "measure_layout fp os raw_padded sizeof_padded nbooks iters True p2 = Some (r3, ?sum, p3)"
    using measure_layout_checksum [OF s(3,4), of fp os raw_padded iters True p2] by blast
  have "(\<Sum>i \<leftarrow> [0..<unat nbooks * 10]. 100 + i mod 900) = sum_list (map sample_qty [0..<unat nbooks * 10])"
    by (simp add: sample_qty_def [abs_def])
  then show ?thesis
    by (simp add: cache_study_main_def assms(1) 1 2 3 numeral_3_eq_3)
qed

theorem layouts_agree_witness:
  "\<exists>out p'. cache_study_main whole_fp still_os (\<lambda>al i. \<lparr>lv_price = 0, lv_total_qty = of_nat i, lv_order_count = 7\<rparr>)
     (\<lambda>al i. \<lparr>lv_price = 3, lv_total_qty = 0, lv_order_count = 0, lv_pad = of_nat i\<rparr>)
     [''--books'', ''2'', ''--iters'', ''3''] \<lparr>fds = [], os_state = ()\<rparr> =
   Some (out, concat (replicate 3 (checksum_line 6570)), p')"
proof -
  have a: "parse_study [''--books'', ''2'', ''--iters'', ''3''] (50000, 200) = Some (2, 3)"
    by (simp add: atoll_def read_decimal_def is_space_def digit_of_def)
  have s: "(of_nat (unat (3 :: u64) * (\<Sum>i \<leftarrow> [0..<unat (2 :: u64) * 10]. 100 + i mod 900)) :: u64) = 6570"
    by (simp add: upt_rec)
  show ?thesis using layouts_agree [OF a, unfolded s] by simp
qed

lemma init_levels_empty: "0 < n \<Longrightarrow> init_levels [] i n = None"
  by (cases n) simp_all

text \<open>
  The number of books is not bounded by the program: the size of the block is computed modulo 2^64, and
  for 2^62 books the block is empty although the loop that fills it is not.
\<close>

lemma oversized_books_overflow:
  "measure_layout fp os raw sizeof_packed (2 ^ 62) iters align64 p = None"
proof -
  have t: "(2 ^ 62 * of_nat kDepth :: u64) = 2 ^ 63" "(2 ^ 63 * sizeof_packed :: u64) = 0"
    by (simp_all add: kDepth_def sizeof_packed_def)
  have u: "0 < unat (2 ^ 63 :: u64)" by simp
  show ?thesis
    unfolding measure_layout_def alloc_levels_def Let_def t unsigned_0 div_0 upt_conv_Nil [OF order_refl] list.map(1) init_levels_empty [OF u]
    by simp
qed

end
