(* ===== verification/Multicast_Bench.thy ===== *)
theory Multicast_Bench
  imports Bench_Feed Live_Feed
begin

text \<open>
  \<^verbatim>\<open>bench/multicast_bench.cpp\<close>: a sender thread and a receiver thread over a multicast group of the
  host. The interleaving is the argument \<^verbatim>\<open>sched\<close>: how many datagrams the sender gets out before the
  receiver's turn of that number; a sleep of the sender is a turn with none. The process identifier
  is the argument \<^verbatim>\<open>pid\<close>.
\<close>

section \<open>The two threads\<close>

text \<open>The result of \<^verbatim>\<open>send\<close> is ignored.\<close>

fun send_some :: "'k os \<Rightarrow> MulticastSender \<Rightarrow> nat \<Rightarrow> byte list list \<Rightarrow> 'k process \<Rightarrow>
    (byte list list \<times> 'k process) option" where
  "send_some os tx 0 todo p = Some (todo, p)"
| "send_some os tx (Suc k) [] p = Some ([], p)"
| "send_some os tx (Suc k) (d # todo) p = do { (n, p) \<leftarrow> tx_send os tx d p; send_some os tx k todo p }"

function receive_loop :: "'k os \<Rightarrow> MulticastSender \<Rightarrow> MulticastReceiver \<Rightarrow> (nat \<Rightarrow> nat) \<Rightarrow> u64 \<Rightarrow> nat \<Rightarrow>
    byte list list \<Rightarrow> byte list \<Rightarrow> u64 \<Rightarrow> int \<Rightarrow> FeedHandler \<Rightarrow> 'k process \<Rightarrow>
    (byte list list \<times> u64 \<times> FeedHandler \<times> 'k process) option" where
  "receive_loop os tx rx sched goal t todo rbuf got idle h p =
     (if got < goal \<and> idle < 25 then do {
        (todo, p) \<leftarrow> send_some os tx (sched t) todo p;
        (n, rbuf, p) \<leftarrow> rx_recv os rx rbuf p;
        if 0 < n then do {
          (r, reports, snap, h) \<leftarrow> on_datagram None h (take (nat n) rbuf);
          receive_loop os tx rx sched goal (Suc t) todo rbuf (got + 1) 0 h p }
        else receive_loop os tx rx sched goal (Suc t) todo rbuf got (idle + 1) h p }
      else Some (todo, got, h, p))"
  by pat_completeness auto

lemma received_up: "(r :: u64) < n \<Longrightarrow> unat (r + 1) = Suc (unat r)"
proof -
  assume "r < n"
  then have "unat r < unat n" by (simp add: word_less_nat_alt)
  moreover have "unat n < 2 ^ 64" using unsigned_less [of n, where 'a = nat] by simp
  ultimately show ?thesis by (simp add: unat_word_ariths)
qed

termination receive_loop
  by (relation "measures [\<lambda>(os, tx, rx, sched, n, t, todo, rbuf, got, idle, h, p). unat n - unat got,
       \<lambda>(os, tx, rx, sched, n, t, todo, rbuf, got, idle, h, p). nat (25 - idle)]")
     (auto simp: received_up word_less_nat_alt)

declare receive_loop.simps [simp del]

section \<open>The program\<close>

text \<open>Arguments that are not known, and a flag without its value, are skipped.\<close>

fun parse_multicast :: "string list \<Rightarrow> u64 \<times> int \<Rightarrow> (u64 \<times> int) option" where
  "parse_multicast [] c = Some c"
| "parse_multicast [a] c = Some c"
| "parse_multicast (a # v # as) (count, pace) =
     (if a = ''--count'' then do { n \<leftarrow> atoll v; parse_multicast as (of_int n, pace) }
      else if a = ''--pace-us'' then do { n \<leftarrow> atoi v; parse_multicast as (count, n) }
      else parse_multicast (v # as) (count, pace))"

definition print_int :: "int \<Rightarrow> string" where
  "print_int i = (if i < 0 then ''-'' else []) @ print_nat (nat \<bar>i\<bar>)"

definition bench_endpoint :: "u32 \<Rightarrow> MulticastEndpoint" where
  "bench_endpoint pid = \<lparr>group = ''239.0.0.7'', port = ucast (45000 + pid mod 1000), iface = ''127.0.0.1''\<rparr>"

definition multicast_report :: "'d fp \<Rightarrow> u64 \<Rightarrow> u64 \<Rightarrow> int \<Rightarrow> u64 \<Rightarrow> FeedHandlerStats \<Rightarrow> string" where
  "multicast_report fp published got pace elapsed s =
     (let frac = (if published = 0 then fp_zero fp else fp_div fp (fp_of_u64 fp got) (fp_of_u64 fp published)) in
     ''{'' @ newline @
     ''  \"published\": '' @ print_u64 published @ '','' @ newline @
     ''  \"delivered\": '' @ print_u64 got @ '','' @ newline @
     ''  \"delivered_fraction\": '' @ fp_text fp 4 frac @ '','' @ newline @
     ''  \"pace_us\": '' @ print_int pace @ '','' @ newline @
     ''  \"elapsed_ns\": '' @ print_u64 elapsed @ '','' @ newline @
     ''  \"delivered_datagrams_per_sec\": '' @ fp_text fp 0 (per_second fp got elapsed) @ '','' @ newline @
     ''  \"messages_applied\": '' @ print_u64 (messages_applied s) @ '','' @ newline @
     ''  \"gaps_detected\": '' @ print_u64 (gaps_detected s) @ newline @
     ''}'' @ newline)"

text \<open>The measurement, once both sockets are open; then \<^verbatim>\<open>join\<close> lets the sender finish.\<close>

definition multicast_measure :: "'d fp \<Rightarrow> 'k os \<Rightarrow> (nat \<Rightarrow> nat) \<Rightarrow> MulticastSender \<Rightarrow> MulticastReceiver \<Rightarrow>
    byte list list \<Rightarrow> int \<Rightarrow> 'k process \<Rightarrow> (string \<times> 'k process) option" where
  "multicast_measure fp os sched tx rx payloads pace p =
     (let n = of_nat (length payloads); (t0, p) = now_ns os p in do {
        (todo, got, h, p) \<leftarrow> receive_loop os tx rx sched n 0 payloads [] 0 0 (new_feed_handler 10) p;
        let (t1, p) = now_ns os p in do {
        (todo, p) \<leftarrow> send_some os tx (length todo) todo p;
        Some (multicast_report fp n got pace (t1 - t0) (stats h), p) } })"

text \<open>The sockets are closed by their destructors, the sender's first.\<close>

definition multicast_bench_main :: "'d fp \<Rightarrow> 'k os \<Rightarrow> inet_pton \<Rightarrow> (sock_error \<Rightarrow> string) \<Rightarrow> 'r uniform \<Rightarrow> 'r \<Rightarrow> u32 \<Rightarrow>
    (nat \<Rightarrow> nat) \<Rightarrow> string list \<Rightarrow> 'k process \<Rightarrow> (program_result \<times> 'k process) option" where
  "multicast_bench_main fp os pton describe u r pid sched args p = do {
     (count, pace) \<leftarrow> parse_multicast args (1000000, 0);
     (e, rx, p) \<leftarrow> rx_open os pton (bench_endpoint pid) new_receiver p;
     (case e of
        Some err \<Rightarrow> do {
          (rx, p) \<leftarrow> rx_close os rx p;
          Some (\<lparr>exit_code = 2, stdout_text = [], stderr_text = ''receiver open failed: '' @ describe err @ newline\<rparr>, p) }
      | None \<Rightarrow> do {
          (_, p) \<leftarrow> rx_set_recv_timeout_ms os 200 rx p;
          (e, tx, p) \<leftarrow> tx_open os pton (bench_endpoint pid) new_sender p;
          (case e of
             Some err \<Rightarrow> do {
               (tx, p) \<leftarrow> tx_close os tx p;
               (rx, p) \<leftarrow> rx_close os rx p;
               Some (\<lparr>exit_code = 2, stdout_text = [], stderr_text = ''sender open failed: '' @ describe err @ newline\<rparr>, p) }
           | None \<Rightarrow> do {
               payloads \<leftarrow> bench_payloads u r count;
               (text, p) \<leftarrow> multicast_measure fp os sched tx rx payloads pace p;
               (tx, p) \<leftarrow> tx_close os tx p;
               (rx, p) \<leftarrow> rx_close os rx p;
               Some (\<lparr>exit_code = 0, stdout_text = text, stderr_text = []\<rparr>, p) }) }) }"

section \<open>Two descriptors\<close>

lemma holds_set: "set (fds p') = set (fds p) \<Longrightarrow> holds fd B p \<Longrightarrow> holds fd B p'"
  by (simp add: holds_def)

lemma holds_same: "holds fd B p \<Longrightarrow> holds fd B p' \<Longrightarrow> set (fds p') = set (fds p)"
  by (auto simp: holds_def split: if_splits)

lemma holds_other:
  assumes "holds fd B p" "0 \<le> fd" "0 \<le> fd2" "holds fd2 (insert fd B) p2"
  shows "holds fd (insert fd2 B) p2"
proof -
  have "set (fds p) = insert fd B" using assms(1,2) by (simp add: holds_def)
  then have "finite B" using List.finite_set [of "fds p"] by simp
  then show ?thesis
    using assms by (auto simp: holds_def card_insert_if insert_commute)
qed

lemma send_some_yields:
  "holds (tx_fd tx) C p \<Longrightarrow> yields (send_some os tx k todo p) (\<lambda>(todo, p'). holds (tx_fd tx) C p')"
proof (induction os tx k todo p rule: send_some.induct)
  case (3 os tx k d todo p)
  then show ?case
    using tx_send_yields [OF "3.prems", of os d] by (auto simp: yields_def)
qed simp_all

lemma send_some_log:
  "delivers os log \<Longrightarrow> send_some os tx k todo p = Some (todo', p') \<Longrightarrow> log (os_state p') = log (os_state p)"
proof (induction os tx k todo p rule: send_some.induct)
  case (3 os tx k d todo p)
  then show ?case
    using tx_send_log [OF "3.prems"(1), of tx d p] by (auto simp: returns_def bind_eq_Some_conv)
qed simp_all

section \<open>The receiver's loop\<close>

lemma on_datagram_total:
  assumes "db_wf (fh_book h)"
  obtains r reports snap h' where "on_datagram None h d = Some (r, reports, snap, h')" "db_wf (fh_book h')"
    "handler_step h (None, d) = Some h'"
  using handler_step_wf [OF assms, of "(None, d)"] that by (auto simp: handler_step_def)

text \<open>What a turn of the receiver takes from the system it gives to the handler.\<close>

definition followed :: "('k \<Rightarrow> byte list list) \<Rightarrow> FeedHandler \<Rightarrow> u64 \<Rightarrow> 'k process \<Rightarrow> FeedHandler \<Rightarrow> u64 \<Rightarrow> 'k process \<Rightarrow> bool" where
  "followed log h n p h' n' p' \<longleftrightarrow>
     (\<exists>ds. fed h ds h' \<and> log (os_state p') = log (os_state p) @ ds \<and> unat n' = unat n + length ds)"

lemma followed_trans: "followed log h n p h1 n1 p1 \<Longrightarrow> followed log h1 n1 p1 h2 n2 p2 \<Longrightarrow> followed log h n p h2 n2 p2"
  unfolding followed_def by (elim exE conjE, rule exI, rule conjI, erule (1) fed_append) simp

lemma followed_refl: "log (os_state p') = log (os_state p) \<Longrightarrow> followed log h n p h n p'"
  unfolding followed_def using fed_Nil by (intro exI [of _ "[]"]) simp

lemma receive_loop_ends:
  shows "delivers os log \<Longrightarrow> 0 \<le> rx_fd rx \<Longrightarrow> holds (rx_fd rx) A p \<Longrightarrow> holds (tx_fd tx) C p \<Longrightarrow> length rbuf \<le> kRecvBuffer \<Longrightarrow> db_wf (fh_book h) \<Longrightarrow>
    got \<le> goal \<Longrightarrow>
    yields (receive_loop os tx rx sched goal t todo rbuf got idle h p)
      (\<lambda>(todo', got', h', p'). set (fds p') = set (fds p) \<and> got' \<le> goal \<and> followed log h got p h' got' p')"
proof (induction os tx rx sched goal t todo rbuf got idle h p rule: receive_loop.induct)
  case (1 os tx rx sched goal t todo rbuf got idle h p)
  note prems = "1.prems" and IH = "1.IH"
  show ?case
  proof (cases "got < goal \<and> idle < 25")
    case False
    then have eq: "receive_loop os tx rx sched goal t todo rbuf got idle h p = Some (todo, got, h, p)"
      by (subst receive_loop.simps) (rule if_not_P)
    have "followed log h got p h got p" by (rule followed_refl) (rule refl)
    then show ?thesis unfolding eq using prems(7) by simp
  next
    case True
    obtain todo1 p1 where s: "send_some os tx (sched t) todo p = Some (todo1, p1)" "holds (tx_fd tx) C p1"
      using send_some_yields [OF prems(4), of os "sched t" todo] by (auto simp: yields_def)
    have set1: "set (fds p1) = set (fds p)" using holds_same [OF prems(4) s(2)] .
    then have own1: "holds (rx_fd rx) A p1" using prems(3) by (rule holds_set)
    have short: "length rbuf < 2 ^ 31" using prems(5) by (simp add: kRecvBuffer_def)
    obtain n rbuf2 p2 where r: "rx_recv os rx rbuf p1 = Some (n, rbuf2, p2)" "holds (rx_fd rx) A p2" "received rbuf n rbuf2"
      using rx_recv_yields [OF own1 prems(2) short, of os] by (auto simp: yields_def)
    have set2: "set (fds p2) = set (fds p)" using holds_same [OF own1 r(2)] set1 by simp
    then have own2: "holds (tx_fd tx) C p2" using prems(4) by (rule holds_set)
    have len: "length rbuf2 = kRecvBuffer" using r(3) prems(5) by (simp add: received_def)
    have taken: "log (os_state p2) = log (os_state p) @ (if 0 < n then [take (nat n) rbuf2] else [])"
      using rx_recv_log [OF prems(1) own1 prems(2) short r(1)] send_some_log [OF prems(1) s(1)] by simp
    show ?thesis
    proof (cases "0 < n")
      case pos: True
      let ?d = "take (nat n) rbuf2"
      obtain rr reps snap h1 where h1: "on_datagram None h ?d = Some (rr, reps, snap, h1)" "db_wf (fh_book h1)"
          "handler_step h (None, ?d) = Some h1" using on_datagram_total [OF prems(6)] .
      have "?d \<noteq> []" "length ?d \<le> kRecvBuffer" using pos len by (auto simp: kRecvBuffer_def)
      then have "fed h [?d] h1" using h1(3) by (simp add: fed_def)
      then have step: "followed log h got p h1 (got + 1) p2"
        unfolding followed_def using taken pos received_up [of got goal] True by (intro exI [of _ "[?d]"]) simp
      have up: "got + 1 \<le> goal" using True received_up [of got goal] by (simp add: word_le_nat_alt word_less_nat_alt)
      have eq: "receive_loop os tx rx sched goal t todo rbuf got idle h p =
          receive_loop os tx rx sched goal (Suc t) todo1 rbuf2 (got + 1) 0 h1 p2"
        unfolding receive_loop.simps [of os tx rx sched goal t] if_P [OF True] s(1) bind.bind_lunit prod.case r(1) if_P [OF pos] h1(1) ..
      have rec: "yields (receive_loop os tx rx sched goal (Suc t) todo1 rbuf2 (got + 1) 0 h1 p2)
          (\<lambda>(todo', got', h', p'). set (fds p') = set (fds p2) \<and> got' \<le> goal \<and> followed log h1 (got + 1) p2 h' got' p')"
        using IH(1) [OF True s(1) refl r(1) refl refl pos h1(1) refl refl refl prems(1,2) r(2) own2 _ h1(2) up] len by simp
      show ?thesis unfolding eq using rec set2 step by (auto elim!: yields_mono intro: followed_trans)
    next
      case neg: False
      have step: "followed log h got p h got p2" using taken neg by (simp add: followed_refl)
      have eq: "receive_loop os tx rx sched goal t todo rbuf got idle h p =
          receive_loop os tx rx sched goal (Suc t) todo1 rbuf2 got (idle + 1) h p2"
        unfolding receive_loop.simps [of os tx rx sched goal t] if_P [OF True] s(1) bind.bind_lunit prod.case r(1) if_not_P [OF neg] ..
      have rec: "yields (receive_loop os tx rx sched goal (Suc t) todo1 rbuf2 got (idle + 1) h p2)
          (\<lambda>(todo', got', h', p'). set (fds p') = set (fds p2) \<and> got' \<le> goal \<and> followed log h got p2 h' got' p')"
        using IH(2) [OF True s(1) refl r(1) refl refl neg prems(1,2) r(2) own2 _ prems(6,7)] len by simp
      show ?thesis unfolding eq using rec set2 step by (auto elim!: yields_mono intro: followed_trans)
    qed
  qed
qed

section \<open>Properties\<close>

lemma bench_payloads_count:
  assumes "uniform_ok u" "unat count \<le> 4000000"
  obtains ps where "bench_payloads u r count = Some ps" "length ps = 8 + unat count"
  using bench_payloads_run [OF assms, of r False zero_stats] by fastforce

lemma multicast_measure_ends:
  assumes log: "delivers os log" and rx: "0 \<le> rx_fd rx" "holds (rx_fd rx) A p" and tx: "holds (tx_fd tx) C p"
    and n: "length payloads < 2 ^ 64"
  shows "\<exists>text p'. multicast_measure fp os sched tx rx payloads pace p = Some (text, p') \<and> set (fds p') = set (fds p) \<and>
    (\<exists>ds h el. log (os_state p') = log (os_state p) @ ds \<and> fed (new_feed_handler 10) ds h \<and>
       length ds \<le> length payloads \<and>
       text = multicast_report fp (of_nat (length payloads)) (of_nat (length ds)) pace el (stats h))"
proof -
  let ?n = "of_nat (length payloads) :: u64" and ?h = "new_feed_handler 10"
  obtain t0 p1 where t0: "now_ns os p = (t0, p1)" by force
  have f1: "set (fds p1) = set (fds p)" using now_ns_fds [of os p] t0 by simp
  have wf: "db_wf (fh_book ?h)" by (simp add: new_feed_handler_def db_wf_new)
  have "yields (receive_loop os tx rx sched ?n 0 payloads [] 0 0 ?h p1)
      (\<lambda>(todo', got', h', p'). set (fds p') = set (fds p1) \<and> got' \<le> ?n \<and> followed log ?h 0 p1 h' got' p')"
    by (rule receive_loop_ends [OF log rx(1) holds_set [OF f1 rx(2)] holds_set [OF f1 tx] _ wf]) simp_all
  then obtain todo got h p2 where l: "receive_loop os tx rx sched ?n 0 payloads [] 0 0 ?h p1 = Some (todo, got, h, p2)"
      "set (fds p2) = set (fds p1)" "got \<le> ?n" "followed log ?h 0 p1 h got p2"
    by (auto simp: yields_def)
  obtain ds where ds: "fed ?h ds h" "log (os_state p2) = log (os_state p1) @ ds" "unat got = length ds"
    using l(4) by (auto simp: followed_def)
  obtain t1 p3 where t1: "now_ns os p2 = (t1, p3)" by force
  have f3: "set (fds p3) = set (fds p)" using now_ns_fds [of os p2] t1 l(2) f1 by simp
  obtain todo4 p4 where s: "send_some os tx (length todo) todo p3 = Some (todo4, p4)" "holds (tx_fd tx) C p4"
    using send_some_yields [OF holds_set [OF f3 tx], of os "length todo" todo] by (auto simp: yields_def)
  have f4: "set (fds p4) = set (fds p)" using holds_same [OF tx s(2)] .
  have logs: "log (os_state p4) = log (os_state p) @ ds"
    using send_some_log [OF log s(1)] now_ns_log [OF log t1] now_ns_log [OF log t0] ds(2) by simp
  have "of_nat (unat got) = got" by simp
  then have got: "got = of_nat (length ds)" unfolding ds(3) by (rule sym)
  have "unat ?n = length payloads" using n by (intro unat_of_nat_small) simp
  then have le: "length ds \<le> length payloads" using l(3) ds(3) by (simp add: word_le_nat_alt)
  have "multicast_measure fp os sched tx rx payloads pace p =
      Some (multicast_report fp ?n (of_nat (length ds)) pace (t1 - t0) (stats h), p4)"
    unfolding multicast_measure_def Let_def t0 prod.case l(1) bind.bind_lunit t1 s(1) got ..
  then show ?thesis using f4 logs ds(1) le by blast
qed

lemma rx_close_ends: "holds (rx_fd r) B p \<Longrightarrow> \<exists>r' p'. rx_close os r p = Some (r', p') \<and> set (fds p') = B"
  using rx_close_yields [of r B p "\<lambda>(r', p'). set (fds p') = B" os] by (auto simp: yields_def)

lemma tx_close_ends: "holds (tx_fd r) B p \<Longrightarrow> \<exists>r' p'. tx_close os r p = Some (r', p') \<and> set (fds p') = B"
  using tx_close_yields [of r B p "\<lambda>(r', p'). set (fds p') = B" os] by (auto simp: yields_def)



end
