(* ===== verification/Subscriber_Session.thy ===== *)
theory Subscriber_Session
  imports Tcp_Connection Book_Replica
begin

text \<open>
  A session of \<^verbatim>\<open>BookSnapshotSubscriber\<close> (\<^verbatim>\<open>src/sim/book_snapshot_subscriber.cpp\<close>, \<^verbatim>\<open>.h\<close>) on the system
  interface: its TCP client together with the local books of \<^verbatim>\<open>Book_Replica\<close>.
\<close>

section \<open>State and operations\<close>

record Subscriber =
  su_client :: TcpClient
  su_books :: BookSnapshotSubscriber

definition new_session :: Subscriber where
  "new_session = \<lparr>su_client = new_client, su_books = new_subscriber\<rparr>"

definition su_connect :: "'k os \<Rightarrow> inet_pton \<Rightarrow> u16 \<Rightarrow> int \<Rightarrow> Subscriber \<Rightarrow> 'k process \<Rightarrow>
    (sock_error option \<times> Subscriber \<times> 'k process) option" where
  "su_connect os pton prt timeout_ms s p = do {
     (e, c, p) \<leftarrow> cl_connect os pton ''127.0.0.1'' prt timeout_ms (su_client s) p;
     Some (e, s\<lparr>su_client := c\<rparr>, p) }"

definition su_receive_one :: "'k os \<Rightarrow> Subscriber \<Rightarrow> 'k process \<Rightarrow> (bool \<times> Subscriber \<times> 'k process) option" where
  "su_receive_one os s p = do {
     (ok, b, p) \<leftarrow> receive_one (sys_recv os (cl_fd (su_client s))) p (su_books s);
     Some (ok, s\<lparr>su_books := b\<rparr>, p) }"

definition su_shutdown :: "'k os \<Rightarrow> Subscriber \<Rightarrow> 'k process \<Rightarrow> 'k process option" where
  "su_shutdown os s p = cl_shutdown os (su_client s) p"

definition su_close :: "'k os \<Rightarrow> Subscriber \<Rightarrow> 'k process \<Rightarrow> (Subscriber \<times> 'k process) option" where
  "su_close os s p = do { (c, p) \<leftarrow> cl_close os (su_client s) p; Some (s\<lparr>su_client := c\<rparr>, p) }"

datatype su_op = Su_Connect u16 int | Su_Receive | Su_Shutdown | Su_Close

fun su_step :: "'k os \<Rightarrow> inet_pton \<Rightarrow> Subscriber \<times> 'k process \<Rightarrow> su_op \<Rightarrow> (Subscriber \<times> 'k process) option" where
  "su_step os pton (s, p) (Su_Connect prt ms) = do { (_, s, p) \<leftarrow> su_connect os pton prt ms s p; Some (s, p) }"
| "su_step os pton (s, p) Su_Receive = do { (_, s, p) \<leftarrow> su_receive_one os s p; Some (s, p) }"
| "su_step os pton (s, p) Su_Shutdown = do { p \<leftarrow> su_shutdown os s p; Some (s, p) }"
| "su_step os pton (s, p) Su_Close = su_close os s p"

section \<open>The local books\<close>

text \<open>
  Every symbol known has its books and is filed under its own key, and no side has more levels than
  a snapshot may carry.
\<close>

definition local_ok :: "LocalBook \<Rightarrow> bool" where
  "local_ok lb \<longleftrightarrow> length (lb_bids lb) \<le> kSnapshotMaxLevels \<and> length (lb_asks lb) \<le> kSnapshotMaxLevels"

definition replica_ok :: "BookSnapshotSubscriber \<Rightarrow> bool" where
  "replica_ok b \<longleftrightarrow> dom (sub_books b) = dom (sub_index b) \<and>
     (\<forall>k sy. sub_index b k = Some sy \<longrightarrow> symbol_key sy = k) \<and>
     (\<forall>k lb. sub_books b k = Some lb \<longrightarrow> local_ok lb)"

lemma replica_ok_new: "replica_ok new_subscriber"
  by (simp add: replica_ok_def new_subscriber_def)

lemma apply_record_ok: "replica_ok b \<Longrightarrow> record_ok r \<Longrightarrow> replica_ok (apply_record b r)"
  by (auto simp: replica_ok_def apply_record_def Let_def record_ok_def local_ok_def)

lemma apply_records_ok: "list_all record_ok rs \<Longrightarrow> replica_ok b \<Longrightarrow> replica_ok (foldl apply_record b rs)"
  by (induction rs arbitrary: b) (simp_all add: apply_record_ok)

lemma receive_one_ok:
  assumes "recv_stalls recv stalls" and keep: "\<And>c n r c'. recv c n = (r, c') \<Longrightarrow> I c \<Longrightarrow> I c'" and "I c"
    and "replica_ok b"
  shows "yields (receive_one recv c b) (\<lambda>(ok, b', c'). replica_ok b' \<and> I c')"
proof -
  obtain f c1 where f: "tcp_recv_frame recv c = Some (f, c1)" using tcp_recv_frame_returns [OF assms(1), of c] by auto
  have I: "I c1" by (rule tcp_recv_frame_preserves [where I = I, OF f]) (use keep assms(3) in blast)+
  show ?thesis
  proof (cases f)
    case None
    then show ?thesis using f I assms(4) by (simp add: receive_one_def)
  next
    case (Some xs)
    obtain s k where k: "decode_book_snapshot xs = Some (s, k)"
        "k \<Longrightarrow> snapshot_ok s \<and> (\<exists>rest. xs = encode_book_snapshot s @ rest)"
      by (rule decode_result [of xs]) blast
    have "replica_ok (foldl apply_record b (bs_symbols s))" if k
      using k(2) [OF that] assms(4) by (intro apply_records_ok) (auto simp: snapshot_ok_def)
    moreover have "replica_ok (b'\<lparr>last_sequence := n, frames_applied := m\<rparr>) = replica_ok b'" for b' n m
      by (simp add: replica_ok_def)
    ultimately show ?thesis using f I assms(4) Some k(1) by (simp add: receive_one_def Let_def)
  qed
qed

section \<open>Lifetime\<close>

abbreviation su_fd :: "Subscriber \<Rightarrow> fd" where
  "su_fd s \<equiv> cl_fd (su_client s)"

definition su_good :: "fd set \<Rightarrow> Subscriber \<times> 'k process \<Rightarrow> bool" where
  "su_good B x \<longleftrightarrow> holds (su_fd (fst x)) B (snd x) \<and> replica_ok (su_books (fst x))"

lemma su_close_yields:
  "holds (su_fd s) B p \<Longrightarrow>
   yields (su_close os s p) (\<lambda>(s', p'). su_fd s' < 0 \<and> set (fds p') = B \<and> su_books s' = su_books s)"
  unfolding su_close_def by (intro yields_rules cl_close_yields [of _ B]) auto

lemma su_receive_yields:
  assumes "interrupts_end os stalls" "su_good B (s, p)"
  shows "yields (su_receive_one os s p) (\<lambda>(ok, s', p'). su_good B (s', p'))"
proof -
  have keep: "holds (su_fd s) B c'" if "sys_recv os (su_fd s) c n = (r, c')" "holds (su_fd s) B c" for c n r c'
    using that holds_fds [OF sys_recv_fds [OF that(1)]] by simp
  have good: "holds (su_fd s) B p" "replica_ok (su_books s)" using assms(2) by (simp_all add: su_good_def)
  have "yields (receive_one (sys_recv os (su_fd s)) p (su_books s)) (\<lambda>(ok, b', c'). replica_ok b' \<and> holds (su_fd s) B c')"
    by (rule receive_one_ok [where I = "holds (su_fd s) B", OF sys_stalls(1) [OF assms(1)] _ good]) (rule keep)
  then show ?thesis unfolding su_receive_one_def by (auto simp: yields_def su_good_def)
qed

lemma su_step_yields:
  assumes "interrupts_end os stalls" "fd_room B" "su_good B (s, p)"
  shows "yields (su_step os pton (s, p) op) (su_good B)"
proof (cases op)
  case (Su_Connect prt ms)
  then show ?thesis
    using cl_connect_yields [of "su_client s" B p os pton "''127.0.0.1''" prt ms] assms(2,3)
    by (auto simp: su_good_def su_connect_def yields_def opened_def)
next
  case Su_Receive
  then show ?thesis using su_receive_yields [OF assms(1,3)] by (auto simp: yields_def)
next
  case Su_Shutdown
  then show ?thesis
    using cl_shutdown_yields [of "su_client s" B p os] assms(3) by (auto simp: su_shutdown_def su_good_def yields_def)
next
  case Su_Close
  then show ?thesis
    using su_close_yields [of s B p os] assms(3) by (auto simp: su_good_def yields_def holds_none)
qed

interpretation su: simulation "\<lambda>x. su_good B x \<and> fd_room B \<and> (\<exists>stalls. interrupts_end os stalls)" "\<lambda>x. ()"
  "su_step os pton" "\<lambda>g m. ()" "\<lambda>g m. True" "\<lambda>g. True" for B os pton
proof unfold_locales
  fix x :: "Subscriber \<times> 'a process" and op
  assume a: "su_good B x \<and> fd_room B \<and> (\<exists>stalls. interrupts_end os stalls)"
  then obtain stalls where "interrupts_end os stalls" by blast
  with a su_step_yields [of os stalls B "fst x" "snd x" pton op]
  show "\<exists>x'. su_step os pton x op = Some x' \<and> (su_good B x' \<and> fd_room B \<and> (\<exists>stalls. interrupts_end os stalls)) \<and> () = ()"
    by (auto simp: yields_def)
qed

section \<open>Properties\<close>



end
