(* ===== verification/Spec2Isabelle.thy ===== *)
theory Spec2Isabelle
  imports Itch_Properties Book_Properties Feed_Properties Publisher_Correct Book_Snapshot_Codec
    Snapshot_Server Publisher_Lock Histogram Listener_Race Services Gap_Stall Replay_Command
    Bench_Report Cache_Study Multicast_Bench Subscriber_Session
begin

text \<open>
  A verification library for the feed handler \<^bold>\<open>mdfeed-itch\<close>: a C++ program that receives NASDAQ
  TotalView-ITCH messages over UDP multicast, keeps an order book per symbol, detects lost
  messages, recovers by asking a server for a snapshot over TCP, and publishes snapshots of its
  books to subscribers.

  \<^bold>\<open>The program and its parts.\<close> A datagram is a ten-byte transport header (locate, sequence number)
  and one length-prefixed ITCH frame. \<^verbatim>\<open>FeedHandler::on_datagram\<close> reads the header, lets the gap
  detector judge the sequence number, asks the recovery requester for a snapshot when numbers are
  missing, decodes the frame and applies the message to the books. Around it stand the message
  generator and the servers of \<^verbatim>\<open>src/sim\<close>, the sockets of \<^verbatim>\<open>src/net\<close>, the capture files of \<^verbatim>\<open>src/pcap\<close>
  and three programs: the live handler \<^verbatim>\<open>main.cpp\<close>, \<^verbatim>\<open>pcap_gen.cpp\<close> and \<^verbatim>\<open>pcap_replay.cpp\<close>. Three
  programs of \<^verbatim>\<open>bench/\<close> measure the handler, the sockets and a memory layout.

  \<^bold>\<open>Conventions.\<close> Machine integers are words of their width, or \<^verbatim>\<open>int\<close> and \<^verbatim>\<open>nat\<close> where the code's value
  cannot leave their range. \<^verbatim>\<open>option\<close> in the result of an operation is undefined behaviour or a loop
  that never returns (\<^verbatim>\<open>None\<close>); failures the code reports are values inside the \<^verbatim>\<open>Some\<close>. State is a
  record that is passed and returned. Hash maps are partial functions; where the code iterates over
  one, the order is a parameter.

  \<^bold>\<open>Theories and sources.\<close>

  \<^item> \<^verbatim>\<open>Prelude\<close>: byte buffers with checked access, big-endian codecs, and the locale \<^verbatim>\<open>simulation\<close>,
    the interface between a component that processes a stream and what it promises.

  \<^item> \<^verbatim>\<open>Types\<close>, \<^verbatim>\<open>Itch_Messages\<close>, \<^verbatim>\<open>Itch_Parser\<close>: \<^verbatim>\<open>core/types.h\<close>, \<^verbatim>\<open>core/itch_messages.h\<close>,
    \<^verbatim>\<open>core/parser.cpp\<close>: the ten message types and the frame codec. \<^verbatim>\<open>Itch_Codec\<close> and
    \<^verbatim>\<open>Itch_Properties\<close>: the codec characterised by byte strings, round trips, acceptance, safety.

  \<^item> \<^verbatim>\<open>Price_Ladder\<close>, \<^verbatim>\<open>Symbol_Book\<close>, \<^verbatim>\<open>Depth_Book\<close>: \<^verbatim>\<open>core/depth_book.h\<close> and \<^verbatim>\<open>.cpp\<close>: sorted price
    levels, the book of a symbol, the books with their routing of order ids. The locale
    \<^verbatim>\<open>price_compare\<close> is the comparator of a ladder (interpreted for both sides), \<^verbatim>\<open>book_contract\<close>
    (\<^verbatim>\<open>Book_Contract\<close>) the contract of a book over its live orders. \<^verbatim>\<open>Market_View\<close> is the abstract
    market, a map of live orders; \<^verbatim>\<open>Feed_Refinement\<close> shows that the books simulate it,
    \<^verbatim>\<open>Book_Properties\<close> states the results.

  \<^item> \<^verbatim>\<open>Gap_Detector\<close>, \<^verbatim>\<open>Snapshot_Client\<close>: \<^verbatim>\<open>recovery/\<close>: the expected number per locate (locale
    \<^verbatim>\<open>sequencer\<close>) and the frames of the recovery protocol, characterised in \<^verbatim>\<open>Snapshot_Codec\<close>.
    \<^verbatim>\<open>Feed_Handler\<close>: \<^verbatim>\<open>core/feed_handler.cpp\<close>. \<^verbatim>\<open>Snapshot_Install\<close>, \<^verbatim>\<open>Feed_Sequencing\<close> and
    \<^verbatim>\<open>Feed_Properties\<close>: what a snapshot installs, what passes to the books over a stream of arrivals,
    delivery in order, safety.

  \<^item> \<^verbatim>\<open>Publisher\<close>: \<^verbatim>\<open>sim/publisher.cpp\<close>, the generator; \<^verbatim>\<open>Publisher_Live\<close> and \<^verbatim>\<open>Publisher_Correct\<close>: its
    live orders, and the composition with the handler over the wire.

  \<^item> \<^verbatim>\<open>Crc32\<close>, \<^verbatim>\<open>Book_Snapshot\<close>: \<^verbatim>\<open>sim/book_snapshot.cpp\<close>; \<^verbatim>\<open>Book_Snapshot_Codec\<close>: the decoder accepts
    exactly the encodings. \<^verbatim>\<open>Book_Replica\<close>: \<^verbatim>\<open>sim/book_snapshot_subscriber.cpp\<close>.
    \<^verbatim>\<open>Snapshot_Publisher\<close>, \<^verbatim>\<open>Publisher_Lock\<close>: \<^verbatim>\<open>sim/book_snapshot_publisher.cpp\<close>, one thread at a time
    and with the feed thread interleaved. \<^verbatim>\<open>Snapshot_Server\<close>: the loop of \<^verbatim>\<open>sim/snapshot_server.cpp\<close>.

  \<^item> \<^verbatim>\<open>Sockets\<close>: system calls, their answers and the descriptors of the process, with the locale
    \<^verbatim>\<open>fd_owner\<close>, the contract of a class that keeps a descriptor. \<^verbatim>\<open>Tcp_Framing\<close>, \<^verbatim>\<open>Tcp_Connection\<close>:
    \<^verbatim>\<open>net/tcp_recovery.cpp\<close>; \<^verbatim>\<open>Multicast\<close>: \<^verbatim>\<open>net/multicast.cpp\<close>; \<^verbatim>\<open>Listener_Race\<close>: accept and close on
    different threads. \<^verbatim>\<open>Services\<close>: both servers from start to stop on the system interface;
    \<^verbatim>\<open>Subscriber_Session\<close>: a subscriber from connect to close.

  \<^item> \<^verbatim>\<open>Histogram\<close>: \<^verbatim>\<open>obs/histogram.cpp\<close>. \<^verbatim>\<open>Pcap_IO\<close>: \<^verbatim>\<open>pcap/pcap_io.cpp\<close>; \<^verbatim>\<open>Pcap_Frames\<close>,
    \<^verbatim>\<open>Capture_File\<close>: what it writes, and that it reads it back. \<^verbatim>\<open>Pcap_Tools\<close>: the two capture
    programs; \<^verbatim>\<open>Capture_Session\<close>, \<^verbatim>\<open>Capture_Replay\<close>: a generated session and its replay.
    \<^verbatim>\<open>Program_Text\<close>: decimal numbers of command lines and reports. \<^verbatim>\<open>Replay_Command\<close>: the capture
    programs with their command lines and output. \<^verbatim>\<open>Live_Feed\<close>: \<^verbatim>\<open>main.cpp\<close> with \<^verbatim>\<open>obs/clock.cpp\<close>;
    \<^verbatim>\<open>Gap_Stall\<close>: what it does after a loss.

  \<^item> \<^verbatim>\<open>Feed_Counters\<close>: the statistics of the handler. \<^verbatim>\<open>Bench_Feed\<close>, \<^verbatim>\<open>Handler_Bench\<close>, \<^verbatim>\<open>Bench_Report\<close>:
    \<^verbatim>\<open>bench/handler_bench.cpp\<close>, its passes, its report and the regression gate. \<^verbatim>\<open>Cache_Study\<close>:
    \<^verbatim>\<open>bench/cache_study.cpp\<close>, one scan over three memory layouts. \<^verbatim>\<open>Multicast_Bench\<close>:
    \<^verbatim>\<open>bench/multicast_bench.cpp\<close>, a sender and a receiver thread under any schedule.

  \<^bold>\<open>What the theorems show.\<close> The frame codec is exact and stays inside its buffers. The books hold the
  live orders the messages define and show their best levels, for every feed in which no id is live
  under two symbols and no level total leaves 32 bits; on any other stream they stay well formed. The
  handler applies every number of a locate at most once, accounts for every gap it skips, and an
  installed snapshot reproduces the levels of the server. The composition is proved from the random
  draws of the generator over bytes to the books, to captures and their replay, and from the books
  over snapshots to a subscriber's copy. Servers answer what they are asked, the lock is held only
  while the books are copied, and every service and program gives back its descriptors on every
  path. Where the code does not do this, a lemma shows what happens instead, and the finding
  that names it is in the manifest.

  \<^bold>\<open>Parameters and hypotheses.\<close> The uniform distributions of the standard library return a value in
  their range (\<^verbatim>\<open>uniform_ok\<close>). \<^verbatim>\<open>recv\<close> returns at most the bytes asked for, in stream order
  (\<^verbatim>\<open>recv_ok\<close>), and some of those pending after finitely many interruptions (\<^verbatim>\<open>recv_live\<close>); \<^verbatim>\<open>send\<close>
  takes a prefix (\<^verbatim>\<open>send_ok\<close>, \<^verbatim>\<open>send_stalls\<close>). Other system calls may answer anything, except that
  interruptions end where a loop retries (\<^verbatim>\<open>interrupts_end\<close>) and that the steady clock runs where a
  time limit is to be reached (\<^verbatim>\<open>clock_runs\<close>); what a system delivered is read off its state where a
  theorem speaks of it (\<^verbatim>\<open>delivers\<close>). An iteration over a hash map visits each key once
  (\<^verbatim>\<open>enumerates\<close>). \<^verbatim>\<open>fwrite\<close> appends and libpcap reads the classic file format (\<^verbatim>\<open>fwrite_ok\<close>,
  \<^verbatim>\<open>savefile_ok\<close>, \<^verbatim>\<open>open_ok\<close>). Floating point is a parameter throughout. Each of these has an
  instance in a witness.

  \<^bold>\<open>Bounds.\<close> The generator's theorem covers four million messages, so that ids, times and prices stay
  in their words. Frames of the TCP protocols are at most 16 MiB, the limit of \<^verbatim>\<open>tcp_recv_frame\<close>,
  which is 67,108 symbols in a book snapshot. A capture holds payloads of at most 65,493 bytes and
  times before second 2^31. A histogram counts fewer than 2^64 samples. A time limit of the live
  program is at most 2^62 ns. The benchmarks run over at most four million messages, and the blocks
  of the cache study fit into 64 bits. Descriptors used with \<^verbatim>\<open>select\<close> are below \<^verbatim>\<open>FD_SETSIZE\<close>. There is no
  fuel: loops are structural recursions, recursions with a measure, or partial functions whose
  termination is proved under the hypotheses above; only the turns of a server between start and
  stop are counted, by an argument that is universally quantified.

  \<^bold>\<open>Not modelled.\<close> The text of system errors; \<^verbatim>\<open>SIGPIPE\<close>, which the code does not block (the model
  returns the error of \<^verbatim>\<open>send\<close>); the memory order of atomics (steps are sequentially consistent);
  accessors that return a member; allocation failure; the time a sleep takes and the times the
  benchmarks measure, which are whatever the clock of the system says.
\<close>

end
